(* ===== verification/Cogs_Prelude.thy ===== *)
theory Cogs_Prelude
  imports Main
begin

section \<open>Shared automation, lemmas and the transition-system interface\<close>

text \<open>
  What every component shares: the collections of rewrite rules the proofs are run with, lemmas on
  lists, occurrence counts and finite maps, the runs of a labelled transition relation, and the
  interface \<open>transition_system\<close> through which a component lifts an invariant of single steps to
  whole runs.
\<close>

named_theorems cogs_simps "rewrite rules of the Redis key layout and of the specification level"
named_theorems occ_simps "how each operation changes the number of places that hold a job"

type_synonym key = string
type_synonym job_id = string
type_synonym queue = string

subsection \<open>Occurrence counts\<close>

lemma count_list_rev [simp]: "count_list (rev xs) x = count_list xs x"
  by (induction xs) auto

lemma count_list_snoc_butlast:
  "xs \<noteq> [] \<Longrightarrow> count_list xs x = count_list (butlast xs) x + (if x = last xs then 1 else 0)"
proof -
  assume "xs \<noteq> []"
  then have "count_list xs x = count_list (butlast xs @ [last xs]) x" by simp
  then show ?thesis by (simp only: count_list_append count_list.simps) simp
qed

lemma count_list_pos_iff: "0 < count_list xs x \<longleftrightarrow> x \<in> set xs"
  by (metis count_list_0_iff gr0I less_numeral_extra(3))

lemma count_list_le_Suc0_distinct:
  "(\<And>x. count_list xs x \<le> Suc 0) \<Longrightarrow> distinct xs"
proof (induction xs)
  case Nil
  then show ?case by simp
next
  case (Cons y ys)
  have "count_list ys x \<le> Suc 0" for x
    using Cons.prems [of x] by (auto split: if_splits)
  moreover have "count_list ys y = 0" using Cons.prems [of y] by simp
  ultimately show ?case using Cons.IH by (simp add: count_list_0_iff)
qed

lemma count_list_distinct: "distinct xs \<Longrightarrow> count_list xs x = (if x \<in> set xs then 1 else 0)"
  by (induction xs) auto

lemma distinct_singleton: "distinct xs \<Longrightarrow> set xs = {x} \<Longrightarrow> xs = [x]"
proof (cases xs)
  case (Cons y ys)
  assume "distinct xs" "set xs = {x}"
  then show ?thesis using Cons by (cases ys) auto
qed simp

lemma butlast_take_rev: "xs \<noteq> [] \<Longrightarrow> rev xs = last xs # rev (butlast xs)"
  by (metis append_butlast_last_id rev.simps(2) rev_rev_ident)

subsection \<open>Runs of a labelled transition relation\<close>

inductive runs :: "('s \<Rightarrow> 'l \<Rightarrow> 's \<Rightarrow> bool) \<Rightarrow> 's \<Rightarrow> 'l list \<Rightarrow> 's \<Rightarrow> bool" for step where
  run_nil: "runs step s [] s"
| run_cons: "step s l t \<Longrightarrow> runs step t ls u \<Longrightarrow> runs step s (l # ls) u"

inductive_simps runs_Nil_iff [simp]: "runs step s [] t"
inductive_simps runs_Cons_iff: "runs step s (l # ls) t"

lemma runs_append: "runs step s ls t \<Longrightarrow> runs step t ms u \<Longrightarrow> runs step s (ls @ ms) u"
  by (induction rule: runs.induct) (auto intro: runs.intros)

lemma runs_snoc: "runs step s ls t \<Longrightarrow> step t l u \<Longrightarrow> runs step s (ls @ [l]) u"
  by (rule runs_append) (auto intro: runs.intros)

text \<open>
  The interface of a component with state: a step relation and an invariant every step keeps. Its
  client lemmas hold for any number of steps in any order, which is how concurrent requests reach
  the store.
\<close>

locale transition_system =
  fixes step :: "'s \<Rightarrow> 'l \<Rightarrow> 's \<Rightarrow> bool"
    and Inv :: "'s \<Rightarrow> bool"
  assumes inv_step: "Inv s \<Longrightarrow> step s l t \<Longrightarrow> Inv t"
begin

lemma inv_runs: "runs step s ls t \<Longrightarrow> Inv s \<Longrightarrow> Inv t"
  by (induction rule: runs.induct) (auto intro: inv_step)

text \<open>A relation between consecutive states that is reflexive and transitive holds across a run.\<close>

lemma rel_runs:
  assumes "runs step s ls t" and "Inv s"
    and refl: "\<And>s. P s s"
    and trans: "\<And>s t u. P s t \<Longrightarrow> P t u \<Longrightarrow> P s u"
    and one: "\<And>s l t. Inv s \<Longrightarrow> step s l t \<Longrightarrow> P s t"
  shows "P s t"
  using assms(1,2)
proof (induction rule: runs.induct)
  case (run_nil s)
  show ?case by (rule refl)
next
  case (run_cons s l t ls u)
  then have "P s t" and "Inv t" by (auto intro: one inv_step)
  with run_cons.IH show ?case by (blast intro: trans)
qed

end

end
