(* ===== verification/Go_Lib.thy ===== *)
theory Go_Lib
  imports Cogs_Prelude "HOL-Library.Word" "HOL-Library.Signed_Division"
begin

section \<open>What the program uses of Go and its standard library\<close>

text \<open>
  Go's 64-bit signed integers are mathematical integers kept in range by \<open>i64\<close>, the two's
  complement wrap-around, wherever a product or a sum can leave the range; division is Go's
  truncating division, \<open>sdiv\<close>. \<open>itoa\<close> and \<open>parse_int\<close> are \<open>strconv.Itoa\<close> and
  \<open>strconv.ParseInt(s, 10, 64)\<close> (\<open>strconv.Atoi\<close> on a 64-bit platform), \<open>hex_encode\<close> is
  \<open>hex.EncodeToString\<close>. A \<open>time.Duration\<close> is its number of nanoseconds.
\<close>

subsection \<open>64-bit integers and durations\<close>

definition i64 :: "int \<Rightarrow> int" where
  "i64 x = (x + 2 ^ 63) mod 2 ^ 64 - 2 ^ 63"

lemma i64_id: "- (2 ^ 63) \<le> x \<Longrightarrow> x < 2 ^ 63 \<Longrightarrow> i64 x = x"
  by (simp add: i64_def)

lemma i64_range: "- (2 ^ 63) \<le> i64 x \<and> i64 x < 2 ^ 63"
proof -
  have "0 \<le> (x + 2 ^ 63) mod 2 ^ 64 \<and> (x + 2 ^ 63) mod 2 ^ 64 < (2 ^ 64 :: int)" by simp
  then show ?thesis by (simp add: i64_def)
qed

definition milliseconds :: "int \<Rightarrow> int" where
  "milliseconds d = d sdiv 1000000"

abbreviation Millisecond :: int where "Millisecond \<equiv> 1000000"
abbreviation Second :: int where "Second \<equiv> 1000000000"

lemma milliseconds_nonneg: "0 \<le> d \<Longrightarrow> milliseconds d = d div 1000000"
  by (cases "d = 0") (simp_all add: milliseconds_def signed_divide_int_def)

subsection \<open>Decimal numbers\<close>

fun nat_digits :: "nat \<Rightarrow> string" where
  "nat_digits n =
     (if n < 10 then [char_of (48 + n)] else nat_digits (n div 10) @ [char_of (48 + n mod 10)])"

declare nat_digits.simps [simp del]

definition itoa :: "int \<Rightarrow> string" where
  "itoa i = (if i < 0 then CHR ''-'' # nat_digits (nat (- i)) else nat_digits (nat i))"

text \<open>
  The digit loop of \<open>strconv.ParseUint\<close> at base 10 and 64 bits, with its two overflow checks in
  the order the library makes them.
\<close>

datatype uint_result = USyntax | URange | UOk nat

fun parse_uint_loop :: "nat \<Rightarrow> string \<Rightarrow> uint_result" where
  "parse_uint_loop n [] = UOk n"
| "parse_uint_loop n (c # cs) =
     (let k = of_char c :: nat in
      if k < 48 \<or> 57 < k then USyntax
      else if 2 ^ 64 div 10 + 1 \<le> n then URange
      else if 2 ^ 64 \<le> n * 10 + (k - 48) then URange
      else parse_uint_loop (n * 10 + (k - 48)) cs)"

text \<open>
  The value and whether the error is nil. On a range error the value is the nearest bound, which
  the callers that drop the error go on with.
\<close>

definition parse_int :: "string \<Rightarrow> int \<times> bool" where
  "parse_int s =
     (let (neg, body) = (case s of
            [] \<Rightarrow> (False, [])
          | c # cs \<Rightarrow> if c = CHR ''-'' then (True, cs) else if c = CHR ''+'' then (False, cs) else (False, s))
      in if body = [] then (0, False)
         else (case parse_uint_loop 0 body of
             USyntax \<Rightarrow> (0, False)
           | URange \<Rightarrow> (if neg then - (2 ^ 63) else 2 ^ 63 - 1, False)
           | UOk n \<Rightarrow>
               if \<not> neg \<and> 2 ^ 63 \<le> n then (2 ^ 63 - 1, False)
               else if neg \<and> 2 ^ 63 < n then (- (2 ^ 63), False)
               else (if neg then - int n else int n, True)))"

lemma of_char_digit [simp]: "d < 10 \<Longrightarrow> of_char (char_of (48 + d) :: char) = (48 + d :: nat)"
  by simp

lemma parse_uint_nat_digits:
  "n < 2 ^ 64 \<Longrightarrow> parse_uint_loop 0 (nat_digits n @ cs) = parse_uint_loop n cs"
proof (induction n arbitrary: cs rule: nat_digits.induct)
  case (1 n)
  show ?case
  proof (cases "n < 10")
    case True
    then show ?thesis by (simp add: nat_digits.simps [of n] Let_def)
  next
    case False
    have "parse_uint_loop 0 (nat_digits n @ cs)
        = parse_uint_loop (n div 10) (char_of (48 + n mod 10) # cs)"
      using False "1.IH" [of "char_of (48 + n mod 10) # cs"] "1.prems"
      by (simp add: nat_digits.simps [of n])
    also have "\<dots> = parse_uint_loop n cs"
    proof -
      have "n div 10 * 10 + n mod 10 = n" by presburger
      moreover have "n div 10 < 2 ^ 64 div 10 + 1" using "1.prems" by simp
      moreover have "\<not> 9 < n mod 10" by presburger
      ultimately show ?thesis using "1.prems" by (simp add: Let_def)
    qed
    finally show ?thesis .
  qed
qed

lemma nat_digits_hd:
  "\<exists>d cs. d < 10 \<and> nat_digits n = char_of (48 + d :: nat) # cs"
proof (induction n rule: nat_digits.induct)
  case (1 n)
  show ?case
  proof (cases "n < 10")
    case True
    then show ?thesis by (auto simp: nat_digits.simps [of n])
  next
    case False
    then show ?thesis using "1.IH" by (auto simp: nat_digits.simps [of n])
  qed
qed

lemma digit_not_sign:
  assumes "d < 10"
  shows "char_of (48 + d :: nat) \<noteq> CHR ''-''" and "char_of (48 + d :: nat) \<noteq> CHR ''+''"
proof -
  have "of_char (char_of (48 + d :: nat) :: char) = (48 + d :: nat)" using assms by (rule of_char_digit)
  moreover have "of_char (CHR ''-'') = (45 :: nat)" "of_char (CHR ''+'') = (43 :: nat)" by simp_all
  ultimately show "char_of (48 + d :: nat) \<noteq> CHR ''-''" "char_of (48 + d :: nat) \<noteq> CHR ''+''"
    by force+
qed

lemma parse_int_itoa:
  assumes "- (2 ^ 63) \<le> i" and "i < 2 ^ 63"
  shows "parse_int (itoa i) = (i, True)"
proof (cases "i < 0")
  case True
  have "nat_digits (nat (- i)) \<noteq> []" using nat_digits_hd [of "nat (- i)"] by auto
  moreover have "nat (- i) \<le> 2 ^ 63" using assms by simp
  moreover have "parse_uint_loop 0 (nat_digits (nat (- i))) = UOk (nat (- i))"
    using parse_uint_nat_digits [of "nat (- i)" "[]"] calculation(2) by simp
  ultimately show ?thesis using True by (simp add: parse_int_def itoa_def)
next
  case False
  obtain d :: nat and cs where d: "d < 10" "nat_digits (nat i) = char_of (48 + d) # cs"
    using nat_digits_hd by blast
  have "nat i < 2 ^ 63" using assms False by (simp add: nat_less_iff)
  moreover have "parse_uint_loop 0 (nat_digits (nat i)) = UOk (nat i)"
    using parse_uint_nat_digits [of "nat i" "[]"] calculation by simp
  ultimately show ?thesis
    using False d digit_not_sign [OF d(1)] by (simp add: parse_int_def itoa_def)
qed

subsection \<open>Hexadecimal\<close>

definition hex_digit :: "nat \<Rightarrow> char" where
  "hex_digit n = (if n < 10 then char_of (48 + n) else char_of (87 + n))"

fun hex_encode :: "8 word list \<Rightarrow> string" where
  "hex_encode [] = []"
| "hex_encode (b # bs) = hex_digit (unat b div 16) # hex_digit (unat b mod 16) # hex_encode bs"

lemma hex_encode_length [simp]: "length (hex_encode bs) = 2 * length bs"
  by (induction bs) auto

lemma hex_digit_code: "n < 16 \<Longrightarrow> of_char (hex_digit n) = (if n < 10 then 48 + n else 87 + n :: nat)"
  by (simp add: hex_digit_def)

lemma hex_digit_inj: "m < 16 \<Longrightarrow> n < 16 \<Longrightarrow> hex_digit m = hex_digit n \<longleftrightarrow> m = n"
proof
  assume "m < 16" "n < 16" "hex_digit m = hex_digit n"
  then have "(if m < 10 then 48 + m else 87 + m) = (if n < 10 then 48 + n else 87 + n)"
    by (metis hex_digit_code)
  with \<open>m < 16\<close> \<open>n < 16\<close> show "m = n" by (auto split: if_splits)
qed simp

lemma nibbles_eq_iff: "m div 16 = n div 16 \<and> m mod 16 = n mod 16 \<longleftrightarrow> m = (n :: nat)"
proof
  assume "m div 16 = n div 16 \<and> m mod 16 = n mod 16"
  then have "m div 16 * 16 + m mod 16 = n div 16 * 16 + n mod 16" by simp
  then show "m = n" by (simp only: div_mult_mod_eq)
qed simp

lemma hex_encode_inj: "hex_encode xs = hex_encode ys \<longleftrightarrow> xs = ys"
proof (induction xs arbitrary: ys)
  case Nil
  then show ?case by (cases ys) auto
next
  case (Cons x xs)
  show ?case
  proof (cases ys)
    case Nil
    then show ?thesis by simp
  next
    case (Cons y zs)
    have "unat x < 256" "unat y < 256" using unsigned_less [of x] unsigned_less [of y] by simp_all
    then have "unat x div 16 < 16" "unat y div 16 < 16" by simp_all
    then have "hex_encode (x # xs) = hex_encode (y # zs) \<longleftrightarrow>
        (unat x div 16 = unat y div 16 \<and> unat x mod 16 = unat y mod 16) \<and> hex_encode xs = hex_encode zs"
      by (simp add: hex_digit_inj)
    then show ?thesis using Cons.IH [of zs] Cons by (simp only: nibbles_eq_iff unsigned_word_eqI word_unat_eq_iff list.inject)
  qed
qed

end
