(* ===== verification/Cogs_Job.thy ===== *)
theory Cogs_Job
  imports Go_Lib
begin

section \<open>Jobs, identifiers and the Redis key layout (internal/cogs/job.go)\<close>

text \<open>
  The \<open>Job\<close> struct, the \<open>State\<close> constants, \<open>NewID\<close>, the key constructors,
  \<open>ValidQueueName\<close>, and \<open>queueFromKey\<close> of store.go, which inverts the key constructors. A
  \<open>json.RawMessage\<close> is its bytes. The lemmas show that the key layout keeps every structure
  apart: distinct queues, distinct structures and distinct jobs never share a key.
\<close>

subsection \<open>Data\<close>

datatype job_state = StatePending | StateLeased | StateRetry | StateDead

fun state_string :: "job_state \<Rightarrow> string" where
  "state_string StatePending = ''pending''"
| "state_string StateLeased = ''leased''"
| "state_string StateRetry = ''retry''"
| "state_string StateDead = ''dead''"

record job =
  Job_ID :: job_id
  Job_Queue :: queue
  Job_Payload :: string
  Job_Attempts :: int
  Job_IdempotencyKey :: string
  Job_CreatedAt :: int
  Job_LeaseDeadline :: int

text \<open>
  \<open>NewID\<close>: the argument is what \<open>rand.Read\<close> filled the 16-byte array with, \<open>None\<close> for its
  error.
\<close>

definition NewID :: "8 word list option \<Rightarrow> string + job_id" where
  "NewID rnd = (case rnd of None \<Rightarrow> Inl ''generate id'' | Some b \<Rightarrow> Inr (hex_encode b))"

subsection \<open>Keys\<close>

definition jobKey :: "job_id \<Rightarrow> key" where "jobKey jid = ''job:'' @ jid"
definition pendingKey :: "queue \<Rightarrow> key" where "pendingKey q = ''queue:'' @ q @ '':pending''"
definition leasedKey :: "queue \<Rightarrow> key" where "leasedKey q = ''queue:'' @ q @ '':leased''"
definition retryKey :: "queue \<Rightarrow> key" where "retryKey q = ''queue:'' @ q @ '':retry''"
definition deadKey :: "queue \<Rightarrow> key" where "deadKey q = ''queue:'' @ q @ '':dead''"
definition idemKey :: "string \<Rightarrow> key" where "idemKey k = ''idem:'' @ k"
definition leaderKey :: key where "leaderKey = ''cogs:leader''"
definition scheduleKey :: "string \<Rightarrow> key" where "scheduleKey sid = ''schedule:'' @ sid"
definition schedulesKey :: key where "schedulesKey = ''schedules''"

lemmas key_defs = jobKey_def pendingKey_def leasedKey_def retryKey_def deadKey_def idemKey_def
  leaderKey_def scheduleKey_def schedulesKey_def

definition contains_any :: "string \<Rightarrow> string \<Rightarrow> bool" where
  "contains_any s chars = list_ex (\<lambda>c. c \<in> set chars) s"

definition ValidQueueName :: "queue \<Rightarrow> bool" where
  "ValidQueueName q =
     (if q = '''' \<or> length q > 128 then False
      else \<not> contains_any q [CHR '':'', CHR '' '', CHR 0x09, CHR 0x0D, CHR 0x0A, CHR ''{'', CHR ''}''])"

text \<open>\<open>queueFromKey\<close>: the loop runs from the last index of \<open>rest\<close> down to 0.\<close>

fun last_colon_prefix :: "string \<Rightarrow> nat \<Rightarrow> string" where
  "last_colon_prefix rest 0 = ''''"
| "last_colon_prefix rest (Suc i) =
     (if rest ! i = CHR '':'' then take i rest else last_colon_prefix rest i)"

definition queueFromKey :: "key \<Rightarrow> queue" where
  "queueFromKey k =
     (if length k < length ''queue::'' \<or> take 6 k \<noteq> ''queue:'' then ''''
      else let rest = drop 6 k in last_colon_prefix rest (length rest))"

subsection \<open>Structures never share a key\<close>

lemma key_inj [simp]:
  "jobKey a = jobKey b \<longleftrightarrow> a = b"
  "pendingKey q = pendingKey r \<longleftrightarrow> q = r"
  "leasedKey q = leasedKey r \<longleftrightarrow> q = r"
  "retryKey q = retryKey r \<longleftrightarrow> q = r"
  "deadKey q = deadKey r \<longleftrightarrow> q = r"
  "idemKey a = idemKey b \<longleftrightarrow> a = b"
  "scheduleKey a = scheduleKey b \<longleftrightarrow> a = b"
  by (simp_all add: key_defs)

text \<open>Keys with different last characters are different, whatever the queue names are.\<close>

lemma last_of_keys:
  "last (pendingKey q) = CHR ''g''" "last (leasedKey q) = CHR ''d''"
  "last (retryKey q) = CHR ''y''" "last (deadKey q) = CHR ''d''"
  by (simp_all add: key_defs)

lemma last2_of_keys:
  "last (butlast (leasedKey q)) = CHR ''e''" "last (butlast (deadKey q)) = CHR ''a''"
  by (simp_all add: key_defs butlast_append)

lemma ne_by_last: "last a \<noteq> last b \<Longrightarrow> a \<noteq> b"
  by auto

lemma ne_by_last2: "last (butlast a) \<noteq> last (butlast b) \<Longrightarrow> a \<noteq> b"
  by auto

lemma queue_key_ne [simp]:
  "pendingKey q \<noteq> leasedKey r" "leasedKey r \<noteq> pendingKey q"
  "pendingKey q \<noteq> retryKey r" "retryKey r \<noteq> pendingKey q"
  "pendingKey q \<noteq> deadKey r" "deadKey r \<noteq> pendingKey q"
  "leasedKey q \<noteq> retryKey r" "retryKey r \<noteq> leasedKey q"
  "retryKey q \<noteq> deadKey r" "deadKey r \<noteq> retryKey q"
  by (rule ne_by_last, simp add: last_of_keys)+

lemma leased_dead_key_ne [simp]: "leasedKey q \<noteq> deadKey r" "deadKey r \<noteq> leasedKey q"
  by (rule ne_by_last2, simp add: last2_of_keys)+

lemma other_key_ne [simp]:
  "jobKey a \<noteq> scheduleKey b" "scheduleKey b \<noteq> jobKey a"
  "idemKey a \<noteq> leaderKey" "leaderKey \<noteq> idemKey a"
  "schedulesKey \<noteq> leasedKey q" "leasedKey q \<noteq> schedulesKey"
  "schedulesKey \<noteq> retryKey q" "retryKey q \<noteq> schedulesKey"
  by (simp_all add: key_defs)

subsection \<open>A queue's name is recovered from its keys\<close>

lemma last_colon_prefix_at:
  assumes "rest ! n = CHR '':''" and "n < i"
    and "\<And>j. n < j \<Longrightarrow> j < i \<Longrightarrow> rest ! j \<noteq> CHR '':''"
  shows "last_colon_prefix rest i = take n rest"
  using assms(2,3)
proof (induction i)
  case 0
  then show ?case by simp
next
  case (Suc i)
  then show ?case using assms(1) by (cases "i = n") auto
qed

lemma queueFromKey_suffix:
  assumes "CHR '':'' \<notin> set s"
  shows "queueFromKey (''queue:'' @ q @ CHR '':'' # s) = q"
proof -
  let ?rest = "q @ CHR '':'' # s"
  have "last_colon_prefix ?rest (length ?rest) = take (length q) ?rest"
  proof (rule last_colon_prefix_at)
    fix j assume "length q < j" "j < length ?rest"
    then have "?rest ! j = s ! (j - length q - 1)" and "j - length q - 1 < length s"
      by (auto simp: nth_append nth_Cons')
    then show "?rest ! j \<noteq> CHR '':''" using assms nth_mem by metis
  qed auto
  then show ?thesis by (simp add: queueFromKey_def)
qed

lemma queueFromKey_keys [simp]:
  "queueFromKey (pendingKey q) = q" "queueFromKey (leasedKey q) = q" "queueFromKey (retryKey q) = q"
  using queueFromKey_suffix [of "''pending''" q] queueFromKey_suffix [of "''leased''" q]
    queueFromKey_suffix [of "''retry''" q]
  by (simp_all add: pendingKey_def leasedKey_def retryKey_def)

lemma queueFromKey_bracket:
  assumes "queueFromKey k \<noteq> ''''"
  shows "\<exists>s. k = ''queue:'' @ queueFromKey k @ CHR '':'' # s"
proof -
  have loop: "last_colon_prefix rest i = '''' \<or>
      (\<exists>n < i. rest ! n = CHR '':'' \<and> last_colon_prefix rest i = take n rest)" for rest i
    by (induction i) (auto intro: less_SucI)
  from assms have "take 6 k = ''queue:''" by (auto simp: queueFromKey_def split: if_splits)
  then have k: "k = ''queue:'' @ drop 6 k" using append_take_drop_id [of 6 k] by simp
  from assms loop [of "drop 6 k" "length (drop 6 k)"] obtain n where
    n: "n < length (drop 6 k)" "drop 6 k ! n = CHR '':''" "queueFromKey k = take n (drop 6 k)"
    by (auto simp: queueFromKey_def Let_def split: if_splits)
  then have "drop 6 k = queueFromKey k @ CHR '':'' # drop (Suc n) (drop 6 k)"
    using id_take_nth_drop [OF n(1)] by simp
  then have "k = ''queue:'' @ queueFromKey k @ CHR '':'' # drop (Suc n) (drop 6 k)"
    by (subst k) (simp only:)
  then show ?thesis by (rule exI)
qed

lemma ValidQueueName_nonempty: "ValidQueueName q \<Longrightarrow> q \<noteq> ''''"
  by (auto simp: ValidQueueName_def split: if_splits)

lemma ValidQueueName_no_colon: "ValidQueueName q \<Longrightarrow> CHR '':'' \<notin> set q"
  by (auto simp: ValidQueueName_def contains_any_def list_ex_iff split: if_splits)

end
