(* ===== verification/Redis_Api.thy ===== *)
theory Redis_Api
  imports Cogs_Job "HOL-Library.List_Lexorder" "HOL-Library.Char_ord"
begin

section \<open>The Redis commands the program uses, as a parameter\<close>

text \<open>
  Redis is not part of the repository, so it is a parameter: a record \<open>'db redis\<close> of the commands
  the Lua scripts and the Go code call, over an arbitrary type \<open>'db\<close> of database states. What the
  program relies on is the locale \<open>redis_db\<close>: the documented effect of each command, stated over
  the \<open>view\<close> of a database, which is what Redis' own read commands (LRANGE, ZSCORE, HGET, GET,
  PTTL) return. \<open>'db\<close> ranges over the states of a database that only this program writes, so
  each key holds a value of the type \<open>key_kind\<close> gives its name, and no command meets a key of
  the wrong type; each law asks for the kind of key its command needs.

  Scores are integers (every score the program writes is an \<open>int64\<close> in milliseconds), and a
  time-to-live is in milliseconds. A command that can refuse its arguments returns a sum, \<open>Inl\<close>
  for the error reply that makes a script stop.
\<close>

subsection \<open>Kinds of keys\<close>

datatype key_kind = KList | KZSet | KHash | KString | KOther

definition ends_with :: "string \<Rightarrow> string \<Rightarrow> bool" where
  "ends_with s k = (take (length s) (rev k) = rev s)"

definition key_kind :: "key \<Rightarrow> key_kind" where
  "key_kind k =
     (if take 4 k = ''job:'' \<or> take 9 k = ''schedule:'' then KHash
      else if k = ''schedules'' then KZSet
      else if take 5 k = ''idem:'' \<or> k = ''cogs:leader'' then KString
      else if take 6 k = ''queue:'' \<and> (ends_with '':pending'' k \<or> ends_with '':dead'' k) then KList
      else if take 6 k = ''queue:'' \<and> (ends_with '':leased'' k \<or> ends_with '':retry'' k) then KZSet
      else KOther)"

lemma key_kind_simps [simp]:
  "key_kind (jobKey a) = KHash" "key_kind (scheduleKey a) = KHash"
  "key_kind (pendingKey q) = KList" "key_kind (deadKey q) = KList"
  "key_kind (leasedKey q) = KZSet" "key_kind (retryKey q) = KZSet"
  "key_kind schedulesKey = KZSet"
  "key_kind (idemKey a) = KString" "key_kind leaderKey = KString"
  by (simp_all add: key_kind_def key_defs ends_with_def)

subsection \<open>Entries of a sorted set in Redis' order\<close>

text \<open>
  A sorted set orders its members by score and, at equal scores, by the bytes of the member.
\<close>

datatype zentry = ZEntry (zscore_of: int) (zmember: string)

instantiation zentry :: linorder
begin

definition less_eq_zentry :: "zentry \<Rightarrow> zentry \<Rightarrow> bool" where
  "less_eq_zentry a b \<longleftrightarrow>
     zscore_of a < zscore_of b \<or> zscore_of a = zscore_of b \<and> zmember a \<le> zmember b"

definition less_zentry :: "zentry \<Rightarrow> zentry \<Rightarrow> bool" where
  "less_zentry a b \<longleftrightarrow>
     zscore_of a < zscore_of b \<or> zscore_of a = zscore_of b \<and> zmember a < zmember b"

instance
  by standard (auto simp: less_eq_zentry_def less_zentry_def zentry.expand)

end

definition zentries :: "(string \<rightharpoonup> int) \<Rightarrow> zentry list" where
  "zentries z = sorted_list_of_set {e. z (zmember e) = Some (zscore_of e)}"

definition due_members :: "(string \<rightharpoonup> int) \<Rightarrow> int \<Rightarrow> string list" where
  "due_members z mx = map zmember (takeWhile (\<lambda>e. zscore_of e \<le> mx) (zentries z))"

definition limited :: "int \<Rightarrow> 'a list \<Rightarrow> 'a list" where
  "limited n xs = (if n < 0 then xs else take (nat n) xs)"

lemma zentries_finite: "finite (dom z) \<Longrightarrow> finite {e. z (zmember e) = Some (zscore_of e)}"
proof -
  assume "finite (dom z)"
  moreover have "{e. z (zmember e) = Some (zscore_of e)} \<subseteq> (\<lambda>m. ZEntry (the (z m)) m) ` dom z"
  proof
    fix e assume "e \<in> {e. z (zmember e) = Some (zscore_of e)}"
    then have "e = ZEntry (the (z (zmember e))) (zmember e)" "zmember e \<in> dom z" by auto
    then show "e \<in> (\<lambda>m. ZEntry (the (z m)) m) ` dom z" by blast
  qed
  ultimately show ?thesis by (meson finite_imageI finite_subset)
qed

lemma set_zentries: "finite (dom z) \<Longrightarrow> e \<in> set (zentries z) \<longleftrightarrow> z (zmember e) = Some (zscore_of e)"
  by (simp add: zentries_def zentries_finite)

lemma zentries_distinct: "distinct (map zmember (zentries z))"
proof (cases "finite {e. z (zmember e) = Some (zscore_of e)}")
  case True
  have "inj_on zmember (set (zentries z))"
    using True by (auto simp: zentries_def inj_on_def zentry.expand)
  then show ?thesis by (simp add: distinct_map zentries_def)
qed (simp add: zentries_def)

lemma zentries_sorted: "sorted (zentries z)"
  by (simp add: zentries_def)

lemma takeWhile_sorted_set:
  fixes xs :: "zentry list"
  shows "sorted xs \<Longrightarrow> set (takeWhile (\<lambda>e. zscore_of e \<le> mx) xs) = {e \<in> set xs. zscore_of e \<le> mx}"
proof (induction xs)
  case Nil
  then show ?case by simp
next
  case (Cons x xs)
  show ?case
  proof (cases "zscore_of x \<le> mx")
    case True
    then show ?thesis using Cons by auto
  next
    case False
    then have "\<forall>e \<in> set xs. \<not> zscore_of e \<le> mx" using Cons.prems by (auto simp: less_eq_zentry_def)
    then show ?thesis using False by auto
  qed
qed

lemma set_due_members:
  assumes "finite (dom z)"
  shows "m \<in> set (due_members z mx) \<longleftrightarrow> (\<exists>s. z m = Some s \<and> s \<le> mx)"
proof
  assume "m \<in> set (due_members z mx)"
  then show "\<exists>s. z m = Some s \<and> s \<le> mx"
    using assms by (auto simp: due_members_def takeWhile_sorted_set [OF zentries_sorted] set_zentries)
next
  assume "\<exists>s. z m = Some s \<and> s \<le> mx"
  then obtain s where "z m = Some s" "s \<le> mx" by blast
  then have "ZEntry s m \<in> {e \<in> set (zentries z). zscore_of e \<le> mx}" using assms by (simp add: set_zentries)
  then show "m \<in> set (due_members z mx)"
    unfolding due_members_def set_map takeWhile_sorted_set [OF zentries_sorted] by force
qed

lemma due_members_score:
  assumes "m \<in> set (due_members z mx)"
  shows "\<exists>s \<le> mx. z m = Some s"
proof -
  obtain e where e: "e \<in> set (zentries z)" "zscore_of e \<le> mx" "m = zmember e"
    using assms by (auto simp: due_members_def dest: set_takeWhileD)
  have "z (zmember e) = Some (zscore_of e)"
    using e(1) by (cases "finite {e. z (zmember e) = Some (zscore_of e)}") (simp_all add: zentries_def)
  then show ?thesis using e by auto
qed

lemma due_members_distinct: "distinct (due_members z mx)"
  unfolding due_members_def
  by (rule distinct_map_filter [where P = "\<lambda>_. True", simplified, OF _]) (metis distinct_map distinct_takeWhile inj_on_subset set_takeWhileD subsetI zentries_distinct)

lemma limited_distinct: "distinct xs \<Longrightarrow> distinct (limited n xs)"
  by (simp add: limited_def)

lemma set_limited_subset: "set (limited n xs) \<subseteq> set xs"
  by (auto simp: limited_def dest: in_set_takeD)

lemma limited_length: "0 \<le> n \<Longrightarrow> length (limited n xs) \<le> nat n"
  by (simp add: limited_def)

lemma limited_all: "n < 0 \<or> length xs \<le> nat n \<Longrightarrow> limited n xs = xs"
  by (auto simp: limited_def)

subsection \<open>The commands\<close>

record 'db redis =
  r_lpush :: "key \<Rightarrow> string \<Rightarrow> 'db \<Rightarrow> 'db"
  r_rpop :: "key \<Rightarrow> 'db \<Rightarrow> string option \<times> 'db"
  r_llen :: "key \<Rightarrow> 'db \<Rightarrow> int"
  r_lrange :: "key \<Rightarrow> int \<Rightarrow> int \<Rightarrow> 'db \<Rightarrow> string list"
  r_zadd :: "key \<Rightarrow> int \<Rightarrow> string \<Rightarrow> 'db \<Rightarrow> 'db"
  r_zrem :: "key \<Rightarrow> string \<Rightarrow> 'db \<Rightarrow> int \<times> 'db"
  r_zscore :: "key \<Rightarrow> string \<Rightarrow> 'db \<Rightarrow> int option"
  r_zcard :: "key \<Rightarrow> 'db \<Rightarrow> int"
  r_zrangebyscore :: "key \<Rightarrow> int \<Rightarrow> int \<Rightarrow> 'db \<Rightarrow> string list"
  r_zrange_withscores :: "key \<Rightarrow> 'db \<Rightarrow> (string \<times> int) list"
  r_hset :: "key \<Rightarrow> (string \<times> string) list \<Rightarrow> 'db \<Rightarrow> 'db"
  r_hget :: "key \<Rightarrow> string \<Rightarrow> 'db \<Rightarrow> string option"
  r_hgetall :: "key \<Rightarrow> 'db \<Rightarrow> (string \<times> string) list"
  r_hincrby :: "key \<Rightarrow> string \<Rightarrow> int \<Rightarrow> 'db \<Rightarrow> (string + int) \<times> 'db"
  r_del :: "key \<Rightarrow> 'db \<Rightarrow> int \<times> 'db"
  r_set_nx_ex :: "key \<Rightarrow> string \<Rightarrow> int \<Rightarrow> 'db \<Rightarrow> (string + bool) \<times> 'db"
  r_setargs_nx :: "key \<Rightarrow> string \<Rightarrow> int \<Rightarrow> 'db \<Rightarrow> bool \<times> 'db"
  r_get :: "key \<Rightarrow> 'db \<Rightarrow> string option"
  r_pttl :: "key \<Rightarrow> 'db \<Rightarrow> int option"
  r_pexpire :: "key \<Rightarrow> int \<Rightarrow> 'db \<Rightarrow> int \<times> 'db"
  r_scan :: "int \<Rightarrow> string \<Rightarrow> int \<Rightarrow> 'db \<Rightarrow> key list \<times> int"
  r_elapse :: "int \<Rightarrow> 'db \<Rightarrow> 'db"
  r_lua_number :: "int \<Rightarrow> string"

subsection \<open>The view of a database\<close>

record rview =
  list_at :: "key \<Rightarrow> string list"
  zset_at :: "key \<Rightarrow> (string \<rightharpoonup> int)"
  hash_at :: "key \<Rightarrow> (string \<rightharpoonup> string)"
  string_at :: "key \<Rightarrow> (string \<times> int option) option"

definition view :: "'db redis \<Rightarrow> 'db \<Rightarrow> rview" where
  "view R d = \<lparr>
     list_at = (\<lambda>k. r_lrange R k 0 (- 1) d),
     zset_at = (\<lambda>k m. r_zscore R k m d),
     hash_at = (\<lambda>k f. r_hget R k f d),
     string_at = (\<lambda>k. case r_get R k d of None \<Rightarrow> None | Some x \<Rightarrow> Some (x, r_pttl R k d)) \<rparr>"

lemma view_reads:
  "r_lrange R k 0 (- 1) d = list_at (view R d) k"
  "r_zscore R k m d = zset_at (view R d) k m"
  "r_hget R k f d = hash_at (view R d) k f"
  "r_get R k d = map_option fst (string_at (view R d) k)"
  by (simp_all add: view_def split: option.splits)

lemma view_eqI:
  "list_at v = list_at w \<Longrightarrow> zset_at v = zset_at w \<Longrightarrow> hash_at v = hash_at w \<Longrightarrow>
   string_at v = string_at w \<Longrightarrow> v = (w :: rview)"
  by (cases v, cases w) simp

text \<open>A key is in the keyspace when its value is not empty: Redis removes empty values.\<close>

definition key_present :: "rview \<Rightarrow> key \<Rightarrow> bool" where
  "key_present v k \<longleftrightarrow>
     (case key_kind k of
        KList \<Rightarrow> list_at v k \<noteq> []
      | KZSet \<Rightarrow> zset_at v k \<noteq> Map.empty
      | KHash \<Rightarrow> hash_at v k \<noteq> Map.empty
      | KString \<Rightarrow> string_at v k \<noteq> None
      | KOther \<Rightarrow> False)"

text \<open>Time passing: a string whose time-to-live has run out is gone.\<close>

definition age_string :: "int \<Rightarrow> (string \<times> int option) option \<Rightarrow> (string \<times> int option) option" where
  "age_string t s =
     (case s of
        Some (x, Some ttl) \<Rightarrow> if ttl \<le> t then None else Some (x, Some (ttl - t))
      | _ \<Rightarrow> s)"

definition upd_list :: "key \<Rightarrow> string list \<Rightarrow> rview \<Rightarrow> rview" where
  "upd_list k xs v = v\<lparr>list_at := (list_at v)(k := xs)\<rparr>"
definition upd_zset :: "key \<Rightarrow> (string \<rightharpoonup> int) \<Rightarrow> rview \<Rightarrow> rview" where
  "upd_zset k z v = v\<lparr>zset_at := (zset_at v)(k := z)\<rparr>"
definition upd_hash :: "key \<Rightarrow> (string \<rightharpoonup> string) \<Rightarrow> rview \<Rightarrow> rview" where
  "upd_hash k h v = v\<lparr>hash_at := (hash_at v)(k := h)\<rparr>"
definition upd_string :: "key \<Rightarrow> (string \<times> int option) option \<Rightarrow> rview \<Rightarrow> rview" where
  "upd_string k s v = v\<lparr>string_at := (string_at v)(k := s)\<rparr>"

lemma upd_reads [simp]:
  "list_at (upd_list k xs v) k' = (if k' = k then xs else list_at v k')"
  "zset_at (upd_list k xs v) = zset_at v" "hash_at (upd_list k xs v) = hash_at v"
  "string_at (upd_list k xs v) = string_at v"
  "zset_at (upd_zset k z v) k' = (if k' = k then z else zset_at v k')"
  "list_at (upd_zset k z v) = list_at v" "hash_at (upd_zset k z v) = hash_at v"
  "string_at (upd_zset k z v) = string_at v"
  "hash_at (upd_hash k h v) k' = (if k' = k then h else hash_at v k')"
  "list_at (upd_hash k h v) = list_at v" "zset_at (upd_hash k h v) = zset_at v"
  "string_at (upd_hash k h v) = string_at v"
  "string_at (upd_string k s v) k' = (if k' = k then s else string_at v k')"
  "list_at (upd_string k s v) = list_at v" "zset_at (upd_string k s v) = zset_at v"
  "hash_at (upd_string k s v) = hash_at v"
  by (simp_all add: upd_list_def upd_zset_def upd_hash_def upd_string_def)

lemma upd_same [simp]:
  "upd_list k (list_at v k) v = v" "upd_zset k (zset_at v k) v = v" "upd_hash k (hash_at v k) v = v"
  "upd_string k (string_at v k) v = v"
  by (rule view_eqI; simp add: fun_eq_iff)+

subsection \<open>The laws\<close>

text \<open>
  SCAN: the pages of one full iteration, from cursor 0 back to cursor 0, of an unchanged database.
\<close>

fun scan_pages :: "'db redis \<Rightarrow> string \<Rightarrow> int \<Rightarrow> int \<Rightarrow> key list list \<Rightarrow> 'db \<Rightarrow> bool" where
  "scan_pages R pat n cursor [] d = False"
| "scan_pages R pat n cursor (p # ps) d =
     (case r_scan R cursor pat n d of (ks, next) \<Rightarrow>
        ks = p \<and> (if next = 0 then ps = [] else scan_pages R pat n next ps d))"

definition glob_special :: "char set" where
  "glob_special = {CHR ''*'', CHR ''?'', CHR ''['', CHR 0x5C}"

locale redis_db =
  fixes R :: "'db redis"
  assumes lpush_view: "key_kind k = KList \<Longrightarrow>
      view R (r_lpush R k x d) = upd_list k (x # list_at (view R d) k) (view R d)"
    and rpop_reply: "key_kind k = KList \<Longrightarrow>
      fst (r_rpop R k d) = (if list_at (view R d) k = [] then None else Some (last (list_at (view R d) k)))"
    and rpop_view: "key_kind k = KList \<Longrightarrow>
      view R (snd (r_rpop R k d)) = upd_list k (butlast (list_at (view R d) k)) (view R d)"
    and llen: "key_kind k = KList \<Longrightarrow> r_llen R k d = int (length (list_at (view R d) k))"
    and lrange: "key_kind k = KList \<Longrightarrow> 0 \<le> n \<Longrightarrow>
      r_lrange R k 0 n d = take (Suc (nat n)) (list_at (view R d) k)"
    and zadd_view: "key_kind k = KZSet \<Longrightarrow>
      view R (r_zadd R k s m d) = upd_zset k ((zset_at (view R d) k)(m \<mapsto> s)) (view R d)"
    and zrem_reply: "key_kind k = KZSet \<Longrightarrow>
      fst (r_zrem R k m d) = (if zset_at (view R d) k m = None then 0 else 1)"
    and zrem_view: "key_kind k = KZSet \<Longrightarrow>
      view R (snd (r_zrem R k m d)) = upd_zset k ((zset_at (view R d) k)(m := None)) (view R d)"
    and zset_finite: "finite (dom (zset_at (view R d) k))"
    and zcard: "key_kind k = KZSet \<Longrightarrow> r_zcard R k d = int (card (dom (zset_at (view R d) k)))"
    and zrangebyscore: "key_kind k = KZSet \<Longrightarrow> n \<noteq> 0 \<Longrightarrow>
      r_zrangebyscore R k mx n d = limited n (due_members (zset_at (view R d) k) mx)"
    and zrange_withscores: "key_kind k = KZSet \<Longrightarrow>
      r_zrange_withscores R k d = map (\<lambda>e. (zmember e, zscore_of e)) (zentries (zset_at (view R d) k))"
    and hset_view: "key_kind k = KHash \<Longrightarrow> distinct (map fst fs) \<Longrightarrow>
      view R (r_hset R k fs d) = upd_hash k (hash_at (view R d) k ++ map_of fs) (view R d)"
    and hgetall: "key_kind k = KHash \<Longrightarrow> map_of (r_hgetall R k d) = hash_at (view R d) k"
    and hincrby_reply: "key_kind k = KHash \<Longrightarrow> hash_at (view R d) k f = Some (itoa n) \<Longrightarrow>
      - (2 ^ 63) \<le> n \<Longrightarrow> n < 2 ^ 63 \<Longrightarrow> - (2 ^ 63) \<le> n + i \<Longrightarrow> n + i < 2 ^ 63 \<Longrightarrow> fst (r_hincrby R k f i d) = Inr (n + i)"
    and hincrby_view: "key_kind k = KHash \<Longrightarrow> hash_at (view R d) k f = Some (itoa n) \<Longrightarrow>
      - (2 ^ 63) \<le> n \<Longrightarrow> n < 2 ^ 63 \<Longrightarrow> - (2 ^ 63) \<le> n + i \<Longrightarrow> n + i < 2 ^ 63 \<Longrightarrow>
      view R (snd (r_hincrby R k f i d))
        = upd_hash k ((hash_at (view R d) k)(f \<mapsto> itoa (n + i))) (view R d)"
    and del_hash_view: "key_kind k = KHash \<Longrightarrow>
      view R (snd (r_del R k d)) = upd_hash k Map.empty (view R d)"
    and del_string_view: "key_kind k = KString \<Longrightarrow>
      view R (snd (r_del R k d)) = upd_string k None (view R d)"
    and del_string_reply: "key_kind k = KString \<Longrightarrow>
      fst (r_del R k d) = (if string_at (view R d) k = None then 0 else 1)"
    and set_nx_ex_reply: "key_kind k = KString \<Longrightarrow> 0 < ttl \<Longrightarrow>
      fst (r_set_nx_ex R k x ttl d) = Inr (string_at (view R d) k = None)"
    and set_nx_ex_view: "key_kind k = KString \<Longrightarrow> 0 < ttl \<Longrightarrow>
      view R (snd (r_set_nx_ex R k x ttl d)) = (if string_at (view R d) k = None
        then upd_string k (Some (x, Some (1000 * ttl))) (view R d) else view R d)"
    and set_nx_ex_refused: "ttl \<le> 0 \<Longrightarrow>
      (\<exists>e. fst (r_set_nx_ex R k x ttl d) = Inl e) \<and> view R (snd (r_set_nx_ex R k x ttl d)) = view R d"
    and setargs_nx_reply: "key_kind k = KString \<Longrightarrow> Millisecond \<le> ttl \<Longrightarrow>
      fst (r_setargs_nx R k x ttl d) = (string_at (view R d) k = None)"
    and setargs_nx_view: "key_kind k = KString \<Longrightarrow> Millisecond \<le> ttl \<Longrightarrow>
      view R (snd (r_setargs_nx R k x ttl d)) = (if string_at (view R d) k = None
        then upd_string k (Some (x, Some (milliseconds ttl))) (view R d) else view R d)"
    and pexpire_reply: "key_kind k = KString \<Longrightarrow> 0 < ms \<Longrightarrow>
      fst (r_pexpire R k ms d) = (if string_at (view R d) k = None then 0 else 1)"
    and pexpire_view: "key_kind k = KString \<Longrightarrow> 0 < ms \<Longrightarrow>
      view R (snd (r_pexpire R k ms d))
        = upd_string k (map_option (\<lambda>(x, _). (x, Some ms)) (string_at (view R d) k)) (view R d)"
    and elapse_view: "0 \<le> t \<Longrightarrow>
      view R (r_elapse R t d) = (view R d)\<lparr>string_at := (\<lambda>k. age_string t (string_at (view R d) k))\<rparr>"
    and lua_number_zero: "r_lua_number R 0 = itoa 0"
    and scan: "0 < n \<Longrightarrow> set pre \<inter> glob_special = {} \<Longrightarrow> set post \<inter> glob_special = {} \<Longrightarrow>
      \<exists>ps. scan_pages R (pre @ CHR ''*'' # post) n 0 ps d \<and>
        set (concat ps) = {k. key_present (view R d) k \<and> (\<exists>mid. k = pre @ mid @ post)}"
begin

lemmas reply_laws = rpop_reply zrem_reply del_string_reply set_nx_ex_reply setargs_nx_reply
  pexpire_reply
lemmas view_laws = lpush_view rpop_view zadd_view zrem_view hset_view del_hash_view del_string_view
  set_nx_ex_view setargs_nx_view pexpire_view elapse_view
lemmas read_laws = llen lrange zcard zrangebyscore zrange_withscores

lemma hgetall_empty: "key_kind k = KHash \<Longrightarrow> r_hgetall R k d = [] \<longleftrightarrow> hash_at (view R d) k = Map.empty"
  using hgetall [of k d] by (metis map_of_eq_empty_iff)

lemma r_zscore_None: "r_zscore R k m d = None \<longleftrightarrow> zset_at (view R d) k m = None"
  by (simp add: view_reads)

end

end
