(* ===== verification/Lua_Scripts.thy ===== *)
theory Lua_Scripts
  imports Redis_Api
begin

section \<open>The Lua scripts of internal/cogs/store.go and internal/cogs/scheduler.go\<close>

text \<open>
  Every script as a function of the Redis commands, its KEYS and ARGV and the database, in the
  script's own order of commands. A script runs as one atomic step, so it maps a database to its
  reply and the next database. An error reply of a command ends the script with what it has
  written so far (\<open>Inl\<close>). A Lua table of replies is a list; \<open>x or def\<close> on a reply that may be
  false is \<open>reply_or\<close>.
\<close>

definition reply_or :: "'a option \<Rightarrow> 'a \<Rightarrow> 'a" where
  "reply_or x def = (case x of None \<Rightarrow> def | Some y \<Rightarrow> y)"

lemma reply_or_simps [simp]: "reply_or None def = def" "reply_or (Some y) def = y"
  by (simp_all add: reply_or_def)

subsection \<open>enqueueScript\<close>

definition enqueueScript ::
  "'db redis \<Rightarrow> key \<Rightarrow> key \<Rightarrow> key \<Rightarrow> job_id \<Rightarrow> string \<Rightarrow> queue \<Rightarrow> string \<Rightarrow> string \<Rightarrow> int \<Rightarrow>
   'db \<Rightarrow> (string + int \<times> string option) \<times> 'db" where
  "enqueueScript R jobK pendingK idemK jid payload queue created idem idemTTL d =
     (let create = (\<lambda>d.
          let d1 = r_hset R jobK
                [(''payload'', payload), (''queue'', queue), (''attempts'', r_lua_number R 0),
                 (''idempotency_key'', idem), (''created_at'', created)] d;
              d2 = r_lpush R pendingK jid d1
          in (Inr (1, Some jid), d2))
      in if idem \<noteq> '''' then
           (case r_set_nx_ex R idemK jid idemTTL d of
              (Inl e, d1) \<Rightarrow> (Inl e, d1)
            | (Inr ok, d1) \<Rightarrow> if \<not> ok then (Inr (0, r_get R idemK d1), d1) else create d1)
         else create d)"

subsection \<open>claimScript\<close>

fun claim_loop ::
  "'db redis \<Rightarrow> key \<Rightarrow> key \<Rightarrow> int \<Rightarrow> nat \<Rightarrow> string list \<Rightarrow> 'db \<Rightarrow> string list \<times> 'db" where
  "claim_loop R pendingK leasedK deadline 0 out d = (out, d)"
| "claim_loop R pendingK leasedK deadline (Suc n) out d =
     (case r_rpop R pendingK d of
        (None, d1) \<Rightarrow> (out, d1)
      | (Some jid, d1) \<Rightarrow>
          let d2 = r_zadd R leasedK deadline jid d1;
              f1 = r_hget R (jobKey jid) ''payload'' d2;
              f2 = r_hget R (jobKey jid) ''attempts'' d2
          in claim_loop R pendingK leasedK deadline n
               (out @ [jid, reply_or f1 '''', reply_or f2 ''0'']) d2)"

definition claimScript ::
  "'db redis \<Rightarrow> key \<Rightarrow> key \<Rightarrow> int \<Rightarrow> int \<Rightarrow> 'db \<Rightarrow> (string + string list) \<times> 'db" where
  "claimScript R pendingK leasedK n deadline d =
     (case claim_loop R pendingK leasedK deadline (nat n) [] d of (out, d') \<Rightarrow> (Inr out, d'))"

subsection \<open>renewScript, ackScript, failScript\<close>

definition renewScript ::
  "'db redis \<Rightarrow> key \<Rightarrow> job_id \<Rightarrow> int \<Rightarrow> 'db \<Rightarrow> (string + int) \<times> 'db" where
  "renewScript R leasedK jid deadline d =
     (if r_zscore R leasedK jid d = None then (Inr 0, d)
      else (Inr 1, r_zadd R leasedK deadline jid d))"

fun ack_loop :: "'db redis \<Rightarrow> key \<Rightarrow> job_id list \<Rightarrow> int \<Rightarrow> 'db \<Rightarrow> int \<times> 'db" where
  "ack_loop R leasedK [] n d = (n, d)"
| "ack_loop R leasedK (jid # args) n d =
     (case r_zrem R leasedK jid d of
        (removed, d1) \<Rightarrow>
          if removed = 1 then ack_loop R leasedK args (n + 1) (snd (r_del R (jobKey jid) d1))
          else ack_loop R leasedK args n d1)"

definition ackScript ::
  "'db redis \<Rightarrow> key \<Rightarrow> job_id list \<Rightarrow> 'db \<Rightarrow> (string + int) \<times> 'db" where
  "ackScript R leasedK args d = (case ack_loop R leasedK args 0 d of (n, d') \<Rightarrow> (Inr n, d'))"

definition failScript ::
  "'db redis \<Rightarrow> key \<Rightarrow> key \<Rightarrow> key \<Rightarrow> job_id \<Rightarrow> int \<Rightarrow> int \<Rightarrow> 'db \<Rightarrow> (string + int) \<times> 'db" where
  "failScript R leasedK retryK deadK jid nextAt maxRetries d =
     (case r_zrem R leasedK jid d of
        (removed, d1) \<Rightarrow>
          if removed = 0 then (Inr (- 1), d1)
          else (case r_hincrby R (jobKey jid) ''attempts'' 1 d1 of
              (Inl e, d2) \<Rightarrow> (Inl e, d2)
            | (Inr attempts, d2) \<Rightarrow>
                if attempts > maxRetries then (Inr 2, r_lpush R deadK jid d2)
                else (Inr 1, r_zadd R retryK nextAt jid d2)))"

subsection \<open>drainScript\<close>

fun drain_loop ::
  "'db redis \<Rightarrow> key \<Rightarrow> key \<Rightarrow> key \<Rightarrow> int \<Rightarrow> int \<Rightarrow> job_id list \<Rightarrow> job_id list \<Rightarrow> job_id list \<Rightarrow>
   'db \<Rightarrow> (string + job_id list \<times> job_id list) \<times> 'db" where
  "drain_loop R dueK pendingK deadK bump maxRetries [] requeued dead d = (Inr (requeued, dead), d)"
| "drain_loop R dueK pendingK deadK bump maxRetries (jid # due) requeued dead d =
     (case r_zrem R dueK jid d of
        (removed, d1) \<Rightarrow>
          if removed = 1 then
            (case (if bump = 1 then r_hincrby R (jobKey jid) ''attempts'' 1 d1 else (Inr 0, d1)) of
               (Inl e, d2) \<Rightarrow> (Inl e, d2)
             | (Inr attempts, d2) \<Rightarrow>
                 if bump = 1 \<and> attempts > maxRetries
                 then drain_loop R dueK pendingK deadK bump maxRetries due requeued (dead @ [jid])
                        (r_lpush R deadK jid d2)
                 else drain_loop R dueK pendingK deadK bump maxRetries due (requeued @ [jid]) dead
                        (r_lpush R pendingK jid d2))
          else drain_loop R dueK pendingK deadK bump maxRetries due requeued dead d1)"

definition drainScript ::
  "'db redis \<Rightarrow> key \<Rightarrow> key \<Rightarrow> key \<Rightarrow> int \<Rightarrow> int \<Rightarrow> int \<Rightarrow> int \<Rightarrow>
   'db \<Rightarrow> (string + job_id list \<times> job_id list) \<times> 'db" where
  "drainScript R dueK pendingK deadK now limit bump maxRetries d =
     (let due = r_zrangebyscore R dueK now limit d
      in drain_loop R dueK pendingK deadK bump maxRetries due [] [] d)"

subsection \<open>releaseLockScript, renewLockScript\<close>

definition releaseLockScript :: "'db redis \<Rightarrow> key \<Rightarrow> string \<Rightarrow> 'db \<Rightarrow> (string + int) \<times> 'db" where
  "releaseLockScript R k x d =
     (if r_get R k d = Some x then (case r_del R k d of (n, d') \<Rightarrow> (Inr n, d')) else (Inr 0, d))"

definition renewLockScript :: "'db redis \<Rightarrow> key \<Rightarrow> string \<Rightarrow> int \<Rightarrow> 'db \<Rightarrow> (string + int) \<times> 'db" where
  "renewLockScript R k x ms d =
     (if r_get R k d = Some x then (case r_pexpire R k ms d of (n, d') \<Rightarrow> (Inr n, d')) else (Inr 0, d))"

subsection \<open>scheduleDrainScript\<close>

text \<open>
  ARGV after \<open>now\<close> is a list of quads (schedule, job, payload, next run); the script's index
  arithmetic reads them one by one and ignores a trailing incomplete quad, which the caller never
  sends. The numbers it writes are Lua numbers, printed by Redis.
\<close>

type_synonym quad = "string \<times> job_id \<times> string \<times> int"

fun fire_loop ::
  "'db redis \<Rightarrow> key \<Rightarrow> int \<Rightarrow> quad list \<Rightarrow> string list \<Rightarrow> 'db \<Rightarrow> string list \<times> 'db" where
  "fire_loop R schedK now [] fired d = (fired, d)"
| "fire_loop R schedK now ((schedID, jobID, payload, nextRun) # args) fired d =
     (case r_zscore R schedK schedID d of
        None \<Rightarrow> fire_loop R schedK now args fired d
      | Some score \<Rightarrow>
          if score \<le> now then
            (case r_hget R (scheduleKey schedID) ''queue'' d of
               None \<Rightarrow> fire_loop R schedK now args fired d
             | Some queue \<Rightarrow>
                 let d1 = r_hset R (jobKey jobID)
                       [(''payload'', payload), (''queue'', queue), (''attempts'', r_lua_number R 0),
                        (''idempotency_key'', ''''), (''created_at'', r_lua_number R now)] d;
                     d2 = r_lpush R (pendingKey queue) jobID d1;
                     d3 = r_hset R (scheduleKey schedID) [(''last_run'', r_lua_number R now)] d2;
                     d4 = r_zadd R schedK nextRun schedID d3
                 in fire_loop R schedK now args (fired @ [schedID, queue]) d4)
          else fire_loop R schedK now args fired d)"

definition scheduleDrainScript ::
  "'db redis \<Rightarrow> key \<Rightarrow> int \<Rightarrow> quad list \<Rightarrow> 'db \<Rightarrow> (string + string list) \<times> 'db" where
  "scheduleDrainScript R schedK now args d =
     (case fire_loop R schedK now args [] d of (fired, d') \<Rightarrow> (Inr fired, d'))"

end
