(* ===== verification/Cogs_Config.thy ===== *)
theory Cogs_Config
  imports Go_Lib
begin

section \<open>Configuration (internal/cogs/config.go)\<close>

text \<open>
  The \<open>Config\<close> struct as a record, its durations in nanoseconds, and \<open>LoadConfig\<close> as a
  function of the environment. \<open>os.Getenv\<close> is a total function from names to values that
  gives the empty string for a name that is not set.
\<close>

record config =
  Port :: string
  RedisAddr :: string
  RedisPassword :: string
  AuthToken :: string
  LeaseTTL :: int
  ReaperInterval :: int
  RetryInterval :: int
  SchedulerInterval :: int
  LeaderLockTTL :: int
  MaxClaimBatch :: int
  MaxClaimWait :: int
  HeartbeatDivisor :: int
  MaxRetries :: int
  BackoffBase :: int
  IdempotencyWindow :: int
  MaxBodyBytes :: int
  DrainLimit :: int

definition env :: "(string \<Rightarrow> string) \<Rightarrow> string \<Rightarrow> string \<Rightarrow> string" where
  "env getenv k def = (let v = getenv k in if v \<noteq> '''' then v else def)"

definition envInt :: "(string \<Rightarrow> string) \<Rightarrow> string \<Rightarrow> int \<Rightarrow> int" where
  "envInt getenv k def =
     (let v = getenv k in
      if v = '''' then def
      else (case parse_int v of (n, ok) \<Rightarrow> if \<not> ok then def else n))"

definition LoadConfig :: "(string \<Rightarrow> string) \<Rightarrow> config" where
  "LoadConfig getenv = \<lparr>
     Port = env getenv ''PORT'' ''8080'',
     RedisAddr = env getenv ''REDIS_ADDR'' ''localhost:6379'',
     RedisPassword = env getenv ''REDIS_PASSWORD'' '''',
     AuthToken = env getenv ''AUTH_TOKEN'' '''',
     LeaseTTL = i64 (envInt getenv ''DEFAULT_LEASE_SECONDS'' 3 * Second),
     ReaperInterval = i64 (envInt getenv ''REAPER_INTERVAL_MS'' 500 * Millisecond),
     RetryInterval = i64 (envInt getenv ''RETRY_INTERVAL_MS'' 500 * Millisecond),
     SchedulerInterval = i64 (envInt getenv ''SCHEDULER_INTERVAL_MS'' 1000 * Millisecond),
     LeaderLockTTL = i64 (envInt getenv ''LEADER_LOCK_TTL_MS'' 10000 * Millisecond),
     MaxClaimBatch = envInt getenv ''MAX_CLAIM_BATCH'' 64,
     MaxClaimWait = i64 (envInt getenv ''CLAIM_WAIT_MS'' 5000 * Millisecond),
     HeartbeatDivisor = envInt getenv ''HEARTBEAT_DIVISOR'' 3,
     MaxRetries = envInt getenv ''MAX_RETRIES'' 5,
     BackoffBase = i64 (envInt getenv ''BACKOFF_BASE_MS'' 1000 * Millisecond),
     IdempotencyWindow = i64 (envInt getenv ''IDEMPOTENCY_WINDOW_SECONDS'' 3600 * Second),
     MaxBodyBytes = envInt getenv ''MAX_BODY_BYTES'' (2 ^ 20),
     DrainLimit = envInt getenv ''DRAIN_LIMIT'' 500 \<rparr>"

text \<open>
  The settings under which the background passes and the attempt counter behave as described: a
  drain pass has a limit other than 0, and the retry limit leaves room for one more attempt in an
  \<open>int64\<close>.
\<close>

definition limits_ok :: "config \<Rightarrow> bool" where
  "limits_ok c \<longleftrightarrow> DrainLimit c \<noteq> 0 \<and> MaxRetries c < 2 ^ 63 - 1"

lemma envInt_unset: "getenv k = '''' \<Longrightarrow> envInt getenv k def = def"
  by (simp add: envInt_def)

lemma envInt_itoa:
  "getenv k = itoa n \<Longrightarrow> - (2 ^ 63) \<le> n \<Longrightarrow> n < 2 ^ 63 \<Longrightarrow> envInt getenv k def = n"
proof -
  assume *: "getenv k = itoa n" "- (2 ^ 63) \<le> n" "n < 2 ^ 63"
  have "itoa n \<noteq> ''''"
    using nat_digits_hd [of "nat n"] nat_digits_hd [of "nat (- n)"] by (auto simp: itoa_def)
  with * show ?thesis by (simp add: envInt_def parse_int_itoa)
qed

lemma envInt_malformed: "\<not> snd (parse_int (getenv k)) \<Longrightarrow> envInt getenv k def = def"
  by (auto simp: envInt_def Let_def split: prod.splits)

end
