(* ===== verification/Job_Spec.thy ===== *)
theory Job_Spec
  imports Redis_Api Cogs_Config
begin

section \<open>The abstract job store: operations on views and their invariant\<close>

text \<open>
  What the scripts promise, as functions on the view of a database. A job is its hash
  \<open>job_hash\<close>; its state is the structure that holds its identifier. The invariant \<open>job_inv\<close>
  is the program's core promise: a job with a hash is in exactly one structure of its own queue,
  exactly once, and no structure holds an identifier without a hash; \<open>occ\<close> counts the places.
  The theory \<open>Script_Refine\<close> shows that the scripts compute these functions.
\<close>

subsection \<open>Reading jobs off a view\<close>

definition job_hash :: "string \<Rightarrow> queue \<Rightarrow> int \<Rightarrow> string \<Rightarrow> string \<Rightarrow> string \<rightharpoonup> string" where
  "job_hash p q n i t =
     [''payload'' \<mapsto> p, ''queue'' \<mapsto> q, ''attempts'' \<mapsto> itoa n, ''idempotency_key'' \<mapsto> i, ''created_at'' \<mapsto> t]"

lemma job_hash_fields [simp]:
  "job_hash p q n i t ''payload'' = Some p" "job_hash p q n i t ''queue'' = Some q"
  "job_hash p q n i t ''attempts'' = Some (itoa n)" "job_hash p q n i t ''idempotency_key'' = Some i"
  "job_hash p q n i t ''created_at'' = Some t"
  "job_hash p q n i t \<noteq> Map.empty" "Map.empty \<noteq> job_hash p q n i t"
  by (auto simp: job_hash_def fun_eq_iff)

lemma job_hash_attempts_upd [simp]:
  "(job_hash p q n i t)(''attempts'' \<mapsto> itoa m) = job_hash p q m i t"
  by (simp add: job_hash_def fun_eq_iff)

definition job_queue :: "rview \<Rightarrow> job_id \<Rightarrow> queue option" where
  "job_queue v j = hash_at v (jobKey j) ''queue''"

definition job_attempts :: "rview \<Rightarrow> job_id \<Rightarrow> int" where
  "job_attempts v j = (case hash_at v (jobKey j) ''attempts'' of None \<Rightarrow> 0 | Some s \<Rightarrow> fst (parse_int s))"

definition live :: "rview \<Rightarrow> job_id set" where
  "live v = {j. hash_at v (jobKey j) \<noteq> Map.empty}"

definition occ :: "rview \<Rightarrow> queue \<Rightarrow> job_id \<Rightarrow> nat" where
  "occ v q j =
     count_list (list_at v (pendingKey q)) j
     + (if zset_at v (leasedKey q) j = None then 0 else 1)
     + (if zset_at v (retryKey q) j = None then 0 else 1)
     + count_list (list_at v (deadKey q)) j"

text \<open>The state of a job, as job.go has it: which structure of its queue holds it.\<close>

definition job_state :: "rview \<Rightarrow> job_id \<Rightarrow> job_state option" where
  "job_state v j =
     (case job_queue v j of
        None \<Rightarrow> None
      | Some q \<Rightarrow>
          if j \<in> set (list_at v (pendingKey q)) then Some StatePending
          else if zset_at v (leasedKey q) j \<noteq> None then Some StateLeased
          else if zset_at v (retryKey q) j \<noteq> None then Some StateRetry
          else if j \<in> set (list_at v (deadKey q)) then Some StateDead
          else None)"

subsection \<open>The invariant\<close>

text \<open>
  \<open>mr\<close> is MaxRetries. The attempts of a job that can still run never exceed it; a dead job has
  at most one more.
\<close>

definition job_wf :: "int \<Rightarrow> rview \<Rightarrow> job_id \<Rightarrow> bool" where
  "job_wf mr v j \<longleftrightarrow>
     hash_at v (jobKey j) = Map.empty \<or>
     (\<exists>p q n i t. hash_at v (jobKey j) = job_hash p q n i t \<and> 0 \<le> n \<and>
        n \<le> max 0 mr + (if j \<in> set (list_at v (deadKey q)) then 1 else 0))"

definition job_inv :: "int \<Rightarrow> rview \<Rightarrow> bool" where
  "job_inv mr v \<longleftrightarrow>
     (\<forall>q j. occ v q j = (if job_queue v j = Some q then 1 else 0)) \<and> (\<forall>j. job_wf mr v j)"

lemma job_invI:
  "(\<And>q j. occ v q j = (if job_queue v j = Some q then 1 else 0)) \<Longrightarrow> (\<And>j. job_wf mr v j) \<Longrightarrow> job_inv mr v"
  by (simp add: job_inv_def)

lemma job_inv_occ: "job_inv mr v \<Longrightarrow> occ v q j = (if job_queue v j = Some q then 1 else 0)"
  by (simp add: job_inv_def)

lemma job_inv_wf: "job_inv mr v \<Longrightarrow> job_wf mr v j"
  by (simp add: job_inv_def)

definition view_empty :: rview where
  "view_empty = \<lparr>list_at = (\<lambda>_. []), zset_at = (\<lambda>_. Map.empty), hash_at = (\<lambda>_. Map.empty),
     string_at = (\<lambda>_. None)\<rparr>"

lemma job_inv_empty: "job_inv mr view_empty"
  by (rule job_invI) (simp_all add: view_empty_def occ_def job_queue_def job_wf_def)

text \<open>What the invariant says about one job of one queue.\<close>

lemma job_queue_live: "job_wf mr v j \<Longrightarrow> job_queue v j = None \<longleftrightarrow> j \<notin> live v"
  by (auto simp: job_wf_def job_queue_def live_def)

lemma occ_pos_cases:
  "0 < occ v q j \<longleftrightarrow> j \<in> set (list_at v (pendingKey q)) \<or> zset_at v (leasedKey q) j \<noteq> None
     \<or> zset_at v (retryKey q) j \<noteq> None \<or> j \<in> set (list_at v (deadKey q))"
  by (auto simp: occ_def count_list_pos_iff)

lemma inv_in_queue:
  assumes "job_inv mr v" and "0 < occ v q j"
  shows "job_queue v j = Some q"
  using job_inv_occ [OF assms(1), of q j] assms(2) by (auto split: if_splits)

lemma inv_hash:
  assumes "job_inv mr v" and "0 < occ v q j"
  obtains p n i t where "hash_at v (jobKey j) = job_hash p q n i t" "0 \<le> n"
    "n \<le> max 0 mr + (if j \<in> set (list_at v (deadKey q)) then 1 else 0)"
proof -
  have "job_queue v j = Some q" using assms by (rule inv_in_queue)
  with job_inv_wf [OF assms(1), of j] that show ?thesis by (auto simp: job_wf_def job_queue_def)
qed

lemma inv_leased_not_dead:
  assumes "job_inv mr v" and "zset_at v (leasedKey q) j \<noteq> None \<or> zset_at v (retryKey q) j \<noteq> None"
  shows "j \<notin> set (list_at v (deadKey q))"
proof -
  have "occ v q j \<le> 1" using job_inv_occ [OF assms(1)] by simp
  with assms(2) have "count_list (list_at v (deadKey q)) j = 0" by (auto simp: occ_def split: if_splits)
  then show ?thesis by (simp add: count_list_0_iff)
qed

lemma inv_lease_hash:
  assumes "job_inv mr v" and "zset_at v (leasedKey q) j \<noteq> None \<or> zset_at v (retryKey q) j \<noteq> None"
  obtains p n i t where "hash_at v (jobKey j) = job_hash p q n i t" "0 \<le> n" "n \<le> max 0 mr"
proof -
  have "0 < occ v q j" using assms(2) by (auto simp: occ_pos_cases)
  with assms(1) obtain p n i t where "hash_at v (jobKey j) = job_hash p q n i t" "0 \<le> n"
    "n \<le> max 0 mr + (if j \<in> set (list_at v (deadKey q)) then 1 else 0)" by (rule inv_hash)
  with inv_leased_not_dead [OF assms] that show ?thesis by simp
qed

lemma inv_fresh:
  assumes "job_inv mr v" and "j \<notin> live v"
  shows "occ v q j = 0"
  using job_inv_occ [OF assms(1), of q j] assms(2)
  by (auto simp: live_def job_queue_def split: if_splits)

subsection \<open>Operations\<close>

definition a_enqueue :: "job_id \<Rightarrow> string \<Rightarrow> queue \<Rightarrow> string \<Rightarrow> string \<Rightarrow> rview \<Rightarrow> rview" where
  "a_enqueue j p q t i v =
     upd_list (pendingKey q) (j # list_at v (pendingKey q)) (upd_hash (jobKey j) (job_hash p q 0 i t) v)"

text \<open>Enqueue with an optional idempotency key: the reply and the next view.\<close>

definition a_enqueue_req ::
  "job_id \<Rightarrow> string \<Rightarrow> queue \<Rightarrow> string \<Rightarrow> string \<Rightarrow> int \<Rightarrow> rview \<Rightarrow> (int \<times> string option) \<times> rview" where
  "a_enqueue_req j p q t i ttl v =
     (if i = '''' then ((1, Some j), a_enqueue j p q t i v)
      else (case string_at v (idemKey i) of
          Some (old, _) \<Rightarrow> ((0, Some old), v)
        | None \<Rightarrow> ((1, Some j), a_enqueue j p q t i (upd_string (idemKey i) (Some (j, Some (1000 * ttl))) v))))"

text \<open>What a claim reports of a job: identifier, payload and attempts.\<close>

definition claim_triple :: "rview \<Rightarrow> job_id \<Rightarrow> string list" where
  "claim_triple v j =
     [j, case hash_at v (jobKey j) ''payload'' of None \<Rightarrow> '''' | Some x \<Rightarrow> x,
      case hash_at v (jobKey j) ''attempts'' of None \<Rightarrow> ''0'' | Some x \<Rightarrow> x]"

definition a_claim :: "nat \<Rightarrow> queue \<Rightarrow> int \<Rightarrow> rview \<Rightarrow> rview" where
  "a_claim n q deadline v =
     (let xs = list_at v (pendingKey q); taken = take n (rev xs)
      in upd_zset (leasedKey q) (\<lambda>j. if j \<in> set taken then Some deadline else zset_at v (leasedKey q) j)
           (upd_list (pendingKey q) (take (length xs - n) xs) v))"

definition a_renew :: "queue \<Rightarrow> job_id \<Rightarrow> int \<Rightarrow> rview \<Rightarrow> rview" where
  "a_renew q j deadline v =
     (if zset_at v (leasedKey q) j = None then v
      else upd_zset (leasedKey q) ((zset_at v (leasedKey q))(j \<mapsto> deadline)) v)"

definition a_ack1 :: "queue \<Rightarrow> job_id \<Rightarrow> rview \<Rightarrow> rview" where
  "a_ack1 q j v =
     (if zset_at v (leasedKey q) j = None then v
      else upd_hash (jobKey j) Map.empty (upd_zset (leasedKey q) ((zset_at v (leasedKey q))(j := None)) v))"

definition a_bump :: "job_id \<Rightarrow> rview \<Rightarrow> rview" where
  "a_bump j v =
     upd_hash (jobKey j) ((hash_at v (jobKey j))(''attempts'' \<mapsto> itoa (job_attempts v j + 1))) v"

definition a_fail :: "int \<Rightarrow> queue \<Rightarrow> job_id \<Rightarrow> int \<Rightarrow> rview \<Rightarrow> rview" where
  "a_fail mr q j nextAt v =
     (if zset_at v (leasedKey q) j = None then v
      else let w = a_bump j (upd_zset (leasedKey q) ((zset_at v (leasedKey q))(j := None)) v)
           in if job_attempts v j + 1 > mr then upd_list (deadKey q) (j # list_at v (deadKey q)) w
              else upd_zset (retryKey q) ((zset_at v (retryKey q))(j \<mapsto> nextAt)) w)"

text \<open>
  One due entry of a drain: from the leased set (the reaper, which counts an attempt) or from the
  retry set (which does not).
\<close>

definition a_reap1 :: "int \<Rightarrow> queue \<Rightarrow> job_id \<Rightarrow> rview \<Rightarrow> rview" where
  "a_reap1 mr q j v =
     (if zset_at v (leasedKey q) j = None then v
      else let w = a_bump j (upd_zset (leasedKey q) ((zset_at v (leasedKey q))(j := None)) v)
           in if job_attempts v j + 1 > mr then upd_list (deadKey q) (j # list_at v (deadKey q)) w
              else upd_list (pendingKey q) (j # list_at v (pendingKey q)) w)"

definition a_retry1 :: "queue \<Rightarrow> job_id \<Rightarrow> rview \<Rightarrow> rview" where
  "a_retry1 q j v =
     (if zset_at v (retryKey q) j = None then v
      else upd_list (pendingKey q) (j # list_at v (pendingKey q))
             (upd_zset (retryKey q) ((zset_at v (retryKey q))(j := None)) v))"

definition reap_due :: "int \<Rightarrow> int \<Rightarrow> queue \<Rightarrow> rview \<Rightarrow> job_id list" where
  "reap_due now n q v = limited n (due_members (zset_at v (leasedKey q)) now)"

definition retry_due :: "int \<Rightarrow> int \<Rightarrow> queue \<Rightarrow> rview \<Rightarrow> job_id list" where
  "retry_due now n q v = limited n (due_members (zset_at v (retryKey q)) now)"

definition a_reap :: "int \<Rightarrow> int \<Rightarrow> int \<Rightarrow> queue \<Rightarrow> rview \<Rightarrow> rview" where
  "a_reap mr now n q v = fold (a_reap1 mr q) (reap_due now n q v) v"

definition a_retry :: "int \<Rightarrow> int \<Rightarrow> queue \<Rightarrow> rview \<Rightarrow> rview" where
  "a_retry now n q v = fold (a_retry1 q) (retry_due now n q v) v"

text \<open>
  One quad of the schedule script; \<open>nows\<close> is the current time as Redis prints it. The second
  function is the schedule and queue it reports when it fires.
\<close>

definition a_fire1 :: "string \<Rightarrow> int \<Rightarrow> string \<times> job_id \<times> string \<times> int \<Rightarrow> rview \<Rightarrow> rview" where
  "a_fire1 nows now = (\<lambda>(sid, j, p, next) v.
     (case (zset_at v schedulesKey sid, hash_at v (scheduleKey sid) ''queue'') of
        (Some score, Some q) \<Rightarrow>
          if score \<le> now
          then upd_zset schedulesKey ((zset_at v schedulesKey)(sid \<mapsto> next))
                 (upd_hash (scheduleKey sid) ((hash_at v (scheduleKey sid))(''last_run'' \<mapsto> nows))
                    (a_enqueue j p q nows '''' v))
          else v
      | _ \<Rightarrow> v))"

definition a_fired1 :: "int \<Rightarrow> string \<times> job_id \<times> string \<times> int \<Rightarrow> rview \<Rightarrow> string list" where
  "a_fired1 now = (\<lambda>(sid, j, p, next) v.
     (case (zset_at v schedulesKey sid, hash_at v (scheduleKey sid) ''queue'') of
        (Some score, Some q) \<Rightarrow> if score \<le> now then [sid, q] else []
      | _ \<Rightarrow> []))"

fun a_fire :: "string \<Rightarrow> int \<Rightarrow> (string \<times> job_id \<times> string \<times> int) list \<Rightarrow> rview \<Rightarrow> string list \<times> rview" where
  "a_fire nows now [] v = ([], v)"
| "a_fire nows now (x # xs) v =
     (case a_fire nows now xs (a_fire1 nows now x v) of (fired, w) \<Rightarrow> (a_fired1 now x v @ fired, w))"

end
