(* ===== verification/Job_Inv.thy ===== *)
theory Job_Inv
  imports Job_Spec
begin

section \<open>Every abstract operation keeps the invariant\<close>

text \<open>
  One preservation lemma per operation, each from how the operation changes the occurrence counts,
  and one lemma on how it changes the state of each job.
\<close>

lemma job_queue_upd [cogs_simps]:
  "job_queue (upd_list k xs v) j = job_queue v j"
  "job_queue (upd_zset k z v) j = job_queue v j"
  "job_queue (upd_string k s v) j = job_queue v j"
  "job_queue (upd_hash (jobKey i) h v) j = (if j = i then h ''queue'' else job_queue v j)"
  "job_queue (upd_hash (scheduleKey sid) h v) j = job_queue v j"
  by (simp_all add: job_queue_def)

lemma job_attempts_upd [cogs_simps]:
  "job_attempts (upd_list k xs v) j = job_attempts v j"
  "job_attempts (upd_zset k z v) j = job_attempts v j"
  by (simp_all add: job_attempts_def)

lemma job_attempts_hash:
  "hash_at v (jobKey j) = job_hash p q n i t \<Longrightarrow> - (2 ^ 63) \<le> n \<Longrightarrow> n < 2 ^ 63 \<Longrightarrow> job_attempts v j = n"
  by (simp add: job_attempts_def parse_int_itoa)

lemma live_upd [cogs_simps]:
  "live (upd_list k xs v) = live v" "live (upd_zset k z v) = live v" "live (upd_string k s v) = live v"
  "live (upd_hash (jobKey j) h v) = (if h = Map.empty then live v - {j} else insert j (live v))"
  "live (upd_hash (scheduleKey sid) h v) = live v"
  by (auto simp: live_def)

subsection \<open>Well-formed hashes\<close>

lemma job_wfI:
  "hash_at v (jobKey j) = job_hash p q n i t \<Longrightarrow> 0 \<le> n \<Longrightarrow>
   n \<le> max 0 mr + (if j \<in> set (list_at v (deadKey q)) then 1 else 0) \<Longrightarrow> job_wf mr v j"
  unfolding job_wf_def by blast

lemma job_wf_cong:
  assumes "job_wf mr v j" and "hash_at w (jobKey j) = hash_at v (jobKey j)"
    and "\<And>q. job_queue v j = Some q \<Longrightarrow> j \<in> set (list_at v (deadKey q)) \<Longrightarrow> j \<in> set (list_at w (deadKey q))"
  shows "job_wf mr w j"
proof (cases "hash_at v (jobKey j) = Map.empty")
  case True
  then show ?thesis using assms(2) by (simp add: job_wf_def)
next
  case False
  with assms(1) obtain p q n i t where h: "hash_at v (jobKey j) = job_hash p q n i t" "0 \<le> n"
    "n \<le> max 0 mr + (if j \<in> set (list_at v (deadKey q)) then 1 else 0)"
    by (auto simp: job_wf_def)
  then have "job_queue v j = Some q" by (simp add: job_queue_def)
  with h(3) assms(3) [of q] have "n \<le> max 0 mr + (if j \<in> set (list_at w (deadKey q)) then 1 else 0)"
    by (auto split: if_splits)
  then show ?thesis by (rule job_wfI [OF trans [OF assms(2) h(1)] h(2)])
qed

lemma not_live_queue: "j \<notin> live v \<Longrightarrow> job_queue v j = None"
  by (simp add: live_def job_queue_def)

subsection \<open>Enqueue\<close>

lemma occ_enqueue [occ_simps]:
  "occ (a_enqueue j p q t i v) q' j' = occ v q' j' + (if q' = q \<and> j' = j then 1 else 0)"
  by (simp add: a_enqueue_def occ_def)

lemma inv_enqueue:
  assumes "job_inv mr v" and "j \<notin> live v"
  shows "job_inv mr (a_enqueue j p q t i v)"
proof (rule job_invI)
  fix q' j'
  show "occ (a_enqueue j p q t i v) q' j' = (if job_queue (a_enqueue j p q t i v) j' = Some q' then 1 else 0)"
    using not_live_queue [OF assms(2)] job_inv_occ [OF assms(1), of q' j']
    by (simp add: occ_simps) (simp add: a_enqueue_def cogs_simps)
next
  fix j'
  show "job_wf mr (a_enqueue j p q t i v) j'"
  proof (cases "j' = j")
    case True
    then show ?thesis by (auto simp: a_enqueue_def job_wf_def intro!: exI)
  next
    case False
    then show ?thesis
      by (intro job_wf_cong [OF job_inv_wf [OF assms(1), of j']]) (simp_all add: a_enqueue_def)
  qed
qed

subsection \<open>Claim\<close>

lemma take_length_minus: "take (length xs - n) xs = rev (drop n (rev xs))"
  by (simp add: rev_drop)

lemma count_list_taken: "count_list (take (length xs - n) xs) x + count_list (take n (rev xs)) x = count_list xs x"
proof -
  have "count_list (rev xs) x = count_list (take n (rev xs) @ drop n (rev xs)) x" by simp
  then show ?thesis by (simp add: take_length_minus del: append_take_drop_id)
qed

lemma inv_pending_count:
  assumes "job_inv mr v" and "j \<in> set (list_at v (pendingKey q))"
  shows "count_list (list_at v (pendingKey q)) j = 1" and "zset_at v (leasedKey q) j = None"
    and "zset_at v (retryKey q) j = None" and "job_queue v j = Some q"
proof -
  have pos: "0 < count_list (list_at v (pendingKey q)) j" using assms(2) by (simp add: count_list_pos_iff)
  have "0 < occ v q j" using assms(2) by (auto simp: occ_pos_cases)
  then show "job_queue v j = Some q" using assms(1) by (blast intro: inv_in_queue)
  then have "occ v q j = 1" using job_inv_occ [OF assms(1), of q j] by simp
  with pos show "count_list (list_at v (pendingKey q)) j = 1" "zset_at v (leasedKey q) j = None"
    "zset_at v (retryKey q) j = None"
    by (auto simp: occ_def split: if_splits)
qed

lemma inv_pending_distinct: "job_inv mr v \<Longrightarrow> distinct (list_at v (pendingKey q))"
proof (rule count_list_le_Suc0_distinct)
  fix j assume "job_inv mr v"
  then have "occ v q j \<le> 1" by (simp add: job_inv_occ)
  then show "count_list (list_at v (pendingKey q)) j \<le> Suc 0" by (simp add: occ_def)
qed

lemma occ_claim:
  assumes "job_inv mr v"
  shows "occ (a_claim n q dl v) q' j = occ v q' j"
proof (cases "q' = q \<and> j \<in> set (take n (rev (list_at v (pendingKey q))))")
  case True
  let ?xs = "list_at v (pendingKey q)"
  from True have mem: "j \<in> set ?xs" by (auto dest: in_set_takeD)
  have "0 < count_list (take n (rev ?xs)) j" using True by (simp add: count_list_pos_iff)
  then have "count_list (take (length ?xs - n) ?xs) j = 0" "count_list ?xs j = 1"
    using inv_pending_count(1) [OF assms mem] count_list_taken [of ?xs n j] by simp_all
  then show ?thesis using True inv_pending_count(2) [OF assms mem]
    by (simp add: a_claim_def occ_def Let_def)
next
  case False
  then show ?thesis
    using count_list_taken [of "list_at v (pendingKey q)" n j]
    by (auto simp: a_claim_def occ_def Let_def count_list_0_iff)
qed

lemma inv_claim:
  assumes "job_inv mr v"
  shows "job_inv mr (a_claim n q dl v)"
proof (rule job_invI)
  fix q' j
  show "occ (a_claim n q dl v) q' j = (if job_queue (a_claim n q dl v) j = Some q' then 1 else 0)"
    using job_inv_occ [OF assms, of q' j]
    by (simp add: occ_claim [OF assms]) (simp add: a_claim_def cogs_simps Let_def)
next
  fix j
  show "job_wf mr (a_claim n q dl v) j"
    by (intro job_wf_cong [OF job_inv_wf [OF assms]]) (simp_all add: a_claim_def Let_def)
qed

subsection \<open>Renew\<close>

lemma occ_renew [occ_simps]: "occ (a_renew q j dl v) q' j' = occ v q' j'"
  by (auto simp: a_renew_def occ_def)

lemma inv_renew:
  assumes "job_inv mr v"
  shows "job_inv mr (a_renew q j dl v)"
proof (rule job_invI)
  fix q' j'
  show "occ (a_renew q j dl v) q' j' = (if job_queue (a_renew q j dl v) j' = Some q' then 1 else 0)"
    using job_inv_occ [OF assms, of q' j'] by (simp add: occ_simps) (simp add: a_renew_def cogs_simps)
next
  fix j'
  show "job_wf mr (a_renew q j dl v) j'"
    by (intro job_wf_cong [OF job_inv_wf [OF assms]]) (simp_all add: a_renew_def)
qed

subsection \<open>Ack\<close>

lemma inv_ack1:
  assumes "job_inv mr v"
  shows "job_inv mr (a_ack1 q j v)"
proof (cases "zset_at v (leasedKey q) j = None")
  case True
  then show ?thesis using assms by (simp add: a_ack1_def)
next
  case False
  then obtain dl where dl: "zset_at v (leasedKey q) j = Some dl" by blast
  then have "0 < occ v q j" by (auto simp: occ_pos_cases)
  then have jq: "job_queue v j = Some q" using assms by (blast intro: inv_in_queue)
  show ?thesis
  proof (rule job_invI)
    fix q' j'
    have "occ (a_ack1 q j v) q' j' = occ v q' j' - (if q' = q \<and> j' = j then 1 else 0)"
      using False by (auto simp: a_ack1_def occ_def)
    then show "occ (a_ack1 q j v) q' j' = (if job_queue (a_ack1 q j v) j' = Some q' then 1 else 0)"
      using job_inv_occ [OF assms, of q' j'] False jq by (auto simp: a_ack1_def cogs_simps)
  next
    fix j'
    show "job_wf mr (a_ack1 q j v) j'"
    proof (cases "j' = j")
      case True
      then show ?thesis using dl by (simp add: a_ack1_def job_wf_def)
    next
      case neq: False
      then show ?thesis
        by (intro job_wf_cong [OF job_inv_wf [OF assms]]) (simp_all add: a_ack1_def)
    qed
  qed
qed

lemma inv_acks: "job_inv mr v \<Longrightarrow> job_inv mr (fold (a_ack1 q) js v)"
  by (induction js arbitrary: v) (auto intro: inv_ack1)

subsection \<open>Fail and reap\<close>

text \<open>
  A failed or reaped job has its attempts counted and moves from the leased set to a place that
  depends on the limit. Both operations are one move with a different destination.
\<close>

lemma bump_hash:
  assumes "hash_at v (jobKey j) = job_hash p q n i t" "0 \<le> n" "n < 2 ^ 63"
  shows "hash_at (a_bump j v) (jobKey j) = job_hash p q (n + 1) i t"
  using assms by (simp add: a_bump_def job_attempts_hash)

lemma a_bump_other [cogs_simps]:
  "list_at (a_bump j v) = list_at v" "zset_at (a_bump j v) = zset_at v"
  "string_at (a_bump j v) = string_at v"
  "j' \<noteq> j \<Longrightarrow> hash_at (a_bump j v) (jobKey j') = hash_at v (jobKey j')"
  "hash_at (a_bump j v) (scheduleKey sid) = hash_at v (scheduleKey sid)"
  "job_queue (a_bump j v) j' = job_queue v j'"
  "live (a_bump j v) = insert j (live v)"
  by (auto simp: a_bump_def job_queue_def live_def)

definition dead_dest :: "int \<Rightarrow> rview \<Rightarrow> job_id \<Rightarrow> bool" where
  "dead_dest mr v j \<longleftrightarrow> job_attempts v j + 1 > mr"

definition fail_reply :: "int \<Rightarrow> queue \<Rightarrow> job_id \<Rightarrow> rview \<Rightarrow> int" where
  "fail_reply mr q j v =
     (if zset_at v (leasedKey q) j = None then - 1 else if dead_dest mr v j then 2 else 1)"

lemma inv_bumped_move:
  assumes inv: "job_inv mr v" and mr: "mr < 2 ^ 63 - 1"
    and leased: "zset_at v (leasedKey q) j \<noteq> None"
    and hash: "\<And>j'. hash_at w (jobKey j') = hash_at (a_bump j v) (jobKey j')"
    and occ: "\<And>q' j'. occ w q' j' = occ v q' j'"
    and dead: "\<And>q'. set (list_at w (deadKey q'))
      = set (list_at v (deadKey q')) \<union> (if q' = q \<and> dead_dest mr v j then {j} else {})"
  shows "job_inv mr w"
proof (rule job_invI)
  fix q' j'
  have "job_queue w j' = job_queue (a_bump j v) j'" by (simp add: job_queue_def hash)
  then have "job_queue w j' = job_queue v j'" by (simp add: cogs_simps)
  then show "occ w q' j' = (if job_queue w j' = Some q' then 1 else 0)"
    using job_inv_occ [OF inv, of q' j'] occ by simp
next
  fix j'
  show "job_wf mr w j'"
  proof (cases "j' = j")
    case True
    have "zset_at v (leasedKey q) j \<noteq> None \<or> zset_at v (retryKey q) j \<noteq> None" using leased by simp
    with inv obtain p q0 n i t where h: "hash_at v (jobKey j) = job_hash p q0 n i t" "0 \<le> n" "n \<le> max 0 mr"
      by (rule inv_lease_hash)
    have "job_queue v j = Some q" using inv leased by (intro inv_in_queue) (auto simp: occ_pos_cases)
    with h have [simp]: "q0 = q" by (simp add: job_queue_def)
    have "n < 2 ^ 63" using h mr by simp
    with h have "hash_at w (jobKey j) = job_hash p q (n + 1) i t" and "job_attempts v j = n"
      by (simp_all add: hash bump_hash job_attempts_hash)
    moreover have "n + 1 \<le> max 0 mr + (if j \<in> set (list_at w (deadKey q)) then 1 else 0)"
      using h(3) calculation(2) by (auto simp: dead dead_dest_def)
    ultimately show ?thesis using True h(2) by (auto intro: job_wfI)
  next
    case False
    then show ?thesis
      by (intro job_wf_cong [OF job_inv_wf [OF inv, of j']]) (simp_all add: hash cogs_simps dead)
  qed
qed

lemma inv_leased_occ:
  assumes "job_inv mr v" and "zset_at v (leasedKey q) j \<noteq> None"
  shows "j \<notin> set (list_at v (pendingKey q))" "zset_at v (retryKey q) j = None"
    "j \<notin> set (list_at v (deadKey q))" "job_queue v j = Some q"
proof -
  have "0 < occ v q j" using assms(2) by (auto simp: occ_pos_cases)
  then show "job_queue v j = Some q" using assms(1) by (blast intro: inv_in_queue)
  then have "occ v q j = 1" using job_inv_occ [OF assms(1), of q j] by simp
  with assms(2) show "j \<notin> set (list_at v (pendingKey q))" "zset_at v (retryKey q) j = None"
    "j \<notin> set (list_at v (deadKey q))"
    by (auto simp: occ_def count_list_0_iff split: if_splits)
qed

lemma inv_fail:
  assumes inv: "job_inv mr v" and mr: "mr < 2 ^ 63 - 1"
  shows "job_inv mr (a_fail mr q j nextAt v)"
proof (cases "zset_at v (leasedKey q) j = None")
  case True
  then show ?thesis using inv by (simp add: a_fail_def)
next
  case False
  then obtain dl where dl: "zset_at v (leasedKey q) j = Some dl" by blast
  note place = inv_leased_occ [OF inv False]
  show ?thesis
  proof (rule inv_bumped_move [OF inv mr False])
    fix j'
    show "hash_at (a_fail mr q j nextAt v) (jobKey j') = hash_at (a_bump j v) (jobKey j')"
      using dl by (simp add: a_fail_def a_bump_def cogs_simps Let_def)
  next
    fix q' j'
    show "occ (a_fail mr q j nextAt v) q' j' = occ v q' j'"
      using dl place by (auto simp: a_fail_def occ_def cogs_simps Let_def)
  next
    fix q'
    show "set (list_at (a_fail mr q j nextAt v) (deadKey q'))
      = set (list_at v (deadKey q')) \<union> (if q' = q \<and> dead_dest mr v j then {j} else {})"
      using dl by (auto simp: a_fail_def dead_dest_def cogs_simps Let_def)
  qed
qed

lemma inv_reap1:
  assumes inv: "job_inv mr v" and mr: "mr < 2 ^ 63 - 1"
  shows "job_inv mr (a_reap1 mr q j v)"
proof (cases "zset_at v (leasedKey q) j = None")
  case True
  then show ?thesis using inv by (simp add: a_reap1_def)
next
  case False
  then obtain dl where dl: "zset_at v (leasedKey q) j = Some dl" by blast
  note place = inv_leased_occ [OF inv False]
  show ?thesis
  proof (rule inv_bumped_move [OF inv mr False])
    fix j'
    show "hash_at (a_reap1 mr q j v) (jobKey j') = hash_at (a_bump j v) (jobKey j')"
      using dl by (simp add: a_reap1_def a_bump_def cogs_simps Let_def)
  next
    fix q' j'
    show "occ (a_reap1 mr q j v) q' j' = occ v q' j'"
      using dl place by (auto simp: a_reap1_def occ_def cogs_simps Let_def)
  next
    fix q'
    show "set (list_at (a_reap1 mr q j v) (deadKey q'))
      = set (list_at v (deadKey q')) \<union> (if q' = q \<and> dead_dest mr v j then {j} else {})"
      using dl by (auto simp: a_reap1_def dead_dest_def cogs_simps Let_def)
  qed
qed

lemma dead_dest_reap1:
  assumes "j' \<noteq> j"
  shows "dead_dest mr (a_reap1 mr q j v) j' \<longleftrightarrow> dead_dest mr v j'"
  using assms by (simp add: dead_dest_def a_reap1_def Let_def job_attempts_def cogs_simps)

lemma leased_reap1:
  "j' \<noteq> j \<Longrightarrow> zset_at (a_reap1 mr q j v) (leasedKey q) j' = zset_at v (leasedKey q) j'"
  by (simp add: a_reap1_def Let_def cogs_simps)

subsection \<open>Retry\<close>

lemma occ_retry1 [occ_simps]: "occ (a_retry1 q j v) q' j' = occ v q' j'"
  by (auto simp: a_retry1_def occ_def)

lemma inv_retry1:
  assumes "job_inv mr v"
  shows "job_inv mr (a_retry1 q j v)"
proof (rule job_invI)
  fix q' j'
  show "occ (a_retry1 q j v) q' j' = (if job_queue (a_retry1 q j v) j' = Some q' then 1 else 0)"
    using job_inv_occ [OF assms, of q' j'] by (simp add: occ_simps) (simp add: a_retry1_def cogs_simps)
next
  fix j'
  show "job_wf mr (a_retry1 q j v) j'"
    by (intro job_wf_cong [OF job_inv_wf [OF assms]]) (simp_all add: a_retry1_def)
qed

subsection \<open>Whole drain passes\<close>

lemma reap_due_distinct: "distinct (reap_due now n q v)"
  by (simp add: reap_due_def limited_distinct due_members_distinct)

lemma retry_due_distinct: "distinct (retry_due now n q v)"
  by (simp add: retry_due_def limited_distinct due_members_distinct)

lemma reap_due_leased:
  assumes "finite (dom (zset_at v (leasedKey q)))" and "j \<in> set (reap_due now n q v)"
  shows "\<exists>s. zset_at v (leasedKey q) j = Some s \<and> s \<le> now"
  using assms(2) set_limited_subset [of n "due_members (zset_at v (leasedKey q)) now"]
  by (auto simp: reap_due_def set_due_members [OF assms(1)])

lemma retry_due_waiting:
  assumes "finite (dom (zset_at v (retryKey q)))" and "j \<in> set (retry_due now n q v)"
  shows "\<exists>s. zset_at v (retryKey q) j = Some s \<and> s \<le> now"
  using assms(2) set_limited_subset [of n "due_members (zset_at v (retryKey q)) now"]
  by (auto simp: retry_due_def set_due_members [OF assms(1)])

lemma inv_reaps: "job_inv mr v \<Longrightarrow> mr < 2 ^ 63 - 1 \<Longrightarrow> job_inv mr (fold (a_reap1 mr q) js v)"
  by (induction js arbitrary: v) (simp_all add: inv_reap1)

lemma inv_retries: "job_inv mr v \<Longrightarrow> job_inv mr (fold (a_retry1 q) js v)"
  by (induction js arbitrary: v) (auto intro: inv_retry1)

lemma inv_reap: "job_inv mr v \<Longrightarrow> mr < 2 ^ 63 - 1 \<Longrightarrow> job_inv mr (a_reap mr now n q v)"
  by (simp add: a_reap_def inv_reaps)

lemma inv_retry: "job_inv mr v \<Longrightarrow> job_inv mr (a_retry now n q v)"
  by (simp add: a_retry_def inv_retries)

subsection \<open>Steps that touch no job\<close>

lemma occ_other:
  "occ (upd_string k s v) q j = occ v q j" "occ (upd_hash k h v) q j = occ v q j"
  "occ (upd_zset schedulesKey z v) q j = occ v q j"
  by (simp_all add: occ_def)

lemma inv_same_jobs:
  assumes "job_inv mr v" and "\<And>q j. occ w q j = occ v q j"
    and "\<And>j. hash_at w (jobKey j) = hash_at v (jobKey j)"
    and "\<And>q. list_at w (deadKey q) = list_at v (deadKey q)"
  shows "job_inv mr w"
proof (rule job_invI)
  fix q j
  show "occ w q j = (if job_queue w j = Some q then 1 else 0)"
    using job_inv_occ [OF assms(1), of q j] assms(2,3) by (simp add: job_queue_def)
next
  fix j
  show "job_wf mr w j"
    by (rule job_wf_cong [OF job_inv_wf [OF assms(1)]]) (simp_all add: assms(3,4))
qed

lemma inv_string: "job_inv mr v \<Longrightarrow> job_inv mr (upd_string k s v)"
  by (erule inv_same_jobs) (simp_all add: occ_other)

lemma inv_strings: "job_inv mr v \<Longrightarrow> job_inv mr (v\<lparr>string_at := f\<rparr>)"
  by (erule inv_same_jobs) (simp_all add: occ_def)

lemma inv_schedule_hash: "job_inv mr v \<Longrightarrow> job_inv mr (upd_hash (scheduleKey sid) h v)"
  by (erule inv_same_jobs) (simp_all add: occ_other)

lemma inv_schedules: "job_inv mr v \<Longrightarrow> job_inv mr (upd_zset schedulesKey z v)"
  by (erule inv_same_jobs) (simp_all add: occ_other)

lemma inv_enqueue_req:
  assumes "job_inv mr v" and "j \<notin> live v"
  shows "job_inv mr (snd (a_enqueue_req j p q t i ttl v))"
  using assms
  by (auto simp: a_enqueue_req_def cogs_simps split: option.splits intro!: inv_enqueue inv_string)

lemma inv_fire1:
  assumes "job_inv mr v" and "j \<notin> live v"
  shows "job_inv mr (a_fire1 nows now (sid, j, p, next) v)"
  using assms
  by (auto simp: a_fire1_def split: option.splits intro!: inv_schedules inv_schedule_hash inv_enqueue)

lemma live_fire1: "live (a_fire1 nows now (sid, j, p, next) v) \<subseteq> insert j (live v)"
  by (auto simp: a_fire1_def a_enqueue_def cogs_simps split: option.splits if_splits)

lemma inv_fire:
  assumes "job_inv mr v" and "distinct (map (fst \<circ> snd) xs)" and "(fst \<circ> snd) ` set xs \<inter> live v = {}"
  shows "job_inv mr (snd (a_fire nows now xs v))"
  using assms
proof (induction xs arbitrary: v)
  case Nil
  then show ?case by simp
next
  case (Cons x xs)
  obtain sid j p nx where x: "x = (sid, j, p, nx)" by (cases x)
  have "job_inv mr (a_fire1 nows now x v)" using Cons.prems by (simp add: x inv_fire1)
  moreover have "(fst \<circ> snd) ` set xs \<inter> live (a_fire1 nows now x v) = {}"
    using Cons.prems(2,3) live_fire1 [of nows now sid j p nx v] by (auto simp: x)
  ultimately show ?case using Cons.IH Cons.prems(2) by (simp add: split_beta)
qed

end
