(* ===== verification/Script_Refine.thy ===== *)
theory Script_Refine
  imports Lua_Scripts Job_Inv
begin

section \<open>The scripts compute the abstract operations\<close>

text \<open>
  Over any Redis that satisfies the laws, each script's effect on the view and its reply are those
  of the abstract operation. The lemmas are proved inside the interface \<open>redis_db\<close>; the drain and
  fail scripts also need the invariant, because HINCRBY reads the attempts field as a number.
\<close>

context redis_db
begin

subsection \<open>Enqueue\<close>

lemma enqueue_hset_view:
  assumes "jid \<notin> live (view R d)"
  shows "view R (r_hset R (jobKey jid)
      [(''payload'', p), (''queue'', q), (''attempts'', r_lua_number R 0),
       (''idempotency_key'', i), (''created_at'', t)] d)
    = upd_hash (jobKey jid) (job_hash p q 0 i t) (view R d)"
proof -
  have "hash_at (view R d) (jobKey jid) = Map.empty" using assms by (simp add: live_def)
  then show ?thesis
    by (simp add: hset_view lua_number_zero) (simp add: job_hash_def fun_upd_twist)
qed

lemma enqueueScript_plain:
  assumes "jid \<notin> live (view R d)" and "idem = ''''"
  shows "\<exists>d'. enqueueScript R (jobKey jid) (pendingKey q) idemK jid p q t idem ttl d = (Inr (1, Some jid), d')
    \<and> view R d' = a_enqueue jid p q t idem (view R d)"
  using assms(2) by (simp add: enqueueScript_def lpush_view enqueue_hset_view [OF assms(1)] a_enqueue_def)

lemma enqueueScript_keyed:
  assumes "jid \<notin> live (view R d)" and "idem \<noteq> ''''" and "0 < ttl"
    and "string_at (view R d) (idemKey idem) = None"
  shows "\<exists>d'. enqueueScript R (jobKey jid) (pendingKey q) (idemKey idem) jid p q t idem ttl d
      = (Inr (1, Some jid), d')
    \<and> view R d' = a_enqueue jid p q t idem (upd_string (idemKey idem) (Some (jid, Some (1000 * ttl))) (view R d))"
proof -
  obtain r d1 where s: "r_set_nx_ex R (idemKey idem) jid ttl d = (r, d1)" by fastforce
  then have r: "r = Inr True"
    and v1: "view R d1 = upd_string (idemKey idem) (Some (jid, Some (1000 * ttl))) (view R d)"
    using set_nx_ex_reply [of "idemKey idem" ttl jid d] set_nx_ex_view [of "idemKey idem" ttl jid d] assms(3,4)
    by simp_all
  have "jid \<notin> live (view R d1)" using assms(1) by (simp add: v1 cogs_simps)
  then show ?thesis using assms(2)
    by (simp add: enqueueScript_def s r lpush_view enqueue_hset_view a_enqueue_def v1)
qed

lemma enqueueScript_hit:
  assumes "idem \<noteq> ''''" and "0 < ttl" and "string_at (view R d) (idemKey idem) = Some (old, x)"
  shows "\<exists>d'. enqueueScript R jobK pendK (idemKey idem) jid p q t idem ttl d = (Inr (0, Some old), d')
    \<and> view R d' = view R d"
proof -
  obtain r d1 where s: "r_set_nx_ex R (idemKey idem) jid ttl d = (r, d1)" by fastforce
  then have r: "r = Inr False" and v1: "view R d1 = view R d"
    using set_nx_ex_reply [of "idemKey idem" ttl jid d] set_nx_ex_view [of "idemKey idem" ttl jid d] assms(2,3)
    by simp_all
  then show ?thesis using assms by (simp add: enqueueScript_def s r view_reads v1)
qed

lemma enqueueScript_refines:
  assumes "jid \<notin> live (view R d)" and "idem = '''' \<or> 0 < ttl"
  shows "\<exists>d'. enqueueScript R (jobKey jid) (pendingKey q) (idemKey idem) jid p q t idem ttl d
      = (Inr (fst (a_enqueue_req jid p q t idem ttl (view R d))), d')
    \<and> view R d' = snd (a_enqueue_req jid p q t idem ttl (view R d))"
proof (cases "idem = ''''")
  case True
  then show ?thesis using enqueueScript_plain [OF assms(1)] by (simp add: a_enqueue_req_def)
next
  case False
  then have ttl: "0 < ttl" using assms(2) by simp
  show ?thesis
  proof (cases "string_at (view R d) (idemKey idem)")
    case None
    then show ?thesis using enqueueScript_keyed [OF assms(1) False ttl None] False
      by (simp add: a_enqueue_req_def)
  next
    case (Some s)
    then obtain old x where "string_at (view R d) (idemKey idem) = Some (old, x)" by (cases s) simp
    then show ?thesis using enqueueScript_hit [OF False ttl] False by (simp add: a_enqueue_req_def)
  qed
qed

lemma enqueueScript_bad_ttl:
  assumes "idem \<noteq> ''''" and "ttl \<le> 0"
  shows "\<exists>e d'. enqueueScript R jobK pendK idemK jid p q t idem ttl d = (Inl e, d') \<and> view R d' = view R d"
proof -
  obtain r d1 where s: "r_set_nx_ex R idemK jid ttl d = (r, d1)" by fastforce
  then obtain e where "r = Inl e" "view R d1 = view R d"
    using set_nx_ex_refused [OF assms(2), of idemK jid d] by auto
  then show ?thesis using assms(1) by (simp add: enqueueScript_def s)
qed

subsection \<open>Claim\<close>

lemma rpop_None:
  assumes "r_rpop R (pendingKey q) d = (None, d1)"
  shows "list_at (view R d) (pendingKey q) = []" and "view R d1 = view R d"
proof -
  show e: "list_at (view R d) (pendingKey q) = []"
    using rpop_reply [of "pendingKey q" d] assms by (simp split: if_splits)
  show "view R d1 = view R d"
    using rpop_view [of "pendingKey q" d] assms e upd_same(1) [of "pendingKey q" "view R d"] by simp
qed

lemma rpop_Some:
  assumes "r_rpop R (pendingKey q) d = (Some jid, d1)"
  shows "list_at (view R d) (pendingKey q) \<noteq> []" and "jid = last (list_at (view R d) (pendingKey q))"
    and "view R d1 = upd_list (pendingKey q) (butlast (list_at (view R d) (pendingKey q))) (view R d)"
  using rpop_reply [of "pendingKey q" d] rpop_view [of "pendingKey q" d] assms
  by (simp_all split: if_splits)

lemma a_claim_0: "a_claim 0 q dl v = v"
  using upd_same(2) [of "leasedKey q" "upd_list (pendingKey q) (list_at v (pendingKey q)) v"]
  by (simp add: a_claim_def Let_def)

lemma a_claim_Nil: "list_at v (pendingKey q) = [] \<Longrightarrow> a_claim n q dl v = v"
  by (intro view_eqI) (simp_all add: a_claim_def Let_def fun_eq_iff)

lemma a_claim_Suc:
  assumes "list_at v (pendingKey q) \<noteq> []"
  shows "a_claim (Suc n) q dl v =
    a_claim n q dl (upd_zset (leasedKey q) ((zset_at v (leasedKey q))(last (list_at v (pendingKey q)) \<mapsto> dl))
      (upd_list (pendingKey q) (butlast (list_at v (pendingKey q))) v))"
proof -
  let ?xs = "list_at v (pendingKey q)"
  have "take (Suc n) (rev ?xs) = last ?xs # take n (rev (butlast ?xs))"
    using assms by (simp add: butlast_take_rev)
  moreover have "take (length ?xs - Suc n) ?xs = take (length (butlast ?xs) - n) (butlast ?xs)"
    by (simp add: butlast_conv_take)
  ultimately show ?thesis
    by (intro view_eqI) (auto simp: a_claim_def Let_def fun_eq_iff)
qed

lemma claim_loop_refines:
  "claim_loop R (pendingKey q) (leasedKey q) dl n out d = (out', d') \<Longrightarrow>
   out' = out @ concat (map (claim_triple (view R d)) (take n (rev (list_at (view R d) (pendingKey q)))))
   \<and> view R d' = a_claim n q dl (view R d)"
proof (induction n arbitrary: out d)
  case 0
  then show ?case by (simp add: a_claim_0)
next
  case (Suc n)
  let ?v = "view R d"
  obtain p d1 where rp: "r_rpop R (pendingKey q) d = (p, d1)" by fastforce
  show ?case
  proof (cases p)
    case None
    then show ?thesis using Suc.prems rp rpop_None [of q d d1] by (simp add: a_claim_Nil)
  next
    case (Some jid)
    note popped = rpop_Some [OF rp [unfolded Some]]
    let ?d2 = "r_zadd R (leasedKey q) dl jid d1"
    have v2: "view R ?d2 = upd_zset (leasedKey q) ((zset_at ?v (leasedKey q))(jid \<mapsto> dl))
        (upd_list (pendingKey q) (butlast (list_at ?v (pendingKey q))) ?v)"
      by (simp add: zadd_view popped(3))
    then have h2: "hash_at (view R ?d2) = hash_at ?v" by simp
    then have tr: "claim_triple (view R ?d2) = claim_triple ?v" by (simp add: fun_eq_iff claim_triple_def)
    have "claim_loop R (pendingKey q) (leasedKey q) dl n (out @ claim_triple ?v jid) ?d2 = (out', d')"
      using Suc.prems rp Some by (simp add: claim_triple_def view_reads Let_def reply_or_def h2)
    from Suc.IH [OF this, unfolded tr] show ?thesis
      using popped(1) by (simp add: a_claim_Suc butlast_take_rev popped(2) v2 [unfolded popped(2)])
  qed
qed

lemma claimScript_refines:
  "\<exists>d'. claimScript R (pendingKey q) (leasedKey q) n dl d
      = (Inr (concat (map (claim_triple (view R d)) (take (nat n) (rev (list_at (view R d) (pendingKey q)))))), d')
    \<and> view R d' = a_claim (nat n) q dl (view R d)"
proof -
  obtain out d' where "claim_loop R (pendingKey q) (leasedKey q) dl (nat n) [] d = (out, d')" by fastforce
  with claim_loop_refines [OF this] show ?thesis by (simp add: claimScript_def)
qed

subsection \<open>Renew and ack\<close>

lemma renewScript_refines:
  "\<exists>d'. renewScript R (leasedKey q) jid dl d
      = (Inr (if zset_at (view R d) (leasedKey q) jid = None then 0 else 1), d')
    \<and> view R d' = a_renew q jid dl (view R d)"
  by (simp add: renewScript_def view_reads a_renew_def zadd_view)

lemma zrem_step:
  assumes "key_kind k = KZSet" and "r_zrem R k jid d = (r, d1)"
  shows "r = (if zset_at (view R d) k jid = None then 0 else 1)"
    and "view R d1 = upd_zset k ((zset_at (view R d) k)(jid := None)) (view R d)"
  using zrem_reply [OF assms(1), of jid d] zrem_view [OF assms(1), of jid d] assms(2) by simp_all

lemma zrem_absent:
  assumes "key_kind k = KZSet" and "r_zrem R k jid d = (r, d1)" and "zset_at (view R d) k jid = None"
  shows "r = 0" and "view R d1 = view R d"
  using zrem_step [OF assms(1,2)] assms(3) upd_same(2) [of k "view R d"] by (simp_all add: fun_upd_idem)

lemma ack_loop_refines:
  "ack_loop R (leasedKey q) js n d = (n', d') \<Longrightarrow>
   n' = n + int (card {j \<in> set js. zset_at (view R d) (leasedKey q) j \<noteq> None})
   \<and> view R d' = fold (a_ack1 q) js (view R d)"
proof (induction js arbitrary: n d)
  case Nil
  then show ?case by simp
next
  case (Cons j js)
  let ?v = "view R d"
  obtain r d1 where z: "r_zrem R (leasedKey q) j d = (r, d1)" by fastforce
  show ?case
  proof (cases "zset_at ?v (leasedKey q) j")
    case None
    then have "r = 0" "view R d1 = ?v" using zrem_absent [OF _ z] by simp_all
    moreover have "{x \<in> set (j # js). zset_at ?v (leasedKey q) x \<noteq> None}
        = {x \<in> set js. zset_at ?v (leasedKey q) x \<noteq> None}" using None by auto
    ultimately show ?thesis using Cons.IH [of n d1] Cons.prems z None by (simp add: a_ack1_def)
  next
    case (Some s)
    let ?d2 = "snd (r_del R (jobKey j) d1)"
    have r: "r = 1" using zrem_step [OF _ z] Some by simp
    have v2: "view R ?d2 = a_ack1 q j ?v" using zrem_step [OF _ z] Some by (simp add: del_hash_view a_ack1_def)
    have "ack_loop R (leasedKey q) js (n + 1) ?d2 = (n', d')" using Cons.prems z r by simp
    from Cons.IH [OF this] have n': "n' = n + 1 + int (card {x \<in> set js. zset_at (view R ?d2) (leasedKey q) x \<noteq> None})"
      and v': "view R d' = fold (a_ack1 q) js (view R ?d2)" by simp_all
    have "{x \<in> set (j # js). zset_at ?v (leasedKey q) x \<noteq> None}
        = insert j {x \<in> set js. zset_at (view R ?d2) (leasedKey q) x \<noteq> None}"
      using Some by (auto simp: v2 a_ack1_def)
    moreover have "j \<notin> {x \<in> set js. zset_at (view R ?d2) (leasedKey q) x \<noteq> None}"
      using Some by (simp add: v2 a_ack1_def)
    ultimately have "card {x \<in> set (j # js). zset_at ?v (leasedKey q) x \<noteq> None}
        = Suc (card {x \<in> set js. zset_at (view R ?d2) (leasedKey q) x \<noteq> None})" by simp
    with n' v' show ?thesis by (simp add: v2)
  qed
qed

lemma ackScript_refines:
  "\<exists>d'. ackScript R (leasedKey q) js d
      = (Inr (int (card {j \<in> set js. zset_at (view R d) (leasedKey q) j \<noteq> None})), d')
    \<and> view R d' = fold (a_ack1 q) js (view R d)"
proof -
  obtain n d' where "ack_loop R (leasedKey q) js 0 d = (n, d')" by fastforce
  with ack_loop_refines [OF this] show ?thesis by (simp add: ackScript_def)
qed

subsection \<open>Fail and drain\<close>

lemma hincrby_bump:
  assumes "hash_at (view R d) (jobKey j) = job_hash p q n i t" and "0 \<le> n" and "n < 2 ^ 63 - 1"
    and "r_hincrby R (jobKey j) ''attempts'' 1 d = (r, d2)"
  shows "r = Inr (job_attempts (view R d) j + 1)" and "view R d2 = a_bump j (view R d)"
proof -
  have f: "hash_at (view R d) (jobKey j) ''attempts'' = Some (itoa n)" using assms(1) by simp
  have n: "job_attempts (view R d) j = n" using assms(1-3) by (simp add: job_attempts_hash)
  show "r = Inr (job_attempts (view R d) j + 1)"
    using hincrby_reply [OF _ f, of 1] assms(2-4) by (simp add: n)
  show "view R d2 = a_bump j (view R d)"
    using hincrby_view [OF _ f, of 1] assms(2-4) by (simp add: n a_bump_def)
qed

text \<open>Taking a leased job out of the leased set and counting an attempt, as two scripts begin.\<close>

lemma zrem_hincrby:
  assumes inv: "job_inv mr (view R d)" and mr: "mr < 2 ^ 63 - 1"
    and leased: "zset_at (view R d) (leasedKey q) j = Some s"
    and z: "r_zrem R (leasedKey q) j d = (r, d1)"
    and h: "r_hincrby R (jobKey j) ''attempts'' 1 d1 = (a, d2)"
  shows "r = 1" and "a = Inr (job_attempts (view R d) j + 1)"
    and "view R d2 = a_bump j (upd_zset (leasedKey q) ((zset_at (view R d) (leasedKey q))(j := None)) (view R d))"
proof -
  note removed = zrem_step [OF _ z, simplified]
  show "r = 1" using removed(1) leased by simp
  have "zset_at (view R d) (leasedKey q) j \<noteq> None \<or> zset_at (view R d) (retryKey q) j \<noteq> None"
    using leased by simp
  with inv obtain p q0 n i t where "hash_at (view R d) (jobKey j) = job_hash p q0 n i t" "0 \<le> n" "n \<le> max 0 mr"
    by (rule inv_lease_hash)
  then have "hash_at (view R d1) (jobKey j) = job_hash p q0 n i t" "0 \<le> n" "n < 2 ^ 63 - 1"
    using mr by (simp_all add: removed(2))
  note bumped = hincrby_bump [OF this h]
  show "a = Inr (job_attempts (view R d) j + 1)" using bumped(1) by (simp add: removed(2) cogs_simps)
  show "view R d2 = a_bump j (upd_zset (leasedKey q) ((zset_at (view R d) (leasedKey q))(j := None)) (view R d))"
    using bumped(2) by (simp add: removed(2))
qed

lemma failScript_refines:
  assumes "job_inv mr (view R d)" and "mr < 2 ^ 63 - 1"
  shows "\<exists>d'. failScript R (leasedKey q) (retryKey q) (deadKey q) j nextAt mr d
      = (Inr (fail_reply mr q j (view R d)), d')
    \<and> view R d' = a_fail mr q j nextAt (view R d)"
proof -
  obtain r d1 where z: "r_zrem R (leasedKey q) j d = (r, d1)" by fastforce
  obtain a d2 where h: "r_hincrby R (jobKey j) ''attempts'' 1 d1 = (a, d2)" by fastforce
  show ?thesis
  proof (cases "zset_at (view R d) (leasedKey q) j")
    case None
    then show ?thesis using zrem_absent [OF _ z]
      by (simp add: failScript_def z fail_reply_def a_fail_def)
  next
    case (Some s)
    note step = zrem_hincrby [OF assms Some z h]
    show ?thesis
      by (simp add: failScript_def z h step Some fail_reply_def dead_dest_def a_fail_def Let_def
          lpush_view zadd_view cogs_simps)
  qed
qed

lemma reap_loop_refines:
  assumes "job_inv mr (view R d)" and "mr < 2 ^ 63 - 1" and "distinct due"
    and "\<forall>j \<in> set due. zset_at (view R d) (leasedKey q) j \<noteq> None"
  shows "\<exists>d'. drain_loop R (leasedKey q) (pendingKey q) (deadKey q) 1 mr due rq dd d
      = (Inr (rq @ filter (\<lambda>j. \<not> dead_dest mr (view R d) j) due, dd @ filter (dead_dest mr (view R d)) due), d')
    \<and> view R d' = fold (a_reap1 mr q) due (view R d)"
  using assms
proof (induction due arbitrary: rq dd d)
  case Nil
  then show ?case by simp
next
  case (Cons j due)
  let ?v = "view R d"
  obtain r d1 where z: "r_zrem R (leasedKey q) j d = (r, d1)" by fastforce
  obtain a d2 where h: "r_hincrby R (jobKey j) ''attempts'' 1 d1 = (a, d2)" by fastforce
  obtain s where s: "zset_at ?v (leasedKey q) j = Some s" using Cons.prems(4) by auto
  note step = zrem_hincrby [OF Cons.prems(1,2) s z h]
  define d3 where "d3 = (if dead_dest mr ?v j then r_lpush R (deadKey q) j d2 else r_lpush R (pendingKey q) j d2)"
  have v3: "view R d3 = a_reap1 mr q j ?v"
    using s by (simp add: d3_def a_reap1_def dead_dest_def lpush_view step(3) cogs_simps Let_def)
  have inv3: "job_inv mr (view R d3)" using Cons.prems(1,2) by (simp add: v3 inv_reap1)
  have leased3: "\<forall>j' \<in> set due. zset_at (view R d3) (leasedKey q) j' \<noteq> None"
  proof
    fix j' assume "j' \<in> set due"
    with Cons.prems(3,4) have "j' \<noteq> j" and "zset_at ?v (leasedKey q) j' \<noteq> None" by auto
    then show "zset_at (view R d3) (leasedKey q) j' \<noteq> None" by (simp add: v3 leased_reap1)
  qed
  have same: "\<forall>j' \<in> set due. dead_dest mr (view R d3) j' \<longleftrightarrow> dead_dest mr ?v j'"
  proof
    fix j' assume "j' \<in> set due"
    with Cons.prems(3) have "j' \<noteq> j" by auto
    then show "dead_dest mr (view R d3) j' \<longleftrightarrow> dead_dest mr ?v j'" by (simp add: v3 dead_dest_reap1)
  qed
  have filters: "filter (\<lambda>j. \<not> dead_dest mr (view R d3) j) due = filter (\<lambda>j. \<not> dead_dest mr ?v j) due"
    "filter (dead_dest mr (view R d3)) due = filter (dead_dest mr ?v) due"
    using same by (auto cong: filter_cong)
  have IH: "\<exists>d'. drain_loop R (leasedKey q) (pendingKey q) (deadKey q) 1 mr due rq' dd' d3
      = (Inr (rq' @ filter (\<lambda>j. \<not> dead_dest mr ?v j) due, dd' @ filter (dead_dest mr ?v) due), d')
    \<and> view R d' = fold (a_reap1 mr q) due (view R d3)" for rq' dd'
    using Cons.IH [OF inv3 Cons.prems(2) _ leased3, of rq' dd'] Cons.prems(3) unfolding filters by simp
  have loop: "drain_loop R (leasedKey q) (pendingKey q) (deadKey q) 1 mr (j # due) rq dd d
      = (if dead_dest mr ?v j
         then drain_loop R (leasedKey q) (pendingKey q) (deadKey q) 1 mr due rq (dd @ [j]) d3
         else drain_loop R (leasedKey q) (pendingKey q) (deadKey q) 1 mr due (rq @ [j]) dd d3)"
    by (simp add: z h step(1,2) d3_def dead_dest_def)
  show ?case unfolding loop using IH [of rq "dd @ [j]"] IH [of "rq @ [j]" dd] by (simp add: v3)
qed

lemma retry_loop_refines:
  assumes "distinct due" and "\<forall>j \<in> set due. zset_at (view R d) (retryKey q) j \<noteq> None"
  shows "\<exists>d'. drain_loop R (retryKey q) (pendingKey q) (deadKey q) 0 mr due rq dd d = (Inr (rq @ due, dd), d')
    \<and> view R d' = fold (a_retry1 q) due (view R d)"
  using assms
proof (induction due arbitrary: rq d)
  case Nil
  then show ?case by simp
next
  case (Cons j due)
  let ?v = "view R d"
  obtain r d1 where z: "r_zrem R (retryKey q) j d = (r, d1)" by fastforce
  obtain s where s: "zset_at ?v (retryKey q) j = Some s" using Cons.prems(2) by auto
  note removed = zrem_step [OF _ z, simplified]
  define d3 where "d3 = r_lpush R (pendingKey q) j d1"
  have v3: "view R d3 = a_retry1 q j ?v" using s by (simp add: d3_def a_retry1_def lpush_view removed(2))
  have "\<forall>j' \<in> set due. zset_at (view R d3) (retryKey q) j' \<noteq> None"
    using Cons.prems by (auto simp: v3 a_retry1_def)
  moreover have "r = 1" using removed(1) s by simp
  ultimately show ?case using Cons.IH [of d3 "rq @ [j]"] Cons.prems(1)
    by (simp add: z v3 flip: d3_def)
qed

lemma reap_refines:
  assumes "job_inv mr (view R d)" and "mr < 2 ^ 63 - 1" and "n \<noteq> 0"
  shows "\<exists>d'. drainScript R (leasedKey q) (pendingKey q) (deadKey q) now n 1 mr d
      = (Inr (filter (\<lambda>j. \<not> dead_dest mr (view R d) j) (reap_due now n q (view R d)),
              filter (dead_dest mr (view R d)) (reap_due now n q (view R d))), d')
    \<and> view R d' = a_reap mr now n q (view R d)"
proof -
  have "\<forall>j \<in> set (reap_due now n q (view R d)). zset_at (view R d) (leasedKey q) j \<noteq> None"
    using reap_due_leased [OF zset_finite] by fastforce
  from reap_loop_refines [OF assms(1,2) reap_due_distinct this, of "[]" "[]"]
  show ?thesis using assms(3) by (simp add: drainScript_def zrangebyscore a_reap_def flip: reap_due_def)
qed

lemma retry_refines:
  assumes "n \<noteq> 0"
  shows "\<exists>d'. drainScript R (retryKey q) (pendingKey q) (deadKey q) now n 0 mr d
      = (Inr (retry_due now n q (view R d), []), d')
    \<and> view R d' = a_retry now n q (view R d)"
proof -
  have "\<forall>j \<in> set (retry_due now n q (view R d)). zset_at (view R d) (retryKey q) j \<noteq> None"
    using retry_due_waiting [OF zset_finite] by fastforce
  from retry_loop_refines [OF retry_due_distinct this, of mr "[]" "[]"]
  show ?thesis using assms by (simp add: drainScript_def zrangebyscore a_retry_def flip: retry_due_def)
qed

subsection \<open>The schedule script\<close>

lemma fire_loop_refines:
  assumes "distinct (map (fst \<circ> snd) xs)" and "(fst \<circ> snd) ` set xs \<inter> live (view R d) = {}"
  shows "\<exists>d'. fire_loop R schedulesKey now xs fired d
      = (fired @ fst (a_fire (r_lua_number R now) now xs (view R d)), d')
    \<and> view R d' = snd (a_fire (r_lua_number R now) now xs (view R d))"
  using assms
proof (induction xs arbitrary: fired d)
  case Nil
  then show ?case by simp
next
  case (Cons x xs)
  let ?v = "view R d" and ?nows = "r_lua_number R now"
  obtain sid j p nx where x: "x = (sid, j, p, nx)" by (cases x)
  have fresh: "j \<notin> live ?v" using Cons.prems(2) by (simp add: x)
  have "(fst \<circ> snd) ` set xs \<inter> live (a_fire1 ?nows now x ?v) = {}"
    using Cons.prems live_fire1 [of ?nows now sid j p nx ?v] by (auto simp: x)
  then have later: "\<exists>d'. fire_loop R schedulesKey now xs fired' d0
      = (fired' @ fst (a_fire ?nows now xs (a_fire1 ?nows now x ?v)), d')
    \<and> view R d' = snd (a_fire ?nows now xs (a_fire1 ?nows now x ?v))"
    if "view R d0 = a_fire1 ?nows now x ?v" for fired' d0
    using Cons.IH [of d0 fired'] Cons.prems(1) that by simp
  show ?case
  proof (cases "\<exists>score q. zset_at ?v schedulesKey sid = Some score \<and> score \<le> now
      \<and> hash_at ?v (scheduleKey sid) ''queue'' = Some q")
    case True
    then obtain score q where due: "zset_at ?v schedulesKey sid = Some score" "score \<le> now"
      "hash_at ?v (scheduleKey sid) ''queue'' = Some q" by blast
    let ?d1 = "r_hset R (jobKey j) [(''payload'', p), (''queue'', q), (''attempts'', r_lua_number R 0),
        (''idempotency_key'', ''''), (''created_at'', ?nows)] d"
    let ?d4 = "r_zadd R schedulesKey nx sid
        (r_hset R (scheduleKey sid) [(''last_run'', ?nows)] (r_lpush R (pendingKey q) j ?d1))"
    have "view R ?d4 = a_fire1 ?nows now x ?v"
      using due by (simp add: x a_fire1_def a_enqueue_def zadd_view hset_view lpush_view
          enqueue_hset_view [OF fresh])
    from later [OF this, of "fired @ [sid, q]"] show ?thesis
      using due by (simp add: x view_reads Let_def a_fired1_def split_beta)
  next
    case False
    then have "a_fire1 ?nows now x ?v = ?v" "a_fired1 now x ?v = []"
      by (auto simp: x a_fire1_def a_fired1_def split: option.splits)
    moreover have "fire_loop R schedulesKey now (x # xs) fired d = fire_loop R schedulesKey now xs fired d"
      using False by (auto simp: x view_reads split: option.splits)
    ultimately show ?thesis using later [of d fired] by (simp add: split_beta)
  qed
qed

lemma scheduleDrain_refines:
  assumes "distinct (map (fst \<circ> snd) xs)" and "(fst \<circ> snd) ` set xs \<inter> live (view R d) = {}"
  shows "\<exists>d'. scheduleDrainScript R schedulesKey now xs d
      = (Inr (fst (a_fire (r_lua_number R now) now xs (view R d))), d')
    \<and> view R d' = snd (a_fire (r_lua_number R now) now xs (view R d))"
  using fire_loop_refines [OF assms, of now "[]"] by (auto simp: scheduleDrainScript_def)

end

end
