(* ===== verification/Job_Lifecycle.thy ===== *)
theory Job_Lifecycle
  imports Job_Inv
begin

section \<open>The life of a job: states, transitions, immutable fields, deliveries\<close>

text \<open>
  \<open>lifecycle\<close> is the state diagram of README.md and docs/DESIGN.md; \<open>None\<close> is a job that does
  not exist (not enqueued yet, or acknowledged). For each abstract operation a lemma says how it
  changes the state of every job.
\<close>

inductive lifecycle :: "job_state option \<Rightarrow> job_state option \<Rightarrow> bool" where
  lc_enqueue: "lifecycle None (Some StatePending)"
| lc_claim: "lifecycle (Some StatePending) (Some StateLeased)"
| lc_ack: "lifecycle (Some StateLeased) None"
| lc_retry: "lifecycle (Some StateLeased) (Some StateRetry)"
| lc_expire: "lifecycle (Some StateLeased) (Some StatePending)"
| lc_dead: "lifecycle (Some StateLeased) (Some StateDead)"
| lc_due: "lifecycle (Some StateRetry) (Some StatePending)"

code_pred lifecycle .

inductive_cases lifecycle_from_dead: "lifecycle (Some StateDead) s"
inductive_cases lifecycle_to_leased: "lifecycle s (Some StateLeased)"
inductive_cases lifecycle_to_none: "lifecycle s None"

abbreviation lifecycle_eq :: "job_state option \<Rightarrow> job_state option \<Rightarrow> bool" where
  "lifecycle_eq s t \<equiv> s = t \<or> lifecycle s t"

lemma lifecycle_eqI: "(s \<noteq> t \<Longrightarrow> lifecycle s t) \<Longrightarrow> lifecycle_eq s t"
  by blast

subsection \<open>The state of a job in each structure\<close>

lemma job_state_pending: "job_inv mr v \<Longrightarrow> j \<in> set (list_at v (pendingKey q)) \<Longrightarrow> job_state v j = Some StatePending"
  using inv_pending_count(4) [of mr v j q] by (simp add: job_state_def)

lemma job_state_leased:
  "job_inv mr v \<Longrightarrow> zset_at v (leasedKey q) j = Some s \<Longrightarrow> job_state v j = Some StateLeased"
  using inv_leased_occ [of mr v q j] by (simp add: job_state_def)

lemma inv_retry_occ:
  assumes "job_inv mr v" and "zset_at v (retryKey q) j = Some s"
  shows "j \<notin> set (list_at v (pendingKey q))" "zset_at v (leasedKey q) j = None"
    "j \<notin> set (list_at v (deadKey q))" "job_queue v j = Some q"
proof -
  have "0 < occ v q j" using assms(2) by (auto simp: occ_pos_cases)
  then show "job_queue v j = Some q" using assms(1) by (blast intro: inv_in_queue)
  then have "occ v q j = 1" using job_inv_occ [OF assms(1), of q j] by simp
  with assms(2) show "j \<notin> set (list_at v (pendingKey q))" "zset_at v (leasedKey q) j = None"
    "j \<notin> set (list_at v (deadKey q))"
    by (auto simp: occ_def count_list_0_iff split: if_splits)
qed

lemma job_state_retry:
  "job_inv mr v \<Longrightarrow> zset_at v (retryKey q) j = Some s \<Longrightarrow> job_state v j = Some StateRetry"
  using inv_retry_occ [of mr v q j] by (simp add: job_state_def)

lemma job_state_cong:
  assumes "job_queue w j = job_queue v j"
    and "\<And>q. job_queue v j = Some q \<Longrightarrow> (j \<in> set (list_at w (pendingKey q)) \<longleftrightarrow> j \<in> set (list_at v (pendingKey q)))
      \<and> (zset_at w (leasedKey q) j = None \<longleftrightarrow> zset_at v (leasedKey q) j = None)
      \<and> (zset_at w (retryKey q) j = None \<longleftrightarrow> zset_at v (retryKey q) j = None)
      \<and> (j \<in> set (list_at w (deadKey q)) \<longleftrightarrow> j \<in> set (list_at v (deadKey q)))"
  shows "job_state w j = job_state v j"
  using assms by (auto simp: job_state_def split: option.splits)

subsection \<open>How each operation changes the states\<close>

lemma state_enqueue:
  assumes "j \<notin> live v"
  shows "job_state (a_enqueue j p q t i v) j' = (if j' = j then Some StatePending else job_state v j')"
proof (cases "j' = j")
  case True
  then show ?thesis by (simp add: job_state_def a_enqueue_def cogs_simps)
next
  case False
  then show ?thesis by (simp, intro job_state_cong) (simp_all add: a_enqueue_def cogs_simps)
qed

lemma state_claim:
  assumes "job_inv mr v"
  shows "job_state (a_claim n q dl v) j =
    (if j \<in> set (take n (rev (list_at v (pendingKey q)))) then Some StateLeased else job_state v j)"
proof (cases "j \<in> set (take n (rev (list_at v (pendingKey q))))")
  case True
  then have "zset_at (a_claim n q dl v) (leasedKey q) j = Some dl"
    by (simp add: a_claim_def Let_def)
  then show ?thesis using True job_state_leased [OF inv_claim [OF assms]] by auto
next
  case False
  let ?xs = "list_at v (pendingKey q)"
  have "count_list (take (length ?xs - n) ?xs) j = count_list ?xs j"
    using False count_list_taken [of ?xs n j] by (simp add: count_list_0_iff [THEN iffD2])
  then have "j \<in> set (take (length ?xs - n) ?xs) \<longleftrightarrow> j \<in> set ?xs"
    by (simp flip: count_list_pos_iff)
  with False show ?thesis
    by (simp, intro job_state_cong) (simp_all add: a_claim_def cogs_simps Let_def)
qed

lemma taken_pending:
  assumes "job_inv mr v" and "j \<in> set (take n (rev (list_at v (pendingKey q))))"
  shows "job_state v j = Some StatePending"
  using assms by (intro job_state_pending [of mr v j q]) (auto dest: in_set_takeD)

lemma state_renew: "job_state (a_renew q j dl v) j' = job_state v j'"
  by (intro job_state_cong) (simp_all add: a_renew_def cogs_simps)

lemma state_ack1:
  assumes "job_inv mr v"
  shows "job_state (a_ack1 q j v) j' =
    (if j' = j \<and> zset_at v (leasedKey q) j \<noteq> None then None else job_state v j')"
proof (cases "j' = j \<and> zset_at v (leasedKey q) j \<noteq> None")
  case True
  then obtain s where "zset_at v (leasedKey q) j = Some s" by blast
  then show ?thesis using True by (simp add: a_ack1_def job_state_def cogs_simps)
next
  case False
  then have "job_state (a_ack1 q j v) j' = job_state v j'"
    by (intro job_state_cong) (auto simp: a_ack1_def cogs_simps)
  then show ?thesis by (simp only: False if_False)
qed

lemma state_fail:
  assumes "job_inv mr v" and "mr < 2 ^ 63 - 1"
  shows "job_state (a_fail mr q j nextAt v) j' =
    (if j' = j \<and> zset_at v (leasedKey q) j \<noteq> None
     then (if dead_dest mr v j then Some StateDead else Some StateRetry) else job_state v j')"
proof (cases "j' = j \<and> zset_at v (leasedKey q) j \<noteq> None")
  case True
  then obtain s where s: "zset_at v (leasedKey q) j = Some s" by blast
  then have "j \<notin> set (list_at v (pendingKey q))" "zset_at v (retryKey q) j = None" "job_queue v j = Some q"
    using inv_leased_occ [OF assms(1)] by simp_all
  then show ?thesis using True s
    by (simp add: a_fail_def dead_dest_def job_state_def cogs_simps Let_def)
next
  case False
  then have "job_state (a_fail mr q j nextAt v) j' = job_state v j'"
    by (intro job_state_cong) (auto simp: a_fail_def cogs_simps Let_def)
  then show ?thesis by (simp only: False if_False)
qed

lemma state_reap1:
  assumes "job_inv mr v"
  shows "job_state (a_reap1 mr q j v) j' =
    (if j' = j \<and> zset_at v (leasedKey q) j \<noteq> None
     then (if dead_dest mr v j then Some StateDead else Some StatePending) else job_state v j')"
proof (cases "j' = j \<and> zset_at v (leasedKey q) j \<noteq> None")
  case True
  then obtain s where s: "zset_at v (leasedKey q) j = Some s" by blast
  then have "j \<notin> set (list_at v (pendingKey q))" "zset_at v (retryKey q) j = None" "job_queue v j = Some q"
    using inv_leased_occ [OF assms] by simp_all
  then show ?thesis using True s
    by (simp add: a_reap1_def dead_dest_def job_state_def cogs_simps Let_def)
next
  case False
  then have "job_state (a_reap1 mr q j v) j' = job_state v j'"
    by (intro job_state_cong) (auto simp: a_reap1_def cogs_simps Let_def)
  then show ?thesis by (simp only: False if_False)
qed

lemma state_retry1:
  assumes "job_inv mr v"
  shows "job_state (a_retry1 q j v) j' =
    (if j' = j \<and> zset_at v (retryKey q) j \<noteq> None then Some StatePending else job_state v j')"
proof (cases "j' = j \<and> zset_at v (retryKey q) j \<noteq> None")
  case True
  then obtain s where s: "zset_at v (retryKey q) j = Some s" by blast
  then have "job_queue v j = Some q" using inv_retry_occ [OF assms] by simp
  then show ?thesis using True s by (simp add: a_retry1_def job_state_def cogs_simps)
next
  case False
  then have "job_state (a_retry1 q j v) j' = job_state v j'"
    by (intro job_state_cong) (auto simp: a_retry1_def cogs_simps)
  then show ?thesis by (simp only: False if_False)
qed

lemma state_other:
  "job_state (upd_string k s v) j = job_state v j"
  "job_state (upd_hash (scheduleKey sid) h v) j = job_state v j"
  "job_state (upd_zset schedulesKey z v) j = job_state v j"
  "job_state (v\<lparr>string_at := f\<rparr>) j = job_state v j"
  by (intro job_state_cong; simp add: cogs_simps job_queue_def)+

lemma state_fire1:
  assumes "j \<notin> live v"
  shows "lifecycle_eq (job_state v j') (job_state (a_fire1 nows now (sid, j, p, nx) v) j')"
    and "j' \<noteq> j \<Longrightarrow> job_state (a_fire1 nows now (sid, j, p, nx) v) j' = job_state v j'"
  using not_live_queue [OF assms]
  by (auto simp: a_fire1_def state_other state_enqueue [OF assms] job_state_def [of v j]
      intro: lifecycle.intros split: option.splits)

subsection \<open>Multi-job operations move each job at most once\<close>

lemma state_acks_eq:
  assumes "job_inv mr v"
  shows "job_state (fold (a_ack1 q) js v) j =
    (if j \<in> set js \<and> zset_at v (leasedKey q) j \<noteq> None then None else job_state v j)"
  using assms
proof (induction js arbitrary: v)
  case Nil
  then show ?case by simp
next
  case (Cons a js)
  note one = state_ack1 [OF Cons.prems, of q a j]
  note IH = Cons.IH [OF inv_ack1 [OF Cons.prems], of q a]
  have lease: "zset_at (a_ack1 q a v) (leasedKey q) j = (if j = a then None else zset_at v (leasedKey q) j)"
    by (auto simp: a_ack1_def)
  show ?case
  proof (cases "j = a")
    case True
    then show ?thesis using IH one lease by (simp del: not_None_eq)
  next
    case False
    then show ?thesis using IH one lease by (simp del: not_None_eq)
  qed
qed

lemma state_acks:
  assumes "job_inv mr v"
  shows "lifecycle_eq (job_state v j) (job_state (fold (a_ack1 q) js v) j)"
  using job_state_leased [OF assms, of q j] by (auto simp: state_acks_eq [OF assms] intro: lifecycle.intros)

lemma state_reaps:
  assumes "job_inv mr v" and "mr < 2 ^ 63 - 1" and "distinct js"
  shows "job_state (fold (a_reap1 mr q) js v) j =
    (if j \<in> set js \<and> zset_at v (leasedKey q) j \<noteq> None
     then (if dead_dest mr v j then Some StateDead else Some StatePending) else job_state v j)"
  using assms
proof (induction js arbitrary: v)
  case Nil
  then show ?case by simp
next
  case (Cons a js)
  note one = state_reap1 [OF Cons.prems(1), of q a j]
  note IH = Cons.IH [OF inv_reap1 [OF Cons.prems(1,2)] Cons.prems(2)]
  show ?case
  proof (cases "j = a")
    case True
    then show ?thesis using IH [of q a] one Cons.prems(3) by simp
  next
    case False
    have "zset_at (a_reap1 mr q a v) (leasedKey q) j = zset_at v (leasedKey q) j"
      "dead_dest mr (a_reap1 mr q a v) j \<longleftrightarrow> dead_dest mr v j"
      using False by (simp_all add: a_reap1_def dead_dest_def job_attempts_def Let_def cogs_simps)
    then show ?thesis using IH [of q a] one Cons.prems(3) False by (simp del: not_None_eq)
  qed
qed

lemma state_retries:
  assumes "job_inv mr v" and "distinct js"
  shows "job_state (fold (a_retry1 q) js v) j =
    (if j \<in> set js \<and> zset_at v (retryKey q) j \<noteq> None then Some StatePending else job_state v j)"
  using assms
proof (induction js arbitrary: v)
  case Nil
  then show ?case by simp
next
  case (Cons a js)
  have "zset_at (a_retry1 q a v) (retryKey q) j = (if j = a then None else zset_at v (retryKey q) j)"
    by (simp add: a_retry1_def)
  then show ?case
    using Cons.IH [OF inv_retry1 [OF Cons.prems(1)], of q a] state_retry1 [OF Cons.prems(1), of q a j] Cons.prems(2)
    by auto
qed

lemma state_fire:
  assumes "job_inv mr v" and "distinct (map (fst \<circ> snd) xs)" and "(fst \<circ> snd) ` set xs \<inter> live v = {}"
  shows "lifecycle_eq (job_state v j) (job_state (snd (a_fire nows now xs v)) j)
    \<and> (j \<notin> (fst \<circ> snd) ` set xs \<longrightarrow> job_state (snd (a_fire nows now xs v)) j = job_state v j)"
  using assms
proof (induction xs arbitrary: v)
  case Nil
  then show ?case by simp
next
  case (Cons x xs)
  obtain sid b p nx where x: "x = (sid, b, p, nx)" by (cases x)
  have fresh: "b \<notin> live v" using Cons.prems(3) by (simp add: x)
  have "(fst \<circ> snd) ` set xs \<inter> live (a_fire1 nows now x v) = {}"
    using Cons.prems(2,3) live_fire1 [of nows now sid b p nx v] by (auto simp: x)
  then have IH: "lifecycle_eq (job_state (a_fire1 nows now x v) j) (job_state (snd (a_fire nows now xs (a_fire1 nows now x v))) j)
    \<and> (j \<notin> (fst \<circ> snd) ` set xs \<longrightarrow>
        job_state (snd (a_fire nows now xs (a_fire1 nows now x v))) j = job_state (a_fire1 nows now x v) j)"
    using Cons.IH [of "a_fire1 nows now x v"] Cons.prems inv_fire1 [OF Cons.prems(1) fresh] by (simp add: x)
  show ?case
  proof (cases "j = b")
    case True
    then have "j \<notin> (fst \<circ> snd) ` set xs" using Cons.prems(2) by (auto simp: x)
    then show ?thesis using IH state_fire1(1) [OF fresh, of j] True by (simp add: x split_beta)
  next
    case False
    then show ?thesis using IH state_fire1(2) [OF fresh False] by (simp add: x split_beta)
  qed
qed

end
