(* ===== verification/Job_Steps.thy ===== *)
theory Job_Steps
  imports Script_Refine Job_Lifecycle
begin

section \<open>Every write of the program as a step, and the abstract system it refines\<close>

text \<open>
  \<open>op\<close> lists the writes any replica, worker or background loop can make the database do, each
  one atomic: the Lua scripts, the schedule transactions, the leader lock's commands and time
  passing. \<open>exec_op\<close> runs one on a database; a history of the whole system, with any number of
  concurrent processes, is a sequence of them. \<open>a_op\<close> is its effect on the view. The guard
  \<open>op_ok\<close> says what the callers provide: a new job's identifier is not that of a live job
  (128 random bits), a fired batch has distinct ones, and time does not run backwards.
\<close>

datatype op =
    OpEnqueue job_id string queue string string int
  | OpClaim queue int int
  | OpRenew queue job_id int
  | OpAck queue "job_id list"
  | OpFail queue job_id int
  | OpReap queue int
  | OpRetry queue int
  | OpFire int "quad list"
  | OpCreateSchedule string queue string string string int
  | OpDeleteSchedule string
  | OpDropSchedule string
  | OpAcquireLock string
  | OpRenewLock string
  | OpReleaseLock string
  | OpElapse int

definition schedule_fields :: "queue \<Rightarrow> string \<Rightarrow> string \<Rightarrow> string \<Rightarrow> (string \<times> string) list" where
  "schedule_fields q spec payload created =
     [(''queue'', q), (''cron'', spec), (''payload'', payload), (''created_at'', created)]"

lemma schedule_fields_distinct [simp]: "distinct (map fst (schedule_fields q spec payload created))"
  by (simp add: schedule_fields_def)

fun exec_op :: "'db redis \<Rightarrow> config \<Rightarrow> op \<Rightarrow> 'db \<Rightarrow> 'db" where
  "exec_op R c (OpEnqueue j p q t i ttl) d =
     snd (enqueueScript R (jobKey j) (pendingKey q) (idemKey i) j p q t i ttl d)"
| "exec_op R c (OpClaim q n dl) d = snd (claimScript R (pendingKey q) (leasedKey q) n dl d)"
| "exec_op R c (OpRenew q j dl) d = snd (renewScript R (leasedKey q) j dl d)"
| "exec_op R c (OpAck q js) d = snd (ackScript R (leasedKey q) js d)"
| "exec_op R c (OpFail q j nextAt) d =
     snd (failScript R (leasedKey q) (retryKey q) (deadKey q) j nextAt (MaxRetries c) d)"
| "exec_op R c (OpReap q now) d =
     snd (drainScript R (leasedKey q) (pendingKey q) (deadKey q) now (DrainLimit c) 1 (MaxRetries c) d)"
| "exec_op R c (OpRetry q now) d =
     snd (drainScript R (retryKey q) (pendingKey q) (deadKey q) now (DrainLimit c) 0 (MaxRetries c) d)"
| "exec_op R c (OpFire now xs) d = snd (scheduleDrainScript R schedulesKey now xs d)"
| "exec_op R c (OpCreateSchedule sid q spec p t nxt) d =
     r_zadd R schedulesKey nxt sid (r_hset R (scheduleKey sid) (schedule_fields q spec p t) d)"
| "exec_op R c (OpDeleteSchedule sid) d = snd (r_del R (scheduleKey sid) (snd (r_zrem R schedulesKey sid d)))"
| "exec_op R c (OpDropSchedule sid) d = snd (r_zrem R schedulesKey sid d)"
| "exec_op R c (OpAcquireLock x) d = snd (r_setargs_nx R leaderKey x (LeaderLockTTL c) d)"
| "exec_op R c (OpRenewLock x) d = snd (renewLockScript R leaderKey x (milliseconds (LeaderLockTTL c)) d)"
| "exec_op R c (OpReleaseLock x) d = snd (releaseLockScript R leaderKey x d)"
| "exec_op R c (OpElapse t) d = r_elapse R t d"

definition ids_of_quads :: "quad list \<Rightarrow> job_id set" where
  "ids_of_quads xs = (fst \<circ> snd) ` set xs"

fun op_ok :: "op \<Rightarrow> rview \<Rightarrow> bool" where
  "op_ok (OpEnqueue j p q t i ttl) v \<longleftrightarrow> j \<notin> live v"
| "op_ok (OpFire now xs) v \<longleftrightarrow> distinct (map (fst \<circ> snd) xs) \<and> ids_of_quads xs \<inter> live v = {}"
| "op_ok (OpElapse t) v \<longleftrightarrow> 0 \<le> t"
| "op_ok _ v \<longleftrightarrow> True"

text \<open>The settings under which every step is defined by the laws.\<close>

definition config_ok :: "config \<Rightarrow> bool" where
  "config_ok c \<longleftrightarrow> limits_ok c \<and> Millisecond \<le> LeaderLockTTL c"

lemma config_ok_limits: "config_ok c \<Longrightarrow> DrainLimit c \<noteq> 0 \<and> MaxRetries c < 2 ^ 63 - 1"
  by (simp add: config_ok_def limits_ok_def)

subsection \<open>The effect of a step on the view\<close>

definition a_acquire :: "string \<Rightarrow> int \<Rightarrow> rview \<Rightarrow> rview" where
  "a_acquire x ms v =
     (if string_at v leaderKey = None then upd_string leaderKey (Some (x, Some ms)) v else v)"

definition a_holds :: "string \<Rightarrow> rview \<Rightarrow> bool" where
  "a_holds x v \<longleftrightarrow> map_option fst (string_at v leaderKey) = Some x"

definition a_renew_lock :: "string \<Rightarrow> int \<Rightarrow> rview \<Rightarrow> rview" where
  "a_renew_lock x ms v = (if a_holds x v then upd_string leaderKey (Some (x, Some ms)) v else v)"

definition a_release :: "string \<Rightarrow> rview \<Rightarrow> rview" where
  "a_release x v = (if a_holds x v then upd_string leaderKey None v else v)"

definition a_elapse :: "int \<Rightarrow> rview \<Rightarrow> rview" where
  "a_elapse t v = v\<lparr>string_at := (\<lambda>k. age_string t (string_at v k))\<rparr>"

fun a_op :: "config \<Rightarrow> (int \<Rightarrow> string) \<Rightarrow> op \<Rightarrow> rview \<Rightarrow> rview" where
  "a_op c num (OpEnqueue j p q t i ttl) v =
     (if i \<noteq> '''' \<and> ttl \<le> 0 then v else snd (a_enqueue_req j p q t i ttl v))"
| "a_op c num (OpClaim q n dl) v = a_claim (nat n) q dl v"
| "a_op c num (OpRenew q j dl) v = a_renew q j dl v"
| "a_op c num (OpAck q js) v = fold (a_ack1 q) js v"
| "a_op c num (OpFail q j nextAt) v = a_fail (MaxRetries c) q j nextAt v"
| "a_op c num (OpReap q now) v = a_reap (MaxRetries c) now (DrainLimit c) q v"
| "a_op c num (OpRetry q now) v = a_retry now (DrainLimit c) q v"
| "a_op c num (OpFire now xs) v = snd (a_fire (num now) now xs v)"
| "a_op c num (OpCreateSchedule sid q spec p t nxt) v =
     upd_zset schedulesKey ((zset_at v schedulesKey)(sid \<mapsto> nxt))
       (upd_hash (scheduleKey sid) (hash_at v (scheduleKey sid) ++ map_of (schedule_fields q spec p t)) v)"
| "a_op c num (OpDeleteSchedule sid) v =
     upd_hash (scheduleKey sid) Map.empty (upd_zset schedulesKey ((zset_at v schedulesKey)(sid := None)) v)"
| "a_op c num (OpDropSchedule sid) v = upd_zset schedulesKey ((zset_at v schedulesKey)(sid := None)) v"
| "a_op c num (OpAcquireLock x) v = a_acquire x (milliseconds (LeaderLockTTL c)) v"
| "a_op c num (OpRenewLock x) v = a_renew_lock x (milliseconds (LeaderLockTTL c)) v"
| "a_op c num (OpReleaseLock x) v = a_release x v"
| "a_op c num (OpElapse t) v = a_elapse t v"

definition astep :: "config \<Rightarrow> (int \<Rightarrow> string) \<Rightarrow> rview \<Rightarrow> op \<Rightarrow> rview \<Rightarrow> bool" where
  "astep c num v x w \<longleftrightarrow> op_ok x v \<and> w = a_op c num x v"

definition cogs_step :: "'db redis \<Rightarrow> config \<Rightarrow> 'db \<Rightarrow> op \<Rightarrow> 'db \<Rightarrow> bool" where
  "cogs_step R c d x d' \<longleftrightarrow> op_ok x (view R d) \<and> d' = exec_op R c x d"

subsection \<open>The invariant is kept, and each job moves along the state diagram\<close>

lemma inv_fire_op:
  "job_inv mr v \<Longrightarrow> distinct (map (fst \<circ> snd) xs) \<Longrightarrow> ids_of_quads xs \<inter> live v = {} \<Longrightarrow>
   job_inv mr (snd (a_fire nows now xs v))"
  unfolding ids_of_quads_def by (rule inv_fire)

lemma inv_op:
  assumes "job_inv (MaxRetries c) v" and "config_ok c" and "op_ok x v"
  shows "job_inv (MaxRetries c) (a_op c num x v)"
  using assms config_ok_limits [OF assms(2)]
  by (cases x) (auto simp: a_acquire_def a_renew_lock_def a_release_def a_elapse_def
      intro: inv_enqueue_req inv_claim inv_renew inv_acks inv_fail inv_reap inv_retry inv_fire_op
        inv_string inv_strings inv_schedules inv_schedule_hash)

lemma reap_lifecycle:
  assumes "job_inv mr v" and "mr < 2 ^ 63 - 1"
  shows "lifecycle_eq (job_state v j) (job_state (a_reap mr now n q v) j)"
proof (cases "j \<in> set (reap_due now n q v) \<and> zset_at v (leasedKey q) j \<noteq> None")
  case True
  then obtain s where "zset_at v (leasedKey q) j = Some s" by blast
  with assms(1) have "job_state v j = Some StateLeased" by (rule job_state_leased)
  then show ?thesis using True by (simp add: a_reap_def state_reaps [OF assms reap_due_distinct] lifecycle.intros)
next
  case False
  then show ?thesis by (simp only: a_reap_def state_reaps [OF assms reap_due_distinct] if_False simp_thms)
qed

lemma retry_lifecycle:
  assumes "job_inv mr v"
  shows "lifecycle_eq (job_state v j) (job_state (a_retry now n q v) j)"
proof (cases "j \<in> set (retry_due now n q v) \<and> zset_at v (retryKey q) j \<noteq> None")
  case True
  then obtain s where "zset_at v (retryKey q) j = Some s" by blast
  with assms(1) have "job_state v j = Some StateRetry" by (rule job_state_retry)
  then show ?thesis using True by (simp add: a_retry_def state_retries [OF assms retry_due_distinct] lifecycle.intros)
next
  case False
  then show ?thesis by (simp only: a_retry_def state_retries [OF assms retry_due_distinct] if_False simp_thms)
qed

lemma fail_lifecycle:
  assumes "job_inv mr v" and "mr < 2 ^ 63 - 1"
  shows "lifecycle_eq (job_state v j) (job_state (a_fail mr q i nextAt v) j)"
proof (cases "j = i \<and> zset_at v (leasedKey q) i \<noteq> None")
  case True
  then obtain s where "zset_at v (leasedKey q) j = Some s" by blast
  with assms(1) have "job_state v j = Some StateLeased" by (rule job_state_leased)
  then show ?thesis using True by (simp add: state_fail [OF assms] lifecycle.intros)
next
  case False
  then show ?thesis by (simp only: state_fail [OF assms] if_False simp_thms)
qed

lemma not_live_state: "j \<notin> live v \<Longrightarrow> job_state v j = None"
  by (simp add: job_state_def not_live_queue)

lemma enqueue_lifecycle:
  assumes "job_inv mr v" and "i \<notin> live v"
  shows "lifecycle_eq (job_state v j) (job_state (snd (a_enqueue_req i p q t key ttl v)) j)"
  using assms(2) not_live_state [OF assms(2)]
  by (auto simp: a_enqueue_req_def state_enqueue state_other cogs_simps split: option.splits intro: lifecycle.intros)

lemma claim_lifecycle:
  assumes "job_inv mr v"
  shows "lifecycle_eq (job_state v j) (job_state (a_claim n q dl v) j)"
  using taken_pending [OF assms, of j n q] by (auto simp: state_claim [OF assms] intro: lifecycle.intros)

lemma op_lifecycle:
  assumes "job_inv (MaxRetries c) v" and "config_ok c" and "op_ok x v"
  shows "lifecycle_eq (job_state v j) (job_state (a_op c num x v) j)"
  using assms config_ok_limits [OF assms(2)]
    enqueue_lifecycle [OF assms(1)] claim_lifecycle [OF assms(1)] state_acks [OF assms(1)]
    fail_lifecycle [OF assms(1)] reap_lifecycle [OF assms(1)] retry_lifecycle [OF assms(1)]
    state_fire [OF assms(1)]
  by (cases x) (simp_all add: a_acquire_def a_renew_lock_def a_release_def a_elapse_def ids_of_quads_def
      state_renew state_other)

end
