(* ===== verification/Job_History.thy ===== *)
theory Job_History
  imports Job_Steps
begin

section \<open>What a job keeps through any history: its fields, its attempts, its deliveries\<close>

text \<open>
  For one step, the hash of a job is unchanged, has its attempts counted once, or is removed by
  an acknowledgement of its lease. Lifted to runs this gives the durability of jobs, the
  immutability of their fields and the bound on how often a job is handed out.
\<close>

subsection \<open>The hash of a job after each operation\<close>

definition bumped :: "rview \<Rightarrow> job_id \<Rightarrow> (string \<rightharpoonup> string)" where
  "bumped v j = (hash_at v (jobKey j))(''attempts'' \<mapsto> itoa (job_attempts v j + 1))"

lemma hash_fail:
  "hash_at (a_fail mr q j nextAt v) (jobKey i) =
     (if i = j \<and> zset_at v (leasedKey q) j \<noteq> None then bumped v i else hash_at v (jobKey i))"
  by (auto simp: a_fail_def Let_def a_bump_def bumped_def cogs_simps)

lemma hash_reap1:
  "hash_at (a_reap1 mr q j v) (jobKey i) =
     (if i = j \<and> zset_at v (leasedKey q) j \<noteq> None then bumped v i else hash_at v (jobKey i))"
  by (auto simp: a_reap1_def Let_def a_bump_def bumped_def cogs_simps)

lemma hash_reaps:
  "distinct js \<Longrightarrow> hash_at (fold (a_reap1 mr q) js v) (jobKey i) =
     (if i \<in> set js \<and> zset_at v (leasedKey q) i \<noteq> None then bumped v i else hash_at v (jobKey i))"
proof (induction js arbitrary: v)
  case Nil
  then show ?case by simp
next
  case (Cons a js)
  note IH = Cons.IH [of "a_reap1 mr q a v"]
  show ?case
  proof (cases "i = a")
    case True
    then show ?thesis using IH Cons.prems by (simp add: hash_reap1)
  next
    case False
    then have "zset_at (a_reap1 mr q a v) (leasedKey q) i = zset_at v (leasedKey q) i"
      "bumped (a_reap1 mr q a v) i = bumped v i"
      by (simp_all add: leased_reap1 bumped_def job_attempts_def hash_reap1)
    then show ?thesis using IH Cons.prems False by (simp add: hash_reap1 del: not_None_eq)
  qed
qed

lemma hash_retries: "hash_at (fold (a_retry1 q) js v) = hash_at v"
proof (induction js arbitrary: v)
  case (Cons a js)
  have "hash_at (a_retry1 q a v) = hash_at v" by (simp add: a_retry1_def)
  then show ?case using Cons.IH by simp
qed simp

lemma hash_acks:
  "hash_at (fold (a_ack1 q) js v) (jobKey i) =
     (if i \<in> set js \<and> zset_at v (leasedKey q) i \<noteq> None then Map.empty else hash_at v (jobKey i))"
proof (induction js arbitrary: v)
  case (Cons a js)
  have "hash_at (a_ack1 q a v) (jobKey i) =
      (if i = a \<and> zset_at v (leasedKey q) i \<noteq> None then Map.empty else hash_at v (jobKey i))"
    "zset_at (a_ack1 q a v) (leasedKey q) i = (if i = a then None else zset_at v (leasedKey q) i)"
    by (auto simp: a_ack1_def)
  then show ?case using Cons.IH [of "a_ack1 q a v"] by (simp del: not_None_eq) auto
qed simp

lemma hash_enqueue_req:
  "i \<noteq> j \<Longrightarrow> hash_at (snd (a_enqueue_req j p q t key ttl v)) (jobKey i) = hash_at v (jobKey i)"
  by (simp add: a_enqueue_req_def a_enqueue_def split: option.splits)

lemma hash_fire1:
  "i \<noteq> j \<Longrightarrow> hash_at (a_fire1 nows now (sid, j, p, nx) v) (jobKey i) = hash_at v (jobKey i)"
  by (simp add: a_fire1_def a_enqueue_def split: option.splits)

lemma hash_fire:
  "i \<notin> ids_of_quads xs \<Longrightarrow> hash_at (snd (a_fire nows now xs v)) (jobKey i) = hash_at v (jobKey i)"
proof (induction xs arbitrary: v)
  case (Cons x xs)
  obtain sid j p nx where x: "x = (sid, j, p, nx)" by (cases x)
  have "i \<noteq> j" "i \<notin> ids_of_quads xs" using Cons.prems by (auto simp: x ids_of_quads_def)
  then show ?case using Cons.IH hash_fire1 by (simp add: x split_beta)
qed simp

subsection \<open>One step\<close>

text \<open>The identifiers a step may introduce, and the jobs it counts an attempt of or removes.\<close>

fun new_ids :: "op \<Rightarrow> job_id set" where
  "new_ids (OpEnqueue j p q t i ttl) = {j}"
| "new_ids (OpFire now xs) = ids_of_quads xs"
| "new_ids _ = {}"

fun bumps :: "config \<Rightarrow> op \<Rightarrow> rview \<Rightarrow> job_id \<Rightarrow> bool" where
  "bumps c (OpFail q j nextAt) v i \<longleftrightarrow> i = j \<and> zset_at v (leasedKey q) j \<noteq> None"
| "bumps c (OpReap q now) v i \<longleftrightarrow>
     i \<in> set (reap_due now (DrainLimit c) q v) \<and> zset_at v (leasedKey q) i \<noteq> None"
| "bumps c _ v i \<longleftrightarrow> False"

fun acks :: "op \<Rightarrow> rview \<Rightarrow> job_id \<Rightarrow> bool" where
  "acks (OpAck q js) v i \<longleftrightarrow> i \<in> set js \<and> zset_at v (leasedKey q) i \<noteq> None"
| "acks _ v i \<longleftrightarrow> False"

fun delivers :: "op \<Rightarrow> rview \<Rightarrow> job_id \<Rightarrow> bool" where
  "delivers (OpClaim q n dl) v i \<longleftrightarrow> i \<in> set (take (nat n) (rev (list_at v (pendingKey q))))"
| "delivers _ v i \<longleftrightarrow> False"

lemma hash_op:
  assumes "i \<notin> new_ids x"
  shows "hash_at (a_op c num x v) (jobKey i) =
    (if bumps c x v i then bumped v i else if acks x v i then Map.empty else hash_at v (jobKey i))"
  using assms
  by (cases x) (simp_all add: hash_fail hash_reaps [OF reap_due_distinct] a_reap_def a_retry_def
      hash_retries hash_acks hash_enqueue_req hash_fire a_claim_def Let_def a_renew_def
      a_acquire_def a_renew_lock_def a_release_def a_elapse_def del: not_None_eq)

lemma bumps_leased:
  "job_inv mr v \<Longrightarrow> bumps c x v i \<Longrightarrow> job_state v i = Some StateLeased"
  by (cases x) (auto simp: job_state_leased)

lemma acks_leased: "job_inv mr v \<Longrightarrow> acks x v i \<Longrightarrow> job_state v i = Some StateLeased"
  by (cases x) (auto simp: job_state_leased)

lemma delivers_pending: "job_inv mr v \<Longrightarrow> delivers x v i \<Longrightarrow> job_state v i = Some StatePending"
  by (cases x) (auto intro: taken_pending)

lemma live_bumped: "hash_at v (jobKey i) \<noteq> Map.empty \<Longrightarrow> bumped v i \<noteq> Map.empty"
  by (simp add: bumped_def)

text \<open>How a step moves a job that it does not introduce.\<close>

lemma bumps_state:
  assumes "job_inv (MaxRetries c) v" and "config_ok c" and "bumps c x v i"
  shows "job_state (a_op c num x v) i = Some StateDead \<and> dead_dest (MaxRetries c) v i
    \<or> job_state (a_op c num x v) i \<in> {Some StateRetry, Some StatePending} \<and> \<not> dead_dest (MaxRetries c) v i"
  using assms(3) config_ok_limits [OF assms(2)]
  by (cases x) (simp_all add: state_fail [OF assms(1)] a_reap_def state_reaps [OF assms(1) _ reap_due_distinct])

lemma acks_state:
  "job_inv mr v \<Longrightarrow> acks x v i \<Longrightarrow> job_state (a_op c num x v) i = None"
  by (cases x) (auto simp: state_acks_eq)

lemma delivers_state:
  "job_inv mr v \<Longrightarrow> delivers x v i \<Longrightarrow> job_state (a_op c num x v) i = Some StateLeased"
  by (cases x) (auto simp: state_claim)

lemma retry_quiet:
  assumes "job_inv mr v"
  shows "job_state (a_retry now n q v) i = job_state v i \<or>
    job_state v i = Some StateRetry \<and> job_state (a_retry now n q v) i = Some StatePending"
proof (cases "i \<in> set (retry_due now n q v) \<and> zset_at v (retryKey q) i \<noteq> None")
  case True
  then obtain s where "zset_at v (retryKey q) i = Some s" by blast
  with assms have "job_state v i = Some StateRetry" by (rule job_state_retry)
  then show ?thesis using True by (simp add: a_retry_def state_retries [OF assms retry_due_distinct])
next
  case False
  then show ?thesis by (simp only: a_retry_def state_retries [OF assms retry_due_distinct] if_False simp_thms)
qed

lemma quiet_state:
  assumes inv: "job_inv (MaxRetries c) v" and ok: "config_ok c" "op_ok x v" and "i \<notin> new_ids x"
    and "\<not> bumps c x v i" and "\<not> acks x v i" and "\<not> delivers x v i"
  shows "job_state (a_op c num x v) i = job_state v i \<or>
    job_state v i = Some StateRetry \<and> job_state (a_op c num x v) i = Some StatePending"
proof (cases x)
  case (OpEnqueue j p q t key ttl)
  then show ?thesis using assms(3,4)
    by (simp add: a_enqueue_req_def state_enqueue state_other cogs_simps split: option.splits)
next
  case (OpFire now xs)
  then show ?thesis using state_fire [OF inv, of xs i] assms(3,4) by (simp add: ids_of_quads_def)
next
  case (OpRetry q now)
  then show ?thesis using retry_quiet [OF inv] by simp
qed (use assms(5-7) config_ok_limits [OF ok(1)] in \<open>simp_all add: state_claim [OF inv] state_renew
  state_acks_eq [OF inv] state_fail [OF inv] a_reap_def state_reaps [OF inv _ reap_due_distinct]
  state_other a_acquire_def a_renew_lock_def a_release_def a_elapse_def del: not_None_eq\<close>, auto)

subsection \<open>Fields and durability\<close>

text \<open>The fields of a job that are written once: everything of its hash but the attempts.\<close>

definition fixed_fields :: "rview \<Rightarrow> job_id \<Rightarrow> (string \<rightharpoonup> string)" where
  "fixed_fields v j = (hash_at v (jobKey j))(''attempts'' := None)"

text \<open>
  \<open>kept i v w\<close>: job \<open>i\<close> is live in both views, with the same fixed fields and at least as many
  attempts.
\<close>

definition kept :: "job_id \<Rightarrow> rview \<Rightarrow> rview \<Rightarrow> bool" where
  "kept i v w \<longleftrightarrow> i \<in> live v \<and> i \<in> live w \<and> fixed_fields w i = fixed_fields v i
     \<and> job_attempts v i \<le> job_attempts w i"

lemma kept_refl: "i \<in> live v \<Longrightarrow> kept i v v"
  by (simp add: kept_def)

lemma kept_trans: "kept i u v \<Longrightarrow> kept i v w \<Longrightarrow> kept i u w"
  by (simp add: kept_def)

lemma inv_live_hash:
  assumes "job_inv mr v" and "i \<in> live v"
  obtains p q n k t where "hash_at v (jobKey i) = job_hash p q n k t" "0 \<le> n"
    "n \<le> max 0 mr + (if i \<in> set (list_at v (deadKey q)) then 1 else 0)"
  using job_inv_wf [OF assms(1), of i] assms(2) by (auto simp: job_wf_def live_def)

lemma inv_attempts_range:
  assumes "job_inv mr v" and "i \<in> live v" and "mr < 2 ^ 63 - 1"
  shows "0 \<le> job_attempts v i" and "job_attempts v i \<le> max 0 mr + 1"
    and "job_state v i \<noteq> Some StateDead \<Longrightarrow> job_attempts v i \<le> max 0 mr"
proof -
  obtain p q n k t where h: "hash_at v (jobKey i) = job_hash p q n k t" "0 \<le> n"
    "n \<le> max 0 mr + (if i \<in> set (list_at v (deadKey q)) then 1 else 0)"
    using assms(1,2) by (rule inv_live_hash)
  then have n: "job_attempts v i = n" using assms(3) by (auto simp: job_attempts_hash split: if_splits)
  show "0 \<le> job_attempts v i" "job_attempts v i \<le> max 0 mr + 1"
    using h n by (auto split: if_splits)
  assume nd: "job_state v i \<noteq> Some StateDead"
  have "i \<notin> set (list_at v (deadKey q))"
  proof
    assume dead: "i \<in> set (list_at v (deadKey q))"
    have "job_queue v i = Some q" using h(1) by (simp add: job_queue_def)
    then have "occ v q i = 1" using job_inv_occ [OF assms(1), of q i] by simp
    with dead have "i \<notin> set (list_at v (pendingKey q))" "zset_at v (leasedKey q) i = None"
      "zset_at v (retryKey q) i = None"
      by (auto simp: occ_def simp flip: count_list_pos_iff split: if_splits)
    with dead nd \<open>job_queue v i = Some q\<close> show False by (simp add: job_state_def)
  qed
  then show "job_attempts v i \<le> max 0 mr" using h(3) n by simp
qed

lemma bumped_attempts:
  assumes "job_inv mr v" and "i \<in> live v" and "mr < 2 ^ 63 - 1" and "job_state v i = Some StateLeased"
    and "hash_at w (jobKey i) = bumped v i"
  shows "job_attempts w i = job_attempts v i + 1"
  using inv_attempts_range [OF assms(1-3)] assms(3-5)
  by (simp add: job_attempts_def [of w] bumped_def parse_int_itoa)

lemma live_state_not_None: "job_state v i \<noteq> None \<Longrightarrow> i \<in> live v"
  by (metis not_live_state)

lemma op_kept:
  assumes inv: "job_inv (MaxRetries c) v" and ok: "config_ok c" and "i \<in> live v" and "i \<notin> new_ids x"
  shows "acks x v i \<and> i \<notin> live (a_op c num x v) \<or> \<not> acks x v i \<and> kept i v (a_op c num x v)"
proof -
  note hash = hash_op [OF assms(4), of c num v]
  note limits = config_ok_limits [OF ok]
  consider (bump) "bumps c x v i" | (ack) "acks x v i" "\<not> bumps c x v i"
    | (other) "\<not> bumps c x v i" "\<not> acks x v i" by blast
  then show ?thesis
  proof cases
    case bump
    then have "hash_at (a_op c num x v) (jobKey i) = bumped v i" "\<not> acks x v i"
      using hash by (cases x; simp)+
    moreover have "bumped v i \<noteq> Map.empty" using assms(3) by (simp add: live_def live_bumped)
    moreover have "job_attempts (a_op c num x v) i = job_attempts v i + 1"
      using bumped_attempts [OF inv assms(3) _ bumps_leased [OF inv bump]] limits calculation(1) by blast
    ultimately show ?thesis using assms(3)
      by (simp add: kept_def live_def fixed_fields_def bumped_def)
  next
    case ack
    then show ?thesis using hash by (simp add: live_def)
  next
    case other
    then show ?thesis using hash assms(3)
      by (simp add: kept_def live_def fixed_fields_def job_attempts_def)
  qed
qed

end
