(* ===== verification/Mem_Redis.thy ===== *)
theory Mem_Redis
  imports Redis_Api "HOL-Library.AList"
begin

section \<open>An in-memory Redis: the laws can hold\<close>

text \<open>
  A database as association lists per type of value, every command of \<open>redis\<close> as an executable
  function on it, and the interpretation of \<open>redis_db\<close> on it. It shows that the laws the
  development relies on are satisfiable together, and it is what the witnesses run on.
\<close>

record mem =
  m_lists :: "(key \<times> string list) list"
  m_zsets :: "(key \<times> (string \<times> int) list) list"
  m_hashes :: "(key \<times> (string \<times> string) list) list"
  m_strings :: "(key \<times> (string \<times> int option) option) list"

definition mem_empty :: mem where
  "mem_empty = \<lparr>m_lists = [], m_zsets = [], m_hashes = [], m_strings = []\<rparr>"

definition assoc :: "'v \<Rightarrow> ('k \<times> 'v) list \<Rightarrow> 'k \<Rightarrow> 'v" where
  "assoc def xs k = (case map_of xs k of None \<Rightarrow> def | Some v \<Rightarrow> v)"

lemma assoc_update [simp]: "assoc def (AList.update k v xs) k' = (if k' = k then v else assoc def xs k')"
  by (simp add: assoc_def update_conv')

lemma assoc_Nil [simp]: "assoc def [] k = def"
  by (simp add: assoc_def)

lemma assoc_map_snd: "f def = def \<Longrightarrow> assoc def (map (\<lambda>(k, v). (k, f v)) xs) k = f (assoc def xs k)"
  by (simp add: assoc_def map_of_map split: option.splits)

definition mem_zentries :: "(string \<times> int) list \<Rightarrow> zentry list" where
  "mem_zentries z = sort (map (\<lambda>(m, s). ZEntry s m) (AList.clearjunk z))"

definition glob_match :: "string \<Rightarrow> key \<Rightarrow> bool" where
  "glob_match pat k =
     (let pre = takeWhile (\<lambda>c. c \<noteq> CHR ''*'') pat; post = tl (dropWhile (\<lambda>c. c \<noteq> CHR ''*'') pat)
      in length pre + length post \<le> length k \<and> take (length pre) k = pre \<and> ends_with post k)"

definition mem_keys :: "mem \<Rightarrow> key list" where
  "mem_keys d =
     [k \<leftarrow> map fst (m_lists d). key_kind k = KList \<and> assoc [] (m_lists d) k \<noteq> []]
   @ [k \<leftarrow> map fst (m_zsets d). key_kind k = KZSet \<and> assoc [] (m_zsets d) k \<noteq> []]
   @ [k \<leftarrow> map fst (m_hashes d). key_kind k = KHash \<and> assoc [] (m_hashes d) k \<noteq> []]
   @ [k \<leftarrow> map fst (m_strings d). key_kind k = KString \<and> assoc None (m_strings d) k \<noteq> None]"

definition mem_hincrby :: "key \<Rightarrow> string \<Rightarrow> int \<Rightarrow> mem \<Rightarrow> (string + int) \<times> mem" where
  "mem_hincrby k f i d =
     (let h = assoc [] (m_hashes d) k;
          (n, ok) = (case map_of h f of None \<Rightarrow> (0, True) | Some x \<Rightarrow> parse_int x)
      in if ok \<and> - (2 ^ 63) \<le> n + i \<and> n + i < 2 ^ 63
         then (Inr (n + i), d\<lparr>m_hashes := AList.update k (AList.update f (itoa (n + i)) h) (m_hashes d)\<rparr>)
         else (Inl ''ERR value is not an integer or out of range'', d))"

definition mem_set_nx :: "key \<Rightarrow> string \<Rightarrow> int \<Rightarrow> mem \<Rightarrow> bool \<times> mem" where
  "mem_set_nx k x ttl d =
     (if assoc None (m_strings d) k = None
      then (True, d\<lparr>m_strings := AList.update k (Some (x, Some ttl)) (m_strings d)\<rparr>)
      else (False, d))"

definition mem_pexpire :: "key \<Rightarrow> int \<Rightarrow> mem \<Rightarrow> int \<times> mem" where
  "mem_pexpire k ms d =
     (case assoc None (m_strings d) k of
        None \<Rightarrow> (0, d)
      | Some (x, _) \<Rightarrow>
          (1, d\<lparr>m_strings := AList.update k (if 0 < ms then Some (x, Some ms) else None) (m_strings d)\<rparr>))"

definition mem_del :: "key \<Rightarrow> mem \<Rightarrow> int \<times> mem" where
  "mem_del k d =
     (case key_kind k of
        KHash \<Rightarrow> (if assoc [] (m_hashes d) k = [] then 0 else 1,
          d\<lparr>m_hashes := AList.update k [] (m_hashes d)\<rparr>)
      | KString \<Rightarrow> (if assoc None (m_strings d) k = None then 0 else 1,
          d\<lparr>m_strings := AList.update k None (m_strings d)\<rparr>)
      | KList \<Rightarrow> (if assoc [] (m_lists d) k = [] then 0 else 1,
          d\<lparr>m_lists := AList.update k [] (m_lists d)\<rparr>)
      | KZSet \<Rightarrow> (if assoc [] (m_zsets d) k = [] then 0 else 1,
          d\<lparr>m_zsets := AList.update k [] (m_zsets d)\<rparr>)
      | KOther \<Rightarrow> (0, d))"

definition mem_redis :: "mem redis" where
  "mem_redis = \<lparr>
     r_lpush = (\<lambda>k x d. d\<lparr>m_lists := AList.update k (x # assoc [] (m_lists d) k) (m_lists d)\<rparr>),
     r_rpop = (\<lambda>k d. let xs = assoc [] (m_lists d) k in
        (if xs = [] then None else Some (last xs), d\<lparr>m_lists := AList.update k (butlast xs) (m_lists d)\<rparr>)),
     r_llen = (\<lambda>k d. int (length (assoc [] (m_lists d) k))),
     r_lrange = (\<lambda>k i n d. let xs = assoc [] (m_lists d) k in
        drop (nat i) (if n < 0 then take (nat (int (length xs) + n + 1)) xs else take (Suc (nat n)) xs)),
     r_zadd = (\<lambda>k s m d. d\<lparr>m_zsets := AList.update k (AList.update m s (assoc [] (m_zsets d) k)) (m_zsets d)\<rparr>),
     r_zrem = (\<lambda>k m d. let z = assoc [] (m_zsets d) k in
        (if map_of z m = None then 0 else 1, d\<lparr>m_zsets := AList.update k (AList.delete m z) (m_zsets d)\<rparr>)),
     r_zscore = (\<lambda>k m d. map_of (assoc [] (m_zsets d) k) m),
     r_zcard = (\<lambda>k d. int (length (AList.clearjunk (assoc [] (m_zsets d) k)))),
     r_zrangebyscore = (\<lambda>k mx n d. limited n (map zmember
        (takeWhile (\<lambda>e. zscore_of e \<le> mx) (mem_zentries (assoc [] (m_zsets d) k))))),
     r_zrange_withscores = (\<lambda>k d.
        map (\<lambda>e. (zmember e, zscore_of e)) (mem_zentries (assoc [] (m_zsets d) k))),
     r_hset = (\<lambda>k fs d. d\<lparr>m_hashes := AList.update k (fold (\<lambda>(f, x). AList.update f x) fs (assoc [] (m_hashes d) k))
        (m_hashes d)\<rparr>),
     r_hget = (\<lambda>k f d. map_of (assoc [] (m_hashes d) k) f),
     r_hgetall = (\<lambda>k d. assoc [] (m_hashes d) k),
     r_hincrby = mem_hincrby,
     r_del = mem_del,
     r_set_nx_ex = (\<lambda>k x ttl d. if ttl \<le> 0 then (Inl ''ERR invalid expire time in 'set' command'', d)
        else (case mem_set_nx k x (1000 * ttl) d of (ok, d') \<Rightarrow> (Inr ok, d'))),
     r_setargs_nx = (\<lambda>k x ttl d. mem_set_nx k x (milliseconds ttl) d),
     r_get = (\<lambda>k d. map_option fst (assoc None (m_strings d) k)),
     r_pttl = (\<lambda>k d. case assoc None (m_strings d) k of None \<Rightarrow> None | Some (x, ttl) \<Rightarrow> ttl),
     r_pexpire = mem_pexpire,
     r_scan = (\<lambda>cursor pat n d. (filter (glob_match pat) (mem_keys d), 0)),
     r_elapse = (\<lambda>t d. d\<lparr>m_strings := map (\<lambda>(k, s). (k, age_string t s)) (m_strings d)\<rparr>),
     r_lua_number = itoa \<rparr>"

lemma mem_ops:
  "r_lpush mem_redis k x d = (d\<lparr>m_lists := AList.update k (x # assoc [] (m_lists d) k) (m_lists d)\<rparr>)"
  "r_rpop mem_redis k d = (let xs = assoc [] (m_lists d) k in
       (if xs = [] then None else Some (last xs), d\<lparr>m_lists := AList.update k (butlast xs) (m_lists d)\<rparr>))"
  "r_llen mem_redis k d = (int (length (assoc [] (m_lists d) k)))"
  "r_lrange mem_redis k i n d = (let xs = assoc [] (m_lists d) k in
       drop (nat i) (if n < 0 then take (nat (int (length xs) + n + 1)) xs else take (Suc (nat n)) xs))"
  "r_zadd mem_redis k s m d = (d\<lparr>m_zsets := AList.update k (AList.update m s (assoc [] (m_zsets d) k)) (m_zsets d)\<rparr>)"
  "r_zrem mem_redis k m d = (let z = assoc [] (m_zsets d) k in
       (if map_of z m = None then 0 else 1, d\<lparr>m_zsets := AList.update k (AList.delete m z) (m_zsets d)\<rparr>))"
  "r_zscore mem_redis k m d = (map_of (assoc [] (m_zsets d) k) m)"
  "r_zcard mem_redis k d = (int (length (AList.clearjunk (assoc [] (m_zsets d) k))))"
  "r_zrangebyscore mem_redis k mx n d = (limited n (map zmember
       (takeWhile (\<lambda>e. zscore_of e \<le> mx) (mem_zentries (assoc [] (m_zsets d) k)))))"
  "r_zrange_withscores mem_redis k d = (map (\<lambda>e. (zmember e, zscore_of e)) (mem_zentries (assoc [] (m_zsets d) k)))"
  "r_hset mem_redis k fs d = (d\<lparr>m_hashes := AList.update k (fold (\<lambda>(f, x). AList.update f x) fs (assoc [] (m_hashes d) k))
       (m_hashes d)\<rparr>)"
  "r_hget mem_redis k f d = (map_of (assoc [] (m_hashes d) k) f)"
  "r_hgetall mem_redis k d = (assoc [] (m_hashes d) k)"
  "r_hincrby mem_redis = mem_hincrby"
  "r_del mem_redis = mem_del"
  "r_set_nx_ex mem_redis k x ttl d = (if ttl \<le> 0 then (Inl ''ERR invalid expire time in 'set' command'', d)
       else (case mem_set_nx k x (1000 * ttl) d of (ok, d') \<Rightarrow> (Inr ok, d')))"
  "r_setargs_nx mem_redis k x ttl d = (mem_set_nx k x (milliseconds ttl) d)"
  "r_get mem_redis k d = (map_option fst (assoc None (m_strings d) k))"
  "r_pttl mem_redis k d = (case assoc None (m_strings d) k of None \<Rightarrow> None | Some (x, ttl) \<Rightarrow> ttl)"
  "r_pexpire mem_redis = mem_pexpire"
  "r_scan mem_redis cursor pat n d = ((filter (glob_match pat) (mem_keys d), 0))"
  "r_elapse mem_redis t d = (d\<lparr>m_strings := map (\<lambda>(k, s). (k, age_string t s)) (m_strings d)\<rparr>)"
  "r_lua_number mem_redis = itoa"
  by (simp_all add: mem_redis_def Let_def)

lemma mem_view: "view mem_redis d = \<lparr>
    list_at = (\<lambda>k. assoc [] (m_lists d) k),
    zset_at = (\<lambda>k. map_of (assoc [] (m_zsets d) k)),
    hash_at = (\<lambda>k. map_of (assoc [] (m_hashes d) k)),
    string_at = (\<lambda>k. assoc None (m_strings d) k)\<rparr>"
  by (auto simp: view_def mem_redis_def Let_def fun_eq_iff split: option.splits prod.splits)

lemma mem_zentries: "mem_zentries z = zentries (map_of z)"
proof -
  have fin: "finite (dom (map_of z))" by (rule finite_dom_map_of)
  have "distinct (map (\<lambda>(m, s). ZEntry s m) (AList.clearjunk z))"
    using distinct_clearjunk [of z] by (auto simp: distinct_map inj_on_def split_def intro: prod_eqI)
  moreover have "set (map (\<lambda>(m, s). ZEntry s m) (AList.clearjunk z)) = set (zentries (map_of z))"
  proof -
    have "(m, s) \<in> set (AList.clearjunk z) \<longleftrightarrow> map_of z m = Some s" for m s
      using distinct_clearjunk [of z] map_of_clearjunk [of z] by (metis map_of_eq_Some_iff)
    then show ?thesis using fin by (force simp: set_zentries)
  qed
  ultimately show ?thesis
    by (intro sorted_distinct_set_unique)
      (simp_all add: mem_zentries_def zentries_sorted zentries_def)
qed

lemma mem_clearjunk_length: "length (AList.clearjunk z) = card (dom (map_of z))"
  by (metis distinct_card distinct_clearjunk dom_clearjunk dom_map_of_conv_image_fst length_map list.set_map)

lemma fold_update_map_of:
  "distinct (map fst fs) \<Longrightarrow> map_of (fold (\<lambda>(f, x). AList.update f x) fs h) = map_of h ++ map_of fs"
proof (induction fs arbitrary: h)
  case Nil
  then show ?case by simp
next
  case (Cons p fs)
  obtain f x where p: "p = (f, x)" by fastforce
  have "map_of fs f = None" using Cons.prems p by (simp add: map_of_eq_None_iff)
  then have "(map_of h)(f \<mapsto> x) ++ map_of fs = map_of h ++ (map_of fs)(f \<mapsto> x)"
    by (auto simp: fun_eq_iff map_add_def split: option.splits)
  then show ?case using Cons p by (simp add: update_conv' fun_upd_def)
qed

lemma ends_with_iff: "ends_with s k \<longleftrightarrow> (\<exists>p. k = p @ s)"
proof
  assume e: "ends_with s k"
  have "rev k = take (length s) (rev k) @ drop (length s) (rev k)" by simp
  also have "\<dots> = rev s @ drop (length s) (rev k)" using e by (simp add: ends_with_def)
  finally have "k = rev (drop (length s) (rev k)) @ s" by (metis rev_append rev_rev_ident)
  then show "\<exists>p. k = p @ s" by blast
next
  assume "\<exists>p. k = p @ s"
  then show "ends_with s k" by (auto simp: ends_with_def)
qed

lemma prefix_suffix_iff:
  "length pre + length post \<le> length k \<and> take (length pre) k = pre \<and> ends_with post k
     \<longleftrightarrow> (\<exists>mid. k = pre @ mid @ post)"
proof
  assume a: "length pre + length post \<le> length k \<and> take (length pre) k = pre \<and> ends_with post k"
  then obtain p where p: "k = p @ post" by (auto simp: ends_with_iff)
  with a have "length pre \<le> length p" by simp
  then have "take (length pre) p = take (length pre) k" using p by simp
  then have "take (length pre) p = pre" using a by simp
  then have "p = pre @ drop (length pre) p" by (metis append_take_drop_id)
  with p show "\<exists>mid. k = pre @ mid @ post" by (metis append.assoc)
qed (auto simp: ends_with_def)

lemma glob_match_iff:
  assumes "set pre \<inter> glob_special = {}"
  shows "glob_match (pre @ CHR ''*'' # post) k \<longleftrightarrow> (\<exists>mid. k = pre @ mid @ post)"
proof -
  have "\<forall>c \<in> set pre. c \<noteq> CHR ''*''" using assms by (auto simp: glob_special_def)
  then have "takeWhile (\<lambda>c. c \<noteq> CHR ''*'') (pre @ CHR ''*'' # post) = pre"
    and "dropWhile (\<lambda>c. c \<noteq> CHR ''*'') (pre @ CHR ''*'' # post) = CHR ''*'' # post"
    by (auto simp: takeWhile_tail dropWhile_append2)
  then show ?thesis by (simp add: glob_match_def Let_def prefix_suffix_iff)
qed

lemma assoc_nondefault: "assoc def xs k \<noteq> def \<Longrightarrow> k \<in> fst ` set xs"
  by (auto simp: assoc_def split: option.splits dest: map_of_SomeD intro: rev_image_eqI)

lemma present_keys:
  "set [k \<leftarrow> map fst xs. key_kind k = K \<and> assoc def xs k \<noteq> def] = {k. key_kind k = K \<and> assoc def xs k \<noteq> def}"
  by (auto dest: assoc_nondefault)

lemma mem_keys_present: "set (mem_keys d) = {k. key_present (view mem_redis d) k}"
proof -
  have "k \<in> set (mem_keys d) \<longleftrightarrow> key_present (view mem_redis d) k" for k
    unfolding mem_keys_def set_append present_keys
    by (cases "key_kind k") (simp_all add: key_present_def mem_view)
  then show ?thesis by blast
qed

lemmas mem_law_simps = mem_ops mem_view upd_list_def upd_zset_def upd_hash_def upd_string_def
  Let_def fun_eq_iff update_conv' delete_conv'

lemma redis_db_mem: "redis_db mem_redis"
proof (unfold_locales, goal_cases)
  case 9
  show ?case by (simp add: mem_view finite_dom_map_of)
next
  case 10
  show ?case by (simp add: mem_ops mem_view mem_clearjunk_length)
next
  case 11
  show ?case by (simp add: mem_ops mem_view mem_zentries due_members_def)
next
  case 12
  show ?case by (simp add: mem_ops mem_view mem_zentries)
next
  case 13
  then show ?case by (simp add: mem_law_simps fold_update_map_of)
next
  case 15
  then show ?case by (simp add: mem_ops mem_view mem_hincrby_def parse_int_itoa)
next
  case 16
  then show ?case by (simp add: mem_law_simps mem_hincrby_def parse_int_itoa)
next
  case 27
  show ?case by (simp add: mem_law_simps assoc_map_snd age_string_def)
next
  case (29 n pre post d)
  then show ?case
    by (intro exI [of _ "[filter (glob_match (pre @ CHR ''*'' # post)) (mem_keys d)]"])
      (auto simp: mem_ops glob_match_iff mem_keys_present)
qed (auto simp: mem_law_simps mem_del_def mem_set_nx_def mem_pexpire_def split: option.splits prod.splits)

interpretation mem: redis_db mem_redis
  by (rule redis_db_mem)

end
