(* ===== verification/Job_Runs.thy ===== *)
theory Job_Runs
  imports Job_History Mem_Redis
begin

section \<open>Histories of the whole system\<close>

text \<open>
  The interface \<open>transition_system\<close> on the model's own steps: abstractly on views, and, for every
  Redis that satisfies the laws, on databases. Facts about runs of the abstract system carry over
  to runs of the scripts by the simulation \<open>runs_refine\<close>.
\<close>

interpretation jobs: transition_system "astep c num" "\<lambda>v. job_inv (MaxRetries c) v \<and> config_ok c" for c num
  by unfold_locales (auto simp: astep_def intro: inv_op)

subsection \<open>Durability\<close>

fun acked :: "config \<Rightarrow> (int \<Rightarrow> string) \<Rightarrow> op list \<Rightarrow> rview \<Rightarrow> job_id \<Rightarrow> bool" where
  "acked c num [] v i \<longleftrightarrow> False"
| "acked c num (x # xs) v i \<longleftrightarrow> acks x v i \<or> acked c num xs (a_op c num x v) i"

fun deliveries :: "config \<Rightarrow> (int \<Rightarrow> string) \<Rightarrow> op list \<Rightarrow> rview \<Rightarrow> job_id \<Rightarrow> nat" where
  "deliveries c num [] v i = 0"
| "deliveries c num (x # xs) v i =
     (if delivers x v i then 1 else 0) + deliveries c num xs (a_op c num x v) i"

abbreviation not_reused :: "job_id \<Rightarrow> op list \<Rightarrow> bool" where
  "not_reused i xs \<equiv> \<forall>x \<in> set xs. i \<notin> new_ids x"

lemma acks_live: "job_inv mr v \<Longrightarrow> acks x v i \<Longrightarrow> i \<in> live v"
  using acks_leased live_state_not_None by fastforce

lemma dead_job_stays_gone:
  "runs (astep c num) v xs w \<Longrightarrow> job_inv (MaxRetries c) v \<Longrightarrow> config_ok c \<Longrightarrow> not_reused i xs \<Longrightarrow>
   i \<notin> live v \<Longrightarrow> i \<notin> live w \<and> \<not> acked c num xs v i \<and> deliveries c num xs v i = 0"
proof (induction rule: runs.induct)
  case (run_nil s)
  then show ?case by simp
next
  case (run_cons v x t xs w)
  have t: "t = a_op c num x v" and ok: "op_ok x v" using run_cons.hyps(1) by (simp_all add: astep_def)
  have not: "\<not> bumps c x v i" "\<not> acks x v i" "\<not> delivers x v i"
    using bumps_leased [OF run_cons.prems(1)] acks_leased [OF run_cons.prems(1)]
      delivers_pending [OF run_cons.prems(1)] not_live_state [OF run_cons.prems(4)] by auto
  then have "i \<notin> live t" using hash_op [of i x c num v] run_cons.prems(3,4) by (simp add: live_def t)
  then show ?case using run_cons.IH run_cons.prems inv_op [OF run_cons.prems(1,2) ok, of num] not
    by (simp add: t)
qed

lemma run_kept:
  "runs (astep c num) v xs w \<Longrightarrow> job_inv (MaxRetries c) v \<Longrightarrow> config_ok c \<Longrightarrow> not_reused i xs \<Longrightarrow>
   i \<in> live v \<Longrightarrow> (if acked c num xs v i then i \<notin> live w else kept i v w)"
proof (induction rule: runs.induct)
  case (run_nil s)
  then show ?case by (simp add: kept_refl)
next
  case (run_cons v x t xs w)
  have t: "t = a_op c num x v" and ok: "op_ok x v" using run_cons.hyps(1) by (simp_all add: astep_def)
  have inv: "job_inv (MaxRetries c) t" using inv_op [OF run_cons.prems(1,2) ok] by (simp add: t)
  consider "acks x v i" "i \<notin> live t" | "\<not> acks x v i" "kept i v t"
    using op_kept [OF run_cons.prems(1,2,4), of x num] run_cons.prems(3) by (auto simp: t)
  then show ?case
  proof cases
    case 1
    then show ?thesis
      using dead_job_stays_gone [OF run_cons.hyps(2) inv run_cons.prems(2)] run_cons.prems(3) by simp
  next
    case 2
    then have "i \<in> live t" by (simp add: kept_def)
    then show ?thesis using run_cons.IH inv run_cons.prems(2,3) 2 by (auto simp: t intro: kept_trans)
  qed
qed

subsection \<open>How often a job is handed out\<close>

text \<open>How many more times a job can be claimed.\<close>

definition budget :: "int \<Rightarrow> rview \<Rightarrow> job_id \<Rightarrow> int" where
  "budget mr v i =
     (case job_state v i of
        None \<Rightarrow> 0
      | Some StateDead \<Rightarrow> 0
      | Some StateLeased \<Rightarrow> max 0 mr - job_attempts v i
      | Some _ \<Rightarrow> max 0 mr + 1 - job_attempts v i)"

lemma budget_cases:
  "job_state v i = None \<Longrightarrow> budget mr v i = 0"
  "job_state v i = Some StateDead \<Longrightarrow> budget mr v i = 0"
  "job_state v i = Some StateLeased \<Longrightarrow> budget mr v i = max 0 mr - job_attempts v i"
  "job_state v i = Some StatePending \<Longrightarrow> budget mr v i = max 0 mr + 1 - job_attempts v i"
  "job_state v i = Some StateRetry \<Longrightarrow> budget mr v i = max 0 mr + 1 - job_attempts v i"
  by (simp_all add: budget_def)

lemma budget_bounds:
  assumes "job_inv mr v" and "mr < 2 ^ 63 - 1"
  shows "0 \<le> budget mr v i" and "i \<in> live v \<Longrightarrow> budget mr v i \<le> max 0 mr + 1 - job_attempts v i"
proof -
  have live: "i \<in> live v" if "job_state v i = Some s" for s
    using that by (intro live_state_not_None) simp
  have pos: "budget mr v i \<ge> 0 \<and> (i \<in> live v \<longrightarrow> budget mr v i \<le> max 0 mr + 1 - job_attempts v i)"
    if "job_state v i = Some s" for s
    using inv_attempts_range [OF assms(1) live [OF that] assms(2)] that
    by (cases s) (simp_all add: budget_cases)
  have "budget mr v i \<le> max 0 mr + 1 - job_attempts v i" if "job_state v i = None" "i \<in> live v"
    using inv_attempts_range [OF assms(1) that(2) assms(2)] that(1) by (simp add: budget_cases)
  with pos show "0 \<le> budget mr v i" "i \<in> live v \<Longrightarrow> budget mr v i \<le> max 0 mr + 1 - job_attempts v i"
    by (cases "job_state v i"; auto simp: budget_cases)+
qed

lemma op_budget:
  assumes inv: "job_inv (MaxRetries c) v" and ok: "config_ok c" "op_ok x v" and new: "i \<notin> new_ids x"
  shows "(if delivers x v i then 1 else 0) + budget (MaxRetries c) (a_op c num x v) i \<le> budget (MaxRetries c) v i"
proof -
  let ?w = "a_op c num x v" and ?mr = "MaxRetries c"
  have mr: "?mr < 2 ^ 63 - 1" using config_ok_limits [OF ok(1)] by simp
  note hash = hash_op [OF new, of c num v]
  have same: "job_attempts ?w i = job_attempts v i" if "\<not> bumps c x v i" "\<not> acks x v i"
    using that hash by (simp add: job_attempts_def)
  consider (bump) "bumps c x v i" | (ack) "acks x v i"
    | (deliver) "delivers x v i" "\<not> bumps c x v i" "\<not> acks x v i"
    | (quiet) "\<not> bumps c x v i" "\<not> acks x v i" "\<not> delivers x v i" by blast
  then show ?thesis
  proof cases
    case bump
    note leased = bumps_leased [OF inv bump]
    have live: "i \<in> live v" using leased by (intro live_state_not_None) simp
    have "hash_at ?w (jobKey i) = bumped v i" and nd: "\<not> delivers x v i"
      using bump hash by (cases x; simp)+
    then have att: "job_attempts ?w i = job_attempts v i + 1"
      using bumped_attempts [OF inv live mr leased] by blast
    have "job_attempts v i \<le> max 0 ?mr"
      using inv_attempts_range(3) [OF inv live mr] leased by simp
    moreover have "budget ?mr ?w i \<le> max 0 ?mr - job_attempts v i"
      using bumps_state [OF inv ok(1) bump, of num] att calculation by (auto simp: budget_cases)
    ultimately show ?thesis using nd leased by (simp add: budget_cases)
  next
    case ack
    then have "\<not> delivers x v i" by (cases x) simp_all
    then show ?thesis
      using acks_state [OF inv ack, of c num] budget_bounds(1) [OF inv mr] by (simp add: budget_cases)
  next
    case deliver
    then show ?thesis
      using delivers_state [OF inv deliver(1), of c num] delivers_pending [OF inv deliver(1)] same
      by (simp add: budget_cases)
  next
    case quiet
    then show ?thesis using quiet_state [OF inv ok new quiet, of num] same
      by (auto simp: budget_def split: option.splits job_state.splits)
  qed
qed

lemma run_deliveries:
  "runs (astep c num) v xs w \<Longrightarrow> job_inv (MaxRetries c) v \<Longrightarrow> config_ok c \<Longrightarrow> not_reused i xs \<Longrightarrow>
   int (deliveries c num xs v i) + budget (MaxRetries c) w i \<le> budget (MaxRetries c) v i"
proof (induction rule: runs.induct)
  case (run_nil s)
  then show ?case by simp
next
  case (run_cons v x t xs w)
  have t: "t = a_op c num x v" and ok: "op_ok x v" using run_cons.hyps(1) by (simp_all add: astep_def)
  have "int (deliveries c num xs t i) + budget (MaxRetries c) w i \<le> budget (MaxRetries c) t i"
    using run_cons.IH run_cons.prems inv_op [OF run_cons.prems(1,2) ok] by (simp add: t)
  moreover have "(if delivers x v i then 1 else 0) + budget (MaxRetries c) t i \<le> budget (MaxRetries c) v i"
    using op_budget [OF run_cons.prems(1,2) ok, of i num] run_cons.prems(3) by (simp add: t)
  ultimately show ?case by (simp add: t split: if_splits)
qed

lemma run_deliveries_bound:
  assumes "runs (astep c num) v xs w" and "job_inv (MaxRetries c) v" and "config_ok c"
    and "not_reused i xs" and "i \<in> live v"
  shows "int (deliveries c num xs v i) \<le> max 0 (MaxRetries c) + 1 - job_attempts v i"
proof -
  have mr: "MaxRetries c < 2 ^ 63 - 1" using config_ok_limits [OF assms(3)] by simp
  have inv': "job_inv (MaxRetries c) w" using jobs.inv_runs [OF assms(1)] assms(2,3) by blast
  show ?thesis
    using run_deliveries [OF assms(1-4)] budget_bounds(1) [OF inv' mr, of i]
      budget_bounds(2) [OF assms(2) mr assms(5)] by linarith
qed

subsection \<open>The scripts on a database\<close>

text \<open>The identifiers in a reply of the claim script, which are what the server hands out.\<close>

fun triple_ids :: "string list \<Rightarrow> job_id list" where
  "triple_ids (j # p # n # xs) = j # triple_ids xs"
| "triple_ids _ = []"

fun handed_out :: "'db redis \<Rightarrow> op \<Rightarrow> 'db \<Rightarrow> job_id list" where
  "handed_out R (OpClaim q n dl) d =
     (case fst (claimScript R (pendingKey q) (leasedKey q) n dl d) of Inl e \<Rightarrow> [] | Inr out \<Rightarrow> triple_ids out)"
| "handed_out R _ d = []"

fun times_handed_out :: "'db redis \<Rightarrow> config \<Rightarrow> op list \<Rightarrow> 'db \<Rightarrow> job_id \<Rightarrow> nat" where
  "times_handed_out R c [] d i = 0"
| "times_handed_out R c (x # xs) d i =
     count_list (handed_out R x d) i + times_handed_out R c xs (exec_op R c x d) i"

text \<open>Whether an acknowledgement of the run found the job leased.\<close>

fun run_acked :: "'db redis \<Rightarrow> config \<Rightarrow> op list \<Rightarrow> 'db \<Rightarrow> job_id \<Rightarrow> bool" where
  "run_acked R c [] d i \<longleftrightarrow> False"
| "run_acked R c (x # xs) d i \<longleftrightarrow>
     (case x of OpAck q js \<Rightarrow> i \<in> set js \<and> r_zscore R (leasedKey q) i d \<noteq> None | _ \<Rightarrow> False)
     \<or> run_acked R c xs (exec_op R c x d) i"

lemma triple_ids_claim: "triple_ids (concat (map (claim_triple v) js)) = js"
  by (induction js) (simp_all add: claim_triple_def)

context redis_db
begin

lemma exec_refines:
  assumes "job_inv (MaxRetries c) (view R d)" and "config_ok c" and "op_ok x (view R d)"
  shows "view R (exec_op R c x d) = a_op c (r_lua_number R) x (view R d)"
proof (cases x)
  case (OpEnqueue j p q t i ttl)
  show ?thesis
  proof (cases "i \<noteq> '''' \<and> ttl \<le> 0")
    case True
    then show ?thesis
      using enqueueScript_bad_ttl [of i ttl "jobKey j" "pendingKey q" "idemKey i" j p q t d]
      by (auto simp: OpEnqueue)
  next
    case False
    have "j \<notin> live (view R d)" "i = '''' \<or> 0 < ttl" using assms(3) False by (auto simp: OpEnqueue)
    from enqueueScript_refines [OF this, of q p t] obtain d' where
      "enqueueScript R (jobKey j) (pendingKey q) (idemKey i) j p q t i ttl d
        = (Inr (fst (a_enqueue_req j p q t i ttl (view R d))), d')"
      "view R d' = snd (a_enqueue_req j p q t i ttl (view R d))" by blast
    moreover have "a_op c (r_lua_number R) x (view R d) = snd (a_enqueue_req j p q t i ttl (view R d))"
      using False by (simp add: OpEnqueue del: de_Morgan_conj)
    ultimately show ?thesis by (simp add: OpEnqueue)
  qed
next
  case (OpClaim q n dl)
  then show ?thesis using claimScript_refines [of q n dl d] by auto
next
  case (OpRenew q j dl)
  then show ?thesis using renewScript_refines [of q j dl d] by auto
next
  case (OpAck q js)
  then show ?thesis using ackScript_refines [of q js d] by auto
next
  case (OpFail q j nextAt)
  then show ?thesis using failScript_refines [OF assms(1), of q j nextAt] config_ok_limits [OF assms(2)] by auto
next
  case (OpReap q now)
  then show ?thesis
    using reap_refines [OF assms(1), of "DrainLimit c" q now] config_ok_limits [OF assms(2)] by auto
next
  case (OpRetry q now)
  then show ?thesis
    using retry_refines [of "DrainLimit c" q now "MaxRetries c" d] config_ok_limits [OF assms(2)] by auto
next
  case (OpFire now xs)
  then show ?thesis using scheduleDrain_refines [of xs d now] assms(3) by (auto simp: ids_of_quads_def)
next
  case (OpAcquireLock y)
  have "Millisecond \<le> LeaderLockTTL c" using assms(2) by (simp add: config_ok_def)
  then show ?thesis by (simp add: OpAcquireLock setargs_nx_view a_acquire_def)
next
  case (OpRenewLock y)
  have "0 < milliseconds (LeaderLockTTL c)"
    using assms(2) by (simp add: config_ok_def milliseconds_nonneg pos_imp_zdiv_pos_iff)
  then show ?thesis using pexpire_view [of leaderKey "milliseconds (LeaderLockTTL c)" d]
    by (auto simp: OpRenewLock renewLockScript_def a_renew_lock_def a_holds_def view_reads split: prod.splits)
next
  case (OpReleaseLock y)
  then show ?thesis using del_string_view [of leaderKey d]
    by (auto simp: releaseLockScript_def a_release_def a_holds_def view_reads split: prod.splits)
next
  case (OpElapse t)
  then show ?thesis using assms(3) by (simp add: elapse_view a_elapse_def)
qed (simp_all add: zadd_view hset_view zrem_view del_hash_view)

lemma step_refines:
  assumes "cogs_step R c d x d'" and "job_inv (MaxRetries c) (view R d)" and "config_ok c"
  shows "astep c (r_lua_number R) (view R d) x (view R d')"
  using assms by (simp add: cogs_step_def astep_def exec_refines)

lemma step_inv:
  assumes "cogs_step R c d x d'" and "job_inv (MaxRetries c) (view R d)" and "config_ok c"
  shows "job_inv (MaxRetries c) (view R d')"
  using step_refines [OF assms] jobs.inv_step [of c "view R d" "r_lua_number R" x "view R d'"] assms(2,3) by blast

lemma runs_refine:
  "runs (cogs_step R c) d xs d' \<Longrightarrow> job_inv (MaxRetries c) (view R d) \<Longrightarrow> config_ok c \<Longrightarrow>
   runs (astep c (r_lua_number R)) (view R d) xs (view R d')"
proof (induction rule: runs.induct)
  case (run_nil s)
  show ?case by (rule runs.run_nil)
next
  case (run_cons s l t ls u)
  then show ?case using step_refines step_inv by (blast intro: runs.run_cons)
qed

lemma handed_out_delivers:
  assumes "job_inv mr (view R d)"
  shows "count_list (handed_out R x d) i = (if delivers x (view R d) i then 1 else 0)"
proof (cases x)
  case (OpClaim q n dl)
  let ?js = "take (nat n) (rev (list_at (view R d) (pendingKey q)))"
  have "distinct ?js" using inv_pending_distinct [OF assms] by simp
  then have "count_list ?js i = (if i \<in> set ?js then 1 else 0)"
    by (rule count_list_distinct)
  then show ?thesis using claimScript_refines [of q n dl d] by (auto simp: OpClaim triple_ids_claim)
qed simp_all

lemma handed_out_runs:
  "runs (cogs_step R c) d xs d' \<Longrightarrow> job_inv (MaxRetries c) (view R d) \<Longrightarrow> config_ok c \<Longrightarrow>
   times_handed_out R c xs d i = deliveries c (r_lua_number R) xs (view R d) i
   \<and> run_acked R c xs d i = acked c (r_lua_number R) xs (view R d) i"
proof (induction rule: runs.induct)
  case (run_nil s)
  show ?case by simp
next
  case (run_cons s l t ls u)
  have t: "t = exec_op R c l s" and ok: "op_ok l (view R s)"
    using run_cons.hyps(1) by (simp_all add: cogs_step_def)
  have "view R t = a_op c (r_lua_number R) l (view R s)"
    using exec_refines [OF run_cons.prems(1,2) ok] by (simp add: t)
  moreover have "(case l of OpAck q js \<Rightarrow> i \<in> set js \<and> r_zscore R (leasedKey q) i s \<noteq> None | _ \<Rightarrow> False)
      = acks l (view R s) i"
    by (cases l) (simp_all add: view_reads)
  ultimately show ?case
    using run_cons.IH run_cons.prems step_inv [OF run_cons.hyps(1)]
      handed_out_delivers [OF run_cons.prems(1), of l i] by (simp add: t)
qed

lemma runs_durable:
  assumes "runs (cogs_step R c) d xs d'" and "job_inv (MaxRetries c) (view R d)" and "config_ok c"
    and "not_reused i xs" and "i \<in> live (view R d)"
  shows "if run_acked R c xs d i then i \<notin> live (view R d') else kept i (view R d) (view R d')"
  using run_kept [OF runs_refine [OF assms(1-3)] assms(2-5)] handed_out_runs [OF assms(1-3)] by simp

lemma runs_bounded_deliveries:
  assumes "runs (cogs_step R c) d xs d'" and "job_inv (MaxRetries c) (view R d)" and "config_ok c"
    and "not_reused i xs" and "i \<in> live (view R d)"
  shows "int (times_handed_out R c xs d i) \<le> max 0 (MaxRetries c) + 1 - job_attempts (view R d) i"
  using run_deliveries_bound [OF runs_refine [OF assms(1-3)] assms(2-5)] handed_out_runs [OF assms(1-3)] by simp

lemma step_lifecycle:
  assumes "cogs_step R c d x d'" and "job_inv (MaxRetries c) (view R d)" and "config_ok c"
  shows "lifecycle_eq (job_state (view R d) j) (job_state (view R d') j)"
  using op_lifecycle [OF assms(2,3)] assms exec_refines [OF assms(2,3)] by (simp add: cogs_step_def)

end

sublocale redis_db \<subseteq> db: transition_system "cogs_step R c" "\<lambda>d. job_inv (MaxRetries c) (view R d) \<and> config_ok c" for c
  by unfold_locales (auto intro: step_inv)

context redis_db
begin

lemma runs_inv:
  "runs (cogs_step R c) d xs d' \<Longrightarrow> job_inv (MaxRetries c) (view R d) \<Longrightarrow> config_ok c \<Longrightarrow>
   job_inv (MaxRetries c) (view R d')"
  using db.inv_runs by blast

end

end
