(* ===== verification/Cogs_Backoff.thy ===== *)
theory Cogs_Backoff
  imports Go_Lib
begin

section \<open>Retry backoff (Backoff of internal/cogs/loops.go)\<close>

text \<open>
  \<open>Backoff\<close> computes with \<open>float64\<close>. Every value it meets is a dyadic rational, so a float
  is written as a natural number over a fixed power of two, and \<open>round53\<close> is the rounding of
  IEEE 754 binary64 to 53 significant bits, ties to even. \<open>rand.Float64()\<close> is
  \<open>float64(rand.Int63n(1<<53)) / (1<<53)\<close>; its numerator is the argument \<open>rnd\<close>. Go leaves
  the conversion of an out-of-range float to \<open>int64\<close> to the implementation; its result is the
  argument \<open>oor\<close>.
\<close>

fun bit_length :: "nat \<Rightarrow> nat" where
  "bit_length n = (if n = 0 then 0 else Suc (bit_length (n div 2)))"

declare bit_length.simps [simp del]

definition round53 :: "nat \<Rightarrow> nat" where
  "round53 m =
     (let s = bit_length m - 53; q = m div 2 ^ s; r = m mod 2 ^ s
      in if s = 0 then m
         else (if r > 2 ^ (s - 1) \<or> r = 2 ^ (s - 1) \<and> odd q then q + 1 else q) * 2 ^ s)"

text \<open>\<open>0.5 + rand.Float64()*0.5\<close>, as a multiple of \<open>1 / 2 ^ 54\<close>.\<close>

definition jitter54 :: "nat \<Rightarrow> nat" where
  "jitter54 rnd = round53 (2 ^ 53 + rnd)"

definition Backoff :: "int \<Rightarrow> int \<Rightarrow> nat \<Rightarrow> int \<Rightarrow> int" where
  "Backoff base attempt0 rnd oor =
     (let attempt1 = (if attempt0 < 0 then 0 else attempt0);
          attempt = (if attempt1 > 20 then 20 else attempt1);
          nominal = i64 (base * 2 ^ nat attempt);
          prod = round53 (round53 (nat \<bar>nominal\<bar>) * jitter54 rnd);
          d = sgn nominal * int (prod div 2 ^ 54)
      in if - (2 ^ 63) \<le> d \<and> d < 2 ^ 63 then d else oor)"

subsection \<open>Rounding\<close>

lemma bit_length_bounds: "0 < n \<Longrightarrow> 2 ^ (bit_length n - 1) \<le> n \<and> n < 2 ^ bit_length n"
proof (induction n rule: bit_length.induct)
  case (1 n)
  show ?case
  proof (cases "n = 1")
    case True
    then show ?thesis by (simp add: bit_length.simps)
  next
    case False
    then have IH: "2 ^ (bit_length (n div 2) - 1) \<le> n div 2 \<and> n div 2 < 2 ^ bit_length (n div 2)"
      using 1 by auto
    have "n div 2 \<noteq> 0" using 1 False by auto
    then obtain b where b: "bit_length (n div 2) = Suc b" by (simp add: bit_length.simps [of "n div 2"])
    have "bit_length n = Suc (Suc b)" using 1 b by (simp add: bit_length.simps [of n])
    moreover have "2 * (n div 2) \<le> n" "n < 2 * (n div 2) + 2" by simp_all
    moreover have "2 ^ b \<le> n div 2" "n div 2 < 2 * 2 ^ b" using IH b by simp_all
    ultimately show ?thesis by simp
  qed
qed

text \<open>
  A number of at most 53 significant bits bounds the rounded value exactly when it bounds the
  value itself.
\<close>

lemma round53_lower:
  assumes "a < 2 ^ 53" and "a * 2 ^ k \<le> m"
  shows "a * 2 ^ k \<le> round53 m"
proof (cases "bit_length m - 53 = 0")
  case True
  then show ?thesis using assms by (simp add: round53_def)
next
  case False
  define s where "s = bit_length m - 53"
  have pos: "0 < m" using False by (auto simp: bit_length.simps [of m] split: if_splits)
  have "2 ^ (52 + s) \<le> m" using bit_length_bounds [OF pos] False by (simp add: s_def)
  moreover have "(2 :: nat) ^ (52 + s) = 2 ^ 52 * 2 ^ s" by (simp add: power_add)
  ultimately have top: "2 ^ 52 * 2 ^ s \<le> m div 2 ^ s * 2 ^ s"
    by (metis div_le_mono mult_le_mono1 nonzero_mult_div_cancel_right power_not_zero zero_neq_numeral)
  have floor: "m div 2 ^ s * 2 ^ s \<le> round53 m" using False by (simp add: round53_def Let_def s_def)
  have "a * 2 ^ k \<le> m div 2 ^ s * 2 ^ s"
  proof (cases "s \<le> k")
    case True
    then have "a * 2 ^ k = a * 2 ^ (k - s) * 2 ^ s" by (simp flip: power_add)
    then show ?thesis using assms(2) by (metis div_le_mono mult_le_mono1 nonzero_mult_div_cancel_right power_not_zero zero_neq_numeral)
  next
    case False
    then have "(2 :: nat) ^ k * 2 \<le> 2 ^ s"
      by (metis Suc_leI not_le power_Suc2 power_increasing one_le_numeral)
    then have "a * 2 ^ k * 2 \<le> 2 ^ 53 * 2 ^ s"
      using assms(1) mult_le_mono [of a "2 ^ 53" "2 ^ k * 2" "2 ^ s"] by simp
    then have "a * 2 ^ k \<le> 2 ^ 52 * 2 ^ s" by simp
    then show ?thesis using top by (rule order_trans)
  qed
  then show ?thesis using floor by (rule order_trans)
qed

lemma round53_upper:
  assumes "a < 2 ^ 53" and "m \<le> a * 2 ^ k"
  shows "round53 m \<le> a * 2 ^ k"
proof (cases "bit_length m - 53 = 0")
  case True
  then show ?thesis using assms by (simp add: round53_def)
next
  case False
  define s where "s = bit_length m - 53"
  have pos: "0 < m" using False by (auto simp: bit_length.simps [of m] split: if_splits)
  have top: "2 ^ (52 + s) \<le> m" using bit_length_bounds [OF pos] False by (simp add: s_def)
  have "s \<le> k"
  proof (rule ccontr)
    assume "\<not> s \<le> k"
    then have "(2 :: nat) ^ (53 + k) \<le> 2 ^ (52 + s)" by (intro power_increasing) simp_all
    then have "(2 :: nat) ^ 53 * 2 ^ k \<le> 2 ^ (52 + s)" by (simp only: power_add)
    moreover have "a * 2 ^ k < 2 ^ 53 * 2 ^ k" using assms(1) by simp
    ultimately show False using top assms(2) by linarith
  qed
  then have F: "a * 2 ^ k = a * 2 ^ (k - s) * 2 ^ s" by (simp flip: power_add)
  have "(if m mod 2 ^ s = 0 then m div 2 ^ s else m div 2 ^ s + 1) \<le> a * 2 ^ (k - s)"
  proof -
    have m: "m div 2 ^ s * 2 ^ s + m mod 2 ^ s = m" by (rule div_mult_mod_eq)
    show ?thesis
    proof (cases "m mod 2 ^ s = 0")
      case True
      then have "m div 2 ^ s * 2 ^ s \<le> a * 2 ^ (k - s) * 2 ^ s" using m assms(2) F by simp
      then show ?thesis using True by simp
    next
      case False
      then have "m div 2 ^ s * 2 ^ s < a * 2 ^ (k - s) * 2 ^ s" using m assms(2) F by linarith
      then show ?thesis using False by simp
    qed
  qed
  then have "(if m mod 2 ^ s = 0 then m div 2 ^ s else m div 2 ^ s + 1) * 2 ^ s \<le> a * 2 ^ k"
    unfolding F by (rule mult_le_mono1)
  moreover have "round53 m \<le> (if m mod 2 ^ s = 0 then m div 2 ^ s else m div 2 ^ s + 1) * 2 ^ s"
    using False by (auto simp: round53_def Let_def s_def)
  ultimately show ?thesis by (rule order_trans [rotated])
qed

lemma round53_exact: "m < 2 ^ 53 \<Longrightarrow> round53 m = m"
  using round53_lower [of m 0 m] round53_upper [of m m 0] by simp

lemma jitter54_bounds: "rnd < 2 ^ 53 \<Longrightarrow> 2 ^ 53 \<le> jitter54 rnd \<and> jitter54 rnd \<le> 2 ^ 54"
  using round53_lower [of 1 53 "2 ^ 53 + rnd"] round53_upper [of 1 "2 ^ 53 + rnd" 54]
  by (simp add: jitter54_def)

lemma jittered_bounds:
  assumes "n < 2 ^ 53" and "rnd < 2 ^ 53"
  shows "n div 2 \<le> round53 (round53 n * jitter54 rnd) div 2 ^ 54"
    and "round53 (round53 n * jitter54 rnd) div 2 ^ 54 \<le> n"
proof -
  note j = jitter54_bounds [OF assms(2)]
  have "n * 2 ^ 53 \<le> round53 (n * jitter54 rnd)"
    using j by (intro round53_lower [OF assms(1)] mult_le_mono2) simp
  then have "n * 2 ^ 53 div 2 ^ 54 \<le> round53 (n * jitter54 rnd) div 2 ^ 54" by (rule div_le_mono)
  moreover have "n * 2 ^ 53 div 2 ^ 54 = n div (2 :: nat)" by simp
  ultimately show "n div 2 \<le> round53 (round53 n * jitter54 rnd) div 2 ^ 54"
    using assms(1) by (simp add: round53_exact)
  have "round53 (n * jitter54 rnd) \<le> n * 2 ^ 54"
    using j by (intro round53_upper [OF assms(1)] mult_le_mono2) simp
  then have "round53 (n * jitter54 rnd) div 2 ^ 54 \<le> n * 2 ^ 54 div 2 ^ 54" by (rule div_le_mono)
  then show "round53 (round53 n * jitter54 rnd) div 2 ^ 54 \<le> n" using assms(1) by (simp add: round53_exact)
qed

text \<open>The clamped exponent.\<close>

definition backoff_exponent :: "int \<Rightarrow> nat" where
  "backoff_exponent attempt = nat (min 20 (max 0 attempt))"

lemma Backoff_bounds:
  assumes "0 \<le> base" and "base * 2 ^ backoff_exponent attempt < 2 ^ 53" and "rnd < 2 ^ 53"
  shows "base * 2 ^ backoff_exponent attempt div 2 \<le> Backoff base attempt rnd oor"
    and "Backoff base attempt rnd oor \<le> base * 2 ^ backoff_exponent attempt"
proof -
  define N where "N = base * 2 ^ backoff_exponent attempt"
  define n where "n = nat N"
  have N: "0 \<le> N" "N < 2 ^ 53" using assms(1,2) by (simp_all add: N_def)
  have n: "n < 2 ^ 53" "int n = N" using N by (simp_all add: n_def nat_less_iff)
  define r where "r = round53 (round53 n * jitter54 rnd) div 2 ^ 54"
  have r: "n div 2 \<le> r" "r \<le> n" using jittered_bounds [OF n(1) assms(3)] by (simp_all add: r_def)
  have exp: "nat (if (if attempt < 0 then 0 else attempt) > 20 then 20 else if attempt < 0 then 0 else attempt)
    = backoff_exponent attempt" by (simp add: backoff_exponent_def)
  have "i64 N = N" using N by (intro i64_id) simp_all
  then have "Backoff base attempt rnd oor = (if - (2 ^ 63) \<le> sgn N * int r \<and> sgn N * int r < 2 ^ 63 then sgn N * int r else oor)"
    using N unfolding Backoff_def Let_def exp N_def [symmetric] by (simp add: r_def n_def)
  moreover have "sgn N * int r = int r" using N r n by (cases "N = 0") simp_all
  moreover have "int r < 2 ^ 63" using r n N by simp
  ultimately have b: "Backoff base attempt rnd oor = int r" by simp
  have "int (n div 2) = N div 2" using n(2) by (simp add: zdiv_int)
  then show "base * 2 ^ backoff_exponent attempt div 2 \<le> Backoff base attempt rnd oor"
    unfolding N_def [symmetric] b using r(1) by linarith
  show "Backoff base attempt rnd oor \<le> base * 2 ^ backoff_exponent attempt"
    unfolding N_def [symmetric] b using r(2) n(2) by linarith
qed

end
