(* ===== verification/Cogs_Store.thy ===== *)
theory Cogs_Store
  imports Job_Runs Cogs_Backoff
begin

section \<open>The store (the operations of internal/cogs/store.go)\<close>

text \<open>
  Each method of \<open>Store\<close> as the code has it: arguments it prepares, the script or command it
  sends, how it reads the reply and which error it returns. What the code gets from outside is an
  argument: the clock (\<open>now\<close>, in ms), the random bytes, and per round trip a \<open>net\<close>, what the
  network did to it. A method that makes several round trips takes \<open>turns\<close>: before the i-th one
  the other processes have had their turn, an arbitrary function on the database.
\<close>

subsection \<open>Errors and round trips\<close>

datatype error = ErrLeaseGone | ErrNotFound | ErrOther string

text \<open>
  A round trip is delivered, is lost before Redis runs it, or runs while its reply is lost; the
  caller cannot tell the last two apart.
\<close>

datatype net = Delivered | LostRequest string | LostReply string

definition roundtrip :: "net \<Rightarrow> ('db \<Rightarrow> (string + 'a) \<times> 'db) \<Rightarrow> 'db \<Rightarrow> (string + 'a) \<times> 'db" where
  "roundtrip net f d =
     (case net of
        Delivered \<Rightarrow> f d
      | LostRequest e \<Rightarrow> (Inl e, d)
      | LostReply e \<Rightarrow> (Inl e, snd (f d)))"

lemma roundtrip_simps [simp]:
  "roundtrip Delivered f d = f d" "roundtrip (LostRequest e) f d = (Inl e, d)"
  "roundtrip (LostReply e) f d = (Inl e, snd (f d))"
  by (simp_all add: roundtrip_def)

text \<open>A read: a command that never fails by itself.\<close>

definition readtrip :: "net \<Rightarrow> ('db \<Rightarrow> 'a) \<Rightarrow> 'db \<Rightarrow> string + 'a" where
  "readtrip net f d = (case net of Delivered \<Rightarrow> Inr (f d) | LostRequest e \<Rightarrow> Inl e | LostReply e \<Rightarrow> Inl e)"

text \<open>A returned value or a run-time panic.\<close>

datatype 'a outcome = Return 'a | Panic string

text \<open>Reading a field of a Go map: the zero value when it is absent.\<close>

definition field :: "(string \<times> string) list \<Rightarrow> string \<Rightarrow> string" where
  "field m f = (case map_of m f of None \<Rightarrow> '''' | Some x \<Rightarrow> x)"

subsection \<open>Replies of a script\<close>

text \<open>
  What \<open>Slice()\<close> and its items are in Go: an \<open>int64\<close>, a string, nil or a slice. The two scripts
  that answer a list answer \<open>enqueue_slice\<close> and \<open>drain_slice\<close> of what they compute; neither answers a
  list of another length, and the error for one, which prints the reply, is cut short.
\<close>

datatype reply = IntReply int | TextReply string | NilReply | ListReply "reply list"

fun toStrings :: "reply \<Rightarrow> string list" where
  "toStrings (ListReply items) = concat (map (\<lambda>it. case it of TextReply s \<Rightarrow> [s] | _ \<Rightarrow> []) items)"
| "toStrings _ = []"

text \<open>\<open>x, _ := v.(int64)\<close> and \<open>x, _ := v.(string)\<close>: the zero value on any other type.\<close>

fun as_int :: "reply \<Rightarrow> int" where
  "as_int (IntReply n) = n"
| "as_int _ = 0"

fun as_text :: "reply \<Rightarrow> string" where
  "as_text (TextReply s) = s"
| "as_text _ = ''''"

definition enqueue_slice :: "int \<times> string option \<Rightarrow> reply list" where
  "enqueue_slice r = [IntReply (fst r), case snd r of None \<Rightarrow> NilReply | Some s \<Rightarrow> TextReply s]"

definition drain_slice :: "job_id list \<times> job_id list \<Rightarrow> reply list" where
  "drain_slice r = [ListReply (map TextReply (fst r)), ListReply (map TextReply (snd r))]"

lemma toStrings_texts [simp]: "toStrings (ListReply (map TextReply xs)) = xs"
  by (induction xs) simp_all

lemma slices [simp]:
  "length (enqueue_slice r) = 2" "as_int (enqueue_slice r ! 0) = fst r"
  "as_text (enqueue_slice r ! Suc 0) = reply_or (snd r) ''''"
  "length (drain_slice s) = 2" "toStrings (drain_slice s ! 0) = fst s" "toStrings (drain_slice s ! Suc 0) = snd s"
  by (simp_all add: enqueue_slice_def drain_slice_def reply_or_def split: option.split del: toStrings.simps)

subsection \<open>Enqueue\<close>

text \<open>
  \<open>int(s.cfg.IdempotencyWindow.Seconds())\<close>; the float it goes through is exact for the whole
  seconds \<open>LoadConfig\<close> produces.
\<close>

definition window_seconds :: "config \<Rightarrow> int" where
  "window_seconds c = IdempotencyWindow c sdiv Second"

definition Enqueue ::
  "'db redis \<Rightarrow> config \<Rightarrow> 8 word list option \<Rightarrow> int \<Rightarrow> net \<Rightarrow> queue \<Rightarrow> string \<Rightarrow> string \<Rightarrow>
   'db \<Rightarrow> (error + job_id \<times> bool) \<times> 'db" where
  "Enqueue R c rnd now net queue payload0 idem d =
     (case NewID rnd of
        Inl e \<Rightarrow> (Inl (ErrOther e), d)
      | Inr newID \<Rightarrow>
          let payload = (if payload0 = '''' then ''null'' else payload0) in
          (case roundtrip net (enqueueScript R (jobKey newID) (pendingKey queue) (idemKey idem)
                 newID payload queue (itoa now) idem (window_seconds c)) d of
             (Inl e, d') \<Rightarrow> (Inl (ErrOther (''enqueue: '' @ e)), d')
           | (Inr r, d') \<Rightarrow>
               let res = enqueue_slice r in
               if length res \<noteq> 2 then (Inl (ErrOther ''enqueue: unexpected reply''), d')
               else (Inr (as_text (res ! 1), as_int (res ! 0) = 1), d')))"

subsection \<open>Claim\<close>

fun parse_triples :: "queue \<Rightarrow> int \<Rightarrow> string list \<Rightarrow> job list" where
  "parse_triples q deadline (jid # payload # attemptsStr # vals) =
     \<lparr>Job_ID = jid, Job_Queue = q, Job_Payload = payload, Job_Attempts = fst (parse_int attemptsStr),
      Job_IdempotencyKey = '''', Job_CreatedAt = 0, Job_LeaseDeadline = deadline\<rparr>
     # parse_triples q deadline vals"
| "parse_triples q deadline _ = []"

type_synonym 'db turns = "nat \<Rightarrow> net \<times> ('db \<Rightarrow> 'db)"

definition next_turns :: "'db turns \<Rightarrow> 'db turns" where
  "next_turns turns = (\<lambda>i. turns (Suc i))"

definition quiet :: "'db turns" where
  "quiet = (\<lambda>_. (Delivered, \<lambda>d. d))"

lemma quiet_simps [simp]:
  "fst (quiet i) = Delivered" "snd (quiet i) d = d" "next_turns quiet = quiet"
  by (simp_all add: quiet_def next_turns_def)

fun claim_queues ::
  "'db redis \<Rightarrow> int \<Rightarrow> int \<Rightarrow> queue list \<Rightarrow> job list \<Rightarrow> 'db turns \<Rightarrow> 'db \<Rightarrow> (error + job list) \<times> 'db" where
  "claim_queues R batch deadline [] jobs turns d = (Inr jobs, d)"
| "claim_queues R batch deadline (q # qs) jobs turns d =
     (if int (length jobs) \<ge> batch then (Inr jobs, d)
      else (case roundtrip (fst (turns 0))
                (claimScript R (pendingKey q) (leasedKey q) (batch - int (length jobs)) deadline)
                (snd (turns 0) d) of
          (Inl e, d') \<Rightarrow> (Inl (ErrOther (''claim '' @ q @ '': '' @ e)), d')
        | (Inr vals, d') \<Rightarrow>
            claim_queues R batch deadline qs (jobs @ parse_triples q deadline vals) (next_turns turns) d'))"

definition clamp_batch :: "config \<Rightarrow> int \<Rightarrow> int" where
  "clamp_batch c batch0 =
     (let batch1 = (if batch0 < 1 then 1 else batch0)
      in if batch1 > MaxClaimBatch c then MaxClaimBatch c else batch1)"

text \<open>\<open>nowMS() + s.cfg.LeaseTTL.Milliseconds()\<close>, an \<open>int64\<close> sum.\<close>

definition lease_deadline :: "config \<Rightarrow> int \<Rightarrow> int" where
  "lease_deadline c now = i64 (now + milliseconds (LeaseTTL c))"

text \<open>\<open>make([]Job, 0, batch)\<close> panics on a negative capacity.\<close>

definition Claim ::
  "'db redis \<Rightarrow> config \<Rightarrow> int \<Rightarrow> 'db turns \<Rightarrow> queue list \<Rightarrow> int \<Rightarrow> 'db \<Rightarrow> (error + job list) outcome \<times> 'db" where
  "Claim R c now turns queues batch0 d =
     (let batch = clamp_batch c batch0; deadline = lease_deadline c now
      in if batch < 0 then (Panic ''makeslice: cap out of range'', d)
         else (case claim_queues R batch deadline queues [] turns d of (r, d') \<Rightarrow> (Return r, d')))"

subsection \<open>Renew, Ack, Fail\<close>

definition Renew ::
  "'db redis \<Rightarrow> config \<Rightarrow> int \<Rightarrow> net \<Rightarrow> queue \<Rightarrow> job_id \<Rightarrow> 'db \<Rightarrow> (error + int) \<times> 'db" where
  "Renew R c now net queue jid d =
     (let deadline = lease_deadline c now in
      (case roundtrip net (renewScript R (leasedKey queue) jid deadline) d of
         (Inl e, d') \<Rightarrow> (Inl (ErrOther (''renew: '' @ e)), d')
       | (Inr ok, d') \<Rightarrow> if ok = 0 then (Inl ErrLeaseGone, d') else (Inr deadline, d')))"

definition Ack :: "'db redis \<Rightarrow> net \<Rightarrow> queue \<Rightarrow> job_id list \<Rightarrow> 'db \<Rightarrow> (error + int) \<times> 'db" where
  "Ack R net queue ids d =
     (if ids = [] then (Inr 0, d)
      else (case roundtrip net (ackScript R (leasedKey queue) ids) d of
          (Inl e, d') \<Rightarrow> (Inl (ErrOther (''ack: '' @ e)), d')
        | (Inr n, d') \<Rightarrow> (Inr n, d')))"

text \<open>\<open>nowMS() + Backoff(s.cfg.BackoffBase, attempt).Milliseconds()\<close>\<close>

definition retry_at :: "config \<Rightarrow> int \<Rightarrow> int \<Rightarrow> nat \<Rightarrow> int \<Rightarrow> int" where
  "retry_at c now attempt rnd oor = i64 (now + milliseconds (Backoff (BackoffBase c) attempt rnd oor))"

definition Fail ::
  "'db redis \<Rightarrow> config \<Rightarrow> int \<Rightarrow> nat \<Rightarrow> int \<Rightarrow> net \<Rightarrow> queue \<Rightarrow> job_id \<Rightarrow> int \<Rightarrow> 'db \<Rightarrow> (error + job_state) \<times> 'db" where
  "Fail R c now rnd oor net queue jid attempt d =
     (let nextAt = retry_at c now attempt rnd oor in
      (case roundtrip net
              (failScript R (leasedKey queue) (retryKey queue) (deadKey queue) jid nextAt (MaxRetries c)) d of
         (Inl e, d') \<Rightarrow> (Inl (ErrOther (''fail: '' @ e)), d')
       | (Inr r, d') \<Rightarrow>
           if r = - 1 then (Inl ErrLeaseGone, d')
           else if r = 2 then (Inr StateDead, d')
           else (Inr StateRetry, d')))"

subsection \<open>drain\<close>

definition drain ::
  "'db redis \<Rightarrow> config \<Rightarrow> int \<Rightarrow> net \<Rightarrow> key \<Rightarrow> queue \<Rightarrow> bool \<Rightarrow>
   'db \<Rightarrow> (error + job_id list \<times> job_id list) \<times> 'db" where
  "drain R c now net dueK queue bumpAttempts d =
     (let bump = (if bumpAttempts then 1 else 0) in
      (case roundtrip net
              (drainScript R dueK (pendingKey queue) (deadKey queue) now (DrainLimit c) bump (MaxRetries c)) d of
         (Inl e, d') \<Rightarrow> (Inl (ErrOther e), d')
       | (Inr r, d') \<Rightarrow>
           let res = drain_slice r in
           if length res \<noteq> 2 then (Inl (ErrOther ''drain: unexpected reply''), d')
           else (Inr (toStrings (res ! 0), toStrings (res ! 1)), d')))"

definition RunDrainForTest ::
  "'db redis \<Rightarrow> config \<Rightarrow> int \<Rightarrow> net \<Rightarrow> queue \<Rightarrow> bool \<Rightarrow>
   'db \<Rightarrow> (error + job_id list \<times> job_id list) \<times> 'db" where
  "RunDrainForTest R c now net queue bumpAttempts d =
     (let dueK = (if \<not> bumpAttempts then retryKey queue else leasedKey queue)
      in drain R c now net dueK queue bumpAttempts d)"

subsection \<open>Reads: Job, Stats, DeadJobs\<close>

definition Job :: "'db redis \<Rightarrow> net \<Rightarrow> job_id \<Rightarrow> 'db \<Rightarrow> error + job" where
  "Job R net jid d =
     (case readtrip net (r_hgetall R (jobKey jid)) d of
        Inl e \<Rightarrow> Inl (ErrOther e)
      | Inr m \<Rightarrow>
          if m = [] then Inl ErrNotFound
          else Inr \<lparr>Job_ID = jid, Job_Queue = field m ''queue'', Job_Payload = field m ''payload'',
                 Job_Attempts = fst (parse_int (field m ''attempts'')),
                 Job_IdempotencyKey = field m ''idempotency_key'',
                 Job_CreatedAt = fst (parse_int (field m ''created_at'')), Job_LeaseDeadline = 0\<rparr>)"

record queue_stats =
  Stats_Queue :: queue
  Stats_Pending :: int
  Stats_Leased :: int
  Stats_Retry :: int
  Stats_Dead :: int

text \<open>
  The pipeline sends four commands in one round trip; it is not a transaction, so each sees the
  database of its own moment, \<open>d1\<close> to \<open>d4\<close>.
\<close>

definition Stats :: "'db redis \<Rightarrow> net \<Rightarrow> queue \<Rightarrow> 'db \<Rightarrow> 'db \<Rightarrow> 'db \<Rightarrow> 'db \<Rightarrow> error + queue_stats" where
  "Stats R net queue d1 d2 d3 d4 =
     (case readtrip net (\<lambda>_. \<lparr>Stats_Queue = queue, Stats_Pending = r_llen R (pendingKey queue) d1,
              Stats_Leased = r_zcard R (leasedKey queue) d2, Stats_Retry = r_zcard R (retryKey queue) d3,
              Stats_Dead = r_llen R (deadKey queue) d4\<rparr>) d4 of
        Inl e \<Rightarrow> Inl (ErrOther e)
      | Inr s \<Rightarrow> Inr s)"

definition DeadJobs :: "'db redis \<Rightarrow> net \<Rightarrow> queue \<Rightarrow> int \<Rightarrow> 'db \<Rightarrow> error + job_id list" where
  "DeadJobs R net queue limit d =
     (case readtrip net (r_lrange R (deadKey queue) 0 (limit - 1)) d of
        Inl e \<Rightarrow> Inl (ErrOther e)
      | Inr ids \<Rightarrow> Inr ids)"

subsection \<open>KnownQueues\<close>

text \<open>
  The inner loop follows SCAN's cursor until it is 0 again; \<open>None\<close> means the fuel ran out. The
  map \<open>seen\<close> is the list of its keys in the order they were first set; \<open>order\<close> is the order in
  which Go ranges over a map. The i-th pattern's scan has its own \<open>turns i\<close>.
\<close>

fun add_seen :: "key list \<Rightarrow> queue list \<Rightarrow> queue list" where
  "add_seen [] seen = seen"
| "add_seen (k # ks) seen =
     (let q = queueFromKey k in
      add_seen ks (if q \<noteq> '''' \<and> q \<notin> set seen then seen @ [q] else seen))"

fun scan_loop ::
  "'db redis \<Rightarrow> 'db turns \<Rightarrow> nat \<Rightarrow> int \<Rightarrow> string \<Rightarrow> queue list \<Rightarrow> 'db \<Rightarrow> ((string + queue list) \<times> 'db) option" where
  "scan_loop R turns 0 cursor pat seen d = None"
| "scan_loop R turns (Suc fuel) cursor pat seen d =
     (let d' = snd (turns 0) d in
      (case readtrip (fst (turns 0)) (r_scan R cursor pat 256) d' of
         Inl e \<Rightarrow> Some (Inl e, d')
       | Inr (ks, next) \<Rightarrow>
           let seen' = add_seen ks seen in
           if next = 0 then Some (Inr seen', d')
           else scan_loop R (next_turns turns) fuel next pat seen' d'))"

definition scan_patterns :: "string list" where
  "scan_patterns = [''queue:*:pending'', ''queue:*:leased'', ''queue:*:retry'']"

fun scan_all ::
  "'db redis \<Rightarrow> (nat \<Rightarrow> 'db turns) \<Rightarrow> nat \<Rightarrow> string list \<Rightarrow> queue list \<Rightarrow> 'db \<Rightarrow>
   ((string + queue list) \<times> 'db) option" where
  "scan_all R turns fuel [] seen d = Some (Inr seen, d)"
| "scan_all R turns fuel (pat # pats) seen d =
     (case scan_loop R (turns 0) fuel 0 pat seen d of
        None \<Rightarrow> None
      | Some (Inl e, d') \<Rightarrow> Some (Inl e, d')
      | Some (Inr seen', d') \<Rightarrow> scan_all R (\<lambda>i. turns (Suc i)) fuel pats seen' d')"

definition KnownQueues ::
  "'db redis \<Rightarrow> (queue list \<Rightarrow> queue list) \<Rightarrow> (nat \<Rightarrow> 'db turns) \<Rightarrow> nat \<Rightarrow> 'db \<Rightarrow>
   ((error + queue list) \<times> 'db) option" where
  "KnownQueues R order turns fuel d =
     (case scan_all R turns fuel scan_patterns [] d of
        None \<Rightarrow> None
      | Some (Inl e, d') \<Rightarrow> Some (Inl (ErrOther e), d')
      | Some (Inr seen, d') \<Rightarrow> Some (Inr (order seen), d'))"

end
