(* ===== verification/Store_Laws.thy ===== *)
theory Store_Laws
  imports Cogs_Store "HOL-Library.Multiset"
begin

section \<open>What the store's operations do\<close>

text \<open>
  The functional behaviour of each operation over any Redis that satisfies the laws, and what a
  lost request or a lost reply can do.
\<close>

subsection \<open>Claim\<close>

definition claimed_job :: "rview \<Rightarrow> int \<Rightarrow> queue \<Rightarrow> job_id \<Rightarrow> job" where
  "claimed_job v deadline q j = \<lparr>Job_ID = j, Job_Queue = q,
     Job_Payload = (case hash_at v (jobKey j) ''payload'' of None \<Rightarrow> '''' | Some x \<Rightarrow> x),
     Job_Attempts = job_attempts v j, Job_IdempotencyKey = '''', Job_CreatedAt = 0,
     Job_LeaseDeadline = deadline\<rparr>"

lemma parse_int_zero [simp]: "fst (parse_int ''0'') = 0"
  using parse_int_itoa [of 0] by (simp add: itoa_def nat_digits.simps char_of_def bit_numeral_rec bit_1_iff bit_0 bit_Suc)

lemma parse_triples_claim:
  "parse_triples q dl (concat (map (claim_triple v) js)) = map (claimed_job v dl q) js"
  by (induction js) (simp_all add: claim_triple_def claimed_job_def job_attempts_def split: option.splits)

text \<open>What the queues offer, in the order of the request and first in, first out.\<close>

definition offered :: "rview \<Rightarrow> queue list \<Rightarrow> (queue \<times> job_id) list" where
  "offered v qs = concat (map (\<lambda>q. map (Pair q) (rev (list_at v (pendingKey q)))) qs)"

lemma offered_Cons: "offered v (q # qs) = map (Pair q) (rev (list_at v (pendingKey q))) @ offered v qs"
  by (simp add: offered_def)

lemma claim_reads:
  "hash_at (a_claim n q dl v) = hash_at v"
  "q' \<noteq> q \<Longrightarrow> list_at (a_claim n q dl v) (pendingKey q') = list_at v (pendingKey q')"
  by (simp_all add: a_claim_def Let_def)

lemma claimed_job_claim [simp]: "claimed_job (a_claim n q dl v) = claimed_job v"
  by (simp add: fun_eq_iff claimed_job_def job_attempts_def claim_reads)

lemma offered_claim: "q \<notin> set qs \<Longrightarrow> offered (a_claim n q dl v) qs = offered v qs"
  by (induction qs) (auto simp: offered_def claim_reads)

fun a_claims :: "int \<Rightarrow> int \<Rightarrow> queue list \<Rightarrow> rview \<Rightarrow> rview" where
  "a_claims dl room [] v = v"
| "a_claims dl room (q # qs) v =
     (if room \<le> 0 then v
      else a_claims dl (room - int (length (list_at v (pendingKey q)))) qs (a_claim (nat room) q dl v))"

context redis_db
begin

lemma claim_queues_quiet:
  assumes "distinct qs"
  shows "\<exists>d'. claim_queues R batch dl qs jobs quiet d
      = (Inr (jobs @ map (\<lambda>(q, j). claimed_job (view R d) dl q j)
           (take (nat (batch - int (length jobs))) (offered (view R d) qs))), d')
    \<and> view R d' = a_claims dl (batch - int (length jobs)) qs (view R d)"
  using assms
proof (induction qs arbitrary: jobs d)
  case Nil
  then show ?case by (simp add: offered_def)
next
  case (Cons q qs)
  let ?v = "view R d" and ?room = "batch - int (length jobs)"
  let ?js = "take (nat ?room) (rev (list_at ?v (pendingKey q)))"
  show ?case
  proof (cases "int (length jobs) \<ge> batch")
    case True
    then show ?thesis by simp
  next
    case False
    obtain d1 where c: "claimScript R (pendingKey q) (leasedKey q) ?room dl d
        = (Inr (concat (map (claim_triple ?v) ?js)), d1)" and v1: "view R d1 = a_claim (nat ?room) q dl ?v"
      using claimScript_refines [of q ?room dl d] by blast
    let ?jobs1 = "jobs @ map (claimed_job ?v dl q) ?js"
    have len: "nat (batch - int (length ?jobs1)) = nat ?room - length (list_at ?v (pendingKey q))"
      using False by simp
    have loop: "claim_queues R batch dl (q # qs) jobs quiet d = claim_queues R batch dl qs ?jobs1 quiet d1"
      using False c by (simp add: parse_triples_claim)
    have room: "a_claims dl (batch - int (length ?jobs1)) qs w
        = a_claims dl (?room - int (length (list_at ?v (pendingKey q)))) qs w" for w
    proof (cases "nat ?room \<le> length (list_at ?v (pendingKey q))")
      case True
      then have "batch - int (length ?jobs1) \<le> 0" "?room - int (length (list_at ?v (pendingKey q))) \<le> 0"
        using False by auto
      then show ?thesis by (cases qs) simp_all
    next
      case False
      then show ?thesis using \<open>\<not> int (length jobs) \<ge> batch\<close> by (simp add: min_def algebra_simps)
    qed
    have split: "take (nat ?room) (offered ?v (q # qs))
        = map (Pair q) ?js @ take (nat (batch - int (length ?jobs1))) (offered ?v qs)"
      unfolding len by (simp add: offered_Cons take_map)
    show ?thesis
      using Cons.IH [of ?jobs1 d1] Cons.prems False unfolding loop split room
      by (simp add: v1 offered_claim comp_def)
  qed
qed

lemma Claim_quiet:
  assumes "distinct qs" and "0 \<le> MaxClaimBatch c"
  shows "\<exists>d'. Claim R c now quiet qs batch d
      = (Return (Inr (map (\<lambda>(q, j). claimed_job (view R d) (lease_deadline c now) q j)
           (take (nat (clamp_batch c batch)) (offered (view R d) qs)))), d')
    \<and> view R d' = a_claims (lease_deadline c now) (clamp_batch c batch) qs (view R d)"
proof -
  have "\<not> clamp_batch c batch < 0" using assms(2) by (simp add: clamp_batch_def Let_def)
  then show ?thesis
    using claim_queues_quiet [OF assms(1), of "clamp_batch c batch" "lease_deadline c now" "[]" d]
    by (auto simp: Claim_def)
qed

end

subsection \<open>KnownQueues\<close>

lemma set_add_seen: "set (add_seen ks seen) = set seen \<union> ({q. q \<noteq> ''''} \<inter> queueFromKey ` set ks)"
  by (induction ks arbitrary: seen) (auto simp: Let_def)

lemma distinct_add_seen: "distinct seen \<Longrightarrow> distinct (add_seen ks seen)"
  by (induction ks arbitrary: seen) (auto simp: Let_def)

lemma add_seen_append: "add_seen (ks @ ks') seen = add_seen ks' (add_seen ks seen)"
  by (induction ks arbitrary: seen) (auto simp: Let_def)

text \<open>A queue the passes must visit: one with a pending, leased or waiting job.\<close>

definition active_queue :: "rview \<Rightarrow> queue \<Rightarrow> bool" where
  "active_queue v q \<longleftrightarrow> q \<noteq> '''' \<and>
     (list_at v (pendingKey q) \<noteq> [] \<or> zset_at v (leasedKey q) \<noteq> Map.empty \<or> zset_at v (retryKey q) \<noteq> Map.empty)"


lemma queue_keys_image:
  assumes "\<And>q. queueFromKey (K q) = q"
  shows "{q. q \<noteq> ''''} \<inter> queueFromKey ` {k. P k \<and> (\<exists>mid. k = K mid)} = {q. q \<noteq> '''' \<and> P (K q)}"
proof (intro set_eqI iffI)
  fix q assume "q \<in> {q. q \<noteq> '''' \<and> P (K q)}"
  then show "q \<in> {q. q \<noteq> ''''} \<inter> queueFromKey ` {k. P k \<and> (\<exists>mid. k = K mid)}"
    using assms [of q] by (auto intro!: image_eqI [of q queueFromKey "K q"])
qed (auto simp: assms)

context redis_db
begin

lemma scan_loop_pages:
  "scan_pages R pat 256 cursor ps d \<Longrightarrow> length ps \<le> fuel \<Longrightarrow>
   scan_loop R quiet fuel cursor pat seen d = Some (Inr (add_seen (concat ps) seen), d)"
proof (induction ps arbitrary: cursor seen fuel)
  case Nil
  then show ?case by simp
next
  case (Cons p ps)
  obtain f where f: "fuel = Suc f" using Cons.prems(2) by (cases fuel) auto
  obtain ks nx where s: "r_scan R cursor pat 256 d = (ks, nx)" by fastforce
  have loop: "scan_loop R quiet fuel cursor pat seen d =
      (if nx = 0 then Some (Inr (add_seen ks seen), d) else scan_loop R quiet f nx pat (add_seen ks seen) d)"
    by (simp add: f readtrip_def s)
  show ?case
  proof (cases "nx = 0")
    case True
    then show ?thesis using Cons.prems(1) s unfolding loop by simp
  next
    case False
    then show ?thesis
      using Cons.IH [of nx f "add_seen ks seen"] Cons.prems s unfolding loop by (simp add: f add_seen_append)
  qed
qed

lemma scan_pattern:
  assumes "set pre \<inter> glob_special = {}" and "set post \<inter> glob_special = {}"
  shows "\<exists>n ks. (\<forall>fuel \<ge> n. \<forall>seen. scan_loop R quiet fuel 0 (pre @ CHR ''*'' # post) seen d
        = Some (Inr (add_seen ks seen), d))
    \<and> set ks = {k. key_present (view R d) k \<and> (\<exists>mid. k = pre @ mid @ post)}"
proof -
  obtain ps where "scan_pages R (pre @ CHR ''*'' # post) 256 0 ps d"
    "set (concat ps) = {k. key_present (view R d) k \<and> (\<exists>mid. k = pre @ mid @ post)}"
    using scan [of 256 pre post d] assms by auto
  then show ?thesis using scan_loop_pages by blast
qed

lemma KnownQueues_quiet:
  assumes order: "\<And>xs. mset (order xs) = mset xs"
  shows "\<exists>n. \<forall>fuel \<ge> n. \<exists>qs. KnownQueues R order (\<lambda>_. quiet) fuel d = Some (Inr qs, d)
    \<and> distinct qs \<and> set qs = {q. active_queue (view R d) q}"
proof -
  let ?v = "view R d"
  have clean: "set ''queue:'' \<inter> glob_special = {}" "set '':pending'' \<inter> glob_special = {}"
    "set '':leased'' \<inter> glob_special = {}" "set '':retry'' \<inter> glob_special = {}"
    by (simp_all add: glob_special_def)
  obtain n1 k1 where 1: "\<forall>fuel \<ge> n1. \<forall>seen. scan_loop R quiet fuel 0 ''queue:*:pending'' seen d
        = Some (Inr (add_seen k1 seen), d)"
      "set k1 = {k. key_present ?v k \<and> (\<exists>mid. k = pendingKey mid)}"
    using scan_pattern [OF clean(1,2), of d] by (auto simp: key_defs)
  obtain n2 k2 where 2: "\<forall>fuel \<ge> n2. \<forall>seen. scan_loop R quiet fuel 0 ''queue:*:leased'' seen d
        = Some (Inr (add_seen k2 seen), d)"
      "set k2 = {k. key_present ?v k \<and> (\<exists>mid. k = leasedKey mid)}"
    using scan_pattern [OF clean(1,3), of d] by (auto simp: key_defs)
  obtain n3 k3 where 3: "\<forall>fuel \<ge> n3. \<forall>seen. scan_loop R quiet fuel 0 ''queue:*:retry'' seen d
        = Some (Inr (add_seen k3 seen), d)"
      "set k3 = {k. key_present ?v k \<and> (\<exists>mid. k = retryKey mid)}"
    using scan_pattern [OF clean(1,4), of d] by (auto simp: key_defs)
  let ?seen = "add_seen k3 (add_seen k2 (add_seen k1 []))"
  have all: "scan_all R (\<lambda>_. quiet) fuel scan_patterns [] d = Some (Inr ?seen, d)"
    if "n1 + n2 + n3 \<le> fuel" for fuel
    using 1(1) 2(1) 3(1) that by (simp add: scan_patterns_def)
  have "set ?seen = {q. active_queue ?v q}"
    unfolding set_add_seen 1(2) 2(2) 3(2)
    by (subst (1 2 3) queue_keys_image) (auto simp: active_queue_def key_present_def)
  then have "set (order ?seen) = {q. active_queue ?v q}" using mset_eq_setD [OF order, of ?seen] by simp
  moreover have "distinct (order ?seen)"
    using mset_eq_imp_distinct_iff [OF order] distinct_add_seen by auto
  ultimately show ?thesis using all by (intro exI [of _ "n1 + n2 + n3"]) (simp add: KnownQueues_def)
qed

end

subsection \<open>A batched claim is the claims one after the other\<close>

context redis_db
begin

lemma a_claim_add: "a_claim (n + m) q dl v = a_claim m q dl (a_claim n q dl v)"
proof (induction n arbitrary: v)
  case 0
  show ?case by (simp add: a_claim_0)
next
  case (Suc n)
  show ?case
  proof (cases "list_at v (pendingKey q) = []")
    case True
    then show ?thesis by (simp add: a_claim_Nil)
  next
    case False
    then show ?thesis using Suc.IH by (simp add: a_claim_Suc)
  qed
qed

lemma claim_split:
  assumes "0 \<le> n" and "0 \<le> m"
  shows "\<exists>out1 out2 d1 d2 d3. claimScript R (pendingKey q) (leasedKey q) n dl d = (Inr out1, d1)
    \<and> claimScript R (pendingKey q) (leasedKey q) m dl d1 = (Inr out2, d2)
    \<and> claimScript R (pendingKey q) (leasedKey q) (n + m) dl d = (Inr (out1 @ out2), d3)
    \<and> view R d3 = view R d2"
proof -
  let ?v = "view R d" and ?xs = "list_at (view R d) (pendingKey q)"
  obtain d1 where 1: "claimScript R (pendingKey q) (leasedKey q) n dl d
      = (Inr (concat (map (claim_triple ?v) (take (nat n) (rev ?xs)))), d1)"
    "view R d1 = a_claim (nat n) q dl ?v" using claimScript_refines by blast
  have tr: "claim_triple (view R d1) = claim_triple ?v"
    by (simp add: fun_eq_iff claim_triple_def 1(2) claim_reads)
  have "list_at (view R d1) (pendingKey q) = take (length ?xs - nat n) ?xs"
    by (simp add: 1(2) a_claim_def Let_def)
  then have rest: "rev (list_at (view R d1) (pendingKey q)) = drop (nat n) (rev ?xs)"
    by (simp only: take_length_minus rev_rev_ident)
  obtain d2 where 2: "claimScript R (pendingKey q) (leasedKey q) m dl d1
      = (Inr (concat (map (claim_triple ?v) (take (nat m) (drop (nat n) (rev ?xs))))), d2)"
    "view R d2 = a_claim (nat m) q dl (view R d1)"
    using claimScript_refines [of q m dl d1] unfolding tr rest by blast
  obtain d3 where 3: "claimScript R (pendingKey q) (leasedKey q) (n + m) dl d
      = (Inr (concat (map (claim_triple ?v) (take (nat (n + m)) (rev ?xs)))), d3)"
    "view R d3 = a_claim (nat (n + m)) q dl ?v" using claimScript_refines by blast
  have nm: "nat (n + m) = nat n + nat m" using assms by (simp add: nat_add_distrib)
  have "take (nat (n + m)) (rev ?xs) = take (nat n) (rev ?xs) @ take (nat m) (drop (nat n) (rev ?xs))"
    unfolding nm by (rule take_add)
  moreover have "view R d3 = view R d2" unfolding 1(2) 2(2) 3(2) nm by (rule a_claim_add)
  ultimately show ?thesis using 1(1) 2(1) 3(1) by auto
qed

end

end
