(* ===== verification/Store_Outcomes.thy ===== *)
theory Store_Outcomes
  imports Store_Laws
begin

section \<open>Enqueue, renew, ack and fail: results, effects and lost messages\<close>

text \<open>
  Per operation: what it returns and how it changes the view when its round trip is delivered,
  and that whatever the network does the database is either untouched or as after one step of
  the system. The idempotency key is followed through arbitrary histories.
\<close>

subsection \<open>Idempotency keys through a history\<close>

lemma string_folds:
  "string_at (fold (a_ack1 q) js v) = string_at v"
  "string_at (fold (a_reap1 mr q) js v) = string_at v"
  "string_at (fold (a_retry1 q) js v) = string_at v"
proof -
  have one: "string_at (a_ack1 q j v) = string_at v" "string_at (a_reap1 mr q j v) = string_at v"
    "string_at (a_retry1 q j v) = string_at v" for j v
    by (simp_all add: a_ack1_def a_reap1_def a_retry1_def Let_def cogs_simps)
  show "string_at (fold (a_ack1 q) js v) = string_at v" by (induction js arbitrary: v) (simp_all add: one)
  show "string_at (fold (a_reap1 mr q) js v) = string_at v" by (induction js arbitrary: v) (simp_all add: one)
  show "string_at (fold (a_retry1 q) js v) = string_at v" by (induction js arbitrary: v) (simp_all add: one)
qed

lemma string_fire: "string_at (snd (a_fire nows now xs v)) = string_at v"
proof (induction xs arbitrary: v)
  case (Cons x xs)
  have "string_at (a_fire1 nows now x v) = string_at v"
    by (cases x) (simp add: a_fire1_def a_enqueue_def split: option.splits)
  then show ?case using Cons.IH by (simp add: split_beta)
qed simp

fun op_elapsed :: "op \<Rightarrow> int" where
  "op_elapsed (OpElapse t) = t"
| "op_elapsed _ = 0"

definition elapsed :: "op list \<Rightarrow> int" where
  "elapsed xs = sum_list (map op_elapsed xs)"

lemma elapsed_simps [simp]: "elapsed [] = 0" "elapsed (x # xs) = op_elapsed x + elapsed xs"
  by (simp_all add: elapsed_def)

lemma idem_op:
  assumes "string_at v (idemKey k) = Some (j, Some t)" and "op_elapsed x < t" and "op_ok x v"
  shows "string_at (a_op c num x v) (idemKey k) = Some (j, Some (t - op_elapsed x))"
proof (cases x)
  case (OpEnqueue i p q s key ttl)
  then show ?thesis using assms(1)
    by (auto simp: a_enqueue_req_def a_enqueue_def split: option.splits)
next
  case (OpFail q i nextAt)
  then show ?thesis using assms(1) by (simp add: a_fail_def Let_def cogs_simps)
next
  case (OpElapse s)
  then show ?thesis using assms by (simp add: a_elapse_def age_string_def)
qed (use assms(1) in \<open>simp_all add: a_claim_def Let_def a_renew_def string_folds a_reap_def a_retry_def
  string_fire a_acquire_def a_renew_lock_def a_release_def\<close>)

lemma op_elapsed_nonneg: "op_ok x v \<Longrightarrow> 0 \<le> op_elapsed x"
  by (cases x) simp_all

lemma run_elapsed_nonneg: "runs (astep c num) v xs w \<Longrightarrow> 0 \<le> elapsed xs"
  by (induction rule: runs.induct) (auto simp: astep_def dest: op_elapsed_nonneg)

lemma idem_run:
  "runs (astep c num) v xs w \<Longrightarrow> string_at v (idemKey k) = Some (j, Some t) \<Longrightarrow> elapsed xs < t \<Longrightarrow>
   string_at w (idemKey k) = Some (j, Some (t - elapsed xs))"
proof (induction arbitrary: t rule: runs.induct)
  case (run_nil s)
  then show ?case by simp
next
  case (run_cons v x u xs w)
  have u: "u = a_op c num x v" and ok: "op_ok x v" using run_cons.hyps(1) by (simp_all add: astep_def)
  have "op_elapsed x < t" using run_cons.prems(2) run_elapsed_nonneg [OF run_cons.hyps(2)] by simp
  then have "string_at u (idemKey k) = Some (j, Some (t - op_elapsed x))"
    using idem_op [OF run_cons.prems(1) _ ok] by (simp add: u)
  from run_cons.IH [OF this] show ?case using run_cons.prems(2) by (simp add: algebra_simps)
qed

context redis_db
begin

subsection \<open>Enqueue\<close>

lemma Enqueue_delivered:
  assumes "NewID rnd = Inr jid" and "jid \<notin> live (view R d)" and "idem = '''' \<or> 0 < window_seconds c"
  shows "\<exists>d'. Enqueue R c rnd now Delivered q p idem d
      = (Inr (reply_or (snd (fst (a_enqueue_req jid (if p = '''' then ''null'' else p) q (itoa now) idem
            (window_seconds c) (view R d)))) '''',
          fst (fst (a_enqueue_req jid (if p = '''' then ''null'' else p) q (itoa now) idem
            (window_seconds c) (view R d))) = 1), d')
    \<and> view R d' = snd (a_enqueue_req jid (if p = '''' then ''null'' else p) q (itoa now) idem
            (window_seconds c) (view R d))"
  using enqueueScript_refines [OF assms(2,3), of q "if p = '''' then ''null'' else p" "itoa now"]
  unfolding Enqueue_def assms(1) Let_def by (cases "fst (a_enqueue_req jid (if p = '''' then ''null'' else p)
    q (itoa now) idem (window_seconds c) (view R d))") auto

text \<open>Whatever the network does, an enqueue is nothing or one step of the system.\<close>

lemma Enqueue_step:
  "snd (Enqueue R c rnd now net q p idem d) = d \<or>
   (\<exists>jid. NewID rnd = Inr jid \<and> snd (Enqueue R c rnd now net q p idem d)
      = exec_op R c (OpEnqueue jid (if p = '''' then ''null'' else p) q (itoa now) idem (window_seconds c)) d)"
  by (cases net) (auto simp: Enqueue_def Let_def split: sum.splits prod.splits)

text \<open>Enqueueing again with the same key inside the window, whatever happened in between.\<close>

lemma Enqueue_again:
  assumes inv: "job_inv (MaxRetries c) (view R d)" and ok: "config_ok c"
    and first: "NewID rnd1 = Inr jid" "jid \<notin> live (view R d)"
    and key: "idem \<noteq> ''''" "0 < window_seconds c" "string_at (view R d) (idemKey idem) = None"
    and ran: "net = Delivered \<or> net = LostReply e"
    and between: "runs (cogs_step R c) (snd (Enqueue R c rnd1 now1 net q1 p1 idem d)) xs d2"
    and window: "elapsed xs < 1000 * window_seconds c"
    and second: "NewID rnd2 = Inr jid2"
  shows "\<exists>d3. Enqueue R c rnd2 now2 Delivered q2 p2 idem d2 = (Inr (jid, False), d3) \<and> view R d3 = view R d2"
proof -
  let ?p = "if p1 = '''' then ''null'' else p1"
  let ?op = "OpEnqueue jid ?p q1 (itoa now1) idem (window_seconds c)"
  let ?d1 = "exec_op R c ?op d"
  have okop: "op_ok ?op (view R d)" using first(2) by simp
  have d1: "snd (Enqueue R c rnd1 now1 net q1 p1 idem d) = ?d1"
    using ran by (auto simp: Enqueue_def first(1) Let_def split: sum.splits prod.splits)
  have v1: "view R ?d1 = a_op c (r_lua_number R) ?op (view R d)" by (rule exec_refines [OF inv ok okop])
  have inv1: "job_inv (MaxRetries c) (view R ?d1)" unfolding v1 by (rule inv_op [OF inv ok okop])
  have "string_at (view R ?d1) (idemKey idem) = Some (jid, Some (1000 * window_seconds c))"
    using key by (simp add: v1 a_enqueue_req_def a_enqueue_def del: exec_op.simps)
  from idem_run [OF runs_refine [OF between [unfolded d1] inv1 ok] this window]
  have "string_at (view R d2) (idemKey idem) = Some (jid, Some (1000 * window_seconds c - elapsed xs))" .
  from enqueueScript_hit [OF key(1,2) this, of "jobKey jid2" "pendingKey q2" jid2
      "if p2 = '''' then ''null'' else p2" q2 "itoa now2"]
  show ?thesis unfolding Enqueue_def second Let_def by auto
qed

subsection \<open>Renew, ack, fail\<close>

lemma Renew_delivered:
  "\<exists>d'. Renew R c now Delivered q j d
      = (if zset_at (view R d) (leasedKey q) j = None then Inl ErrLeaseGone else Inr (lease_deadline c now), d')
    \<and> view R d' = a_renew q j (lease_deadline c now) (view R d)"
  using renewScript_refines [of q j "lease_deadline c now" d] by (auto simp: Renew_def Let_def)

lemma Renew_step:
  "snd (Renew R c now net q j d) = d \<or>
   snd (Renew R c now net q j d) = exec_op R c (OpRenew q j (lease_deadline c now)) d"
  by (cases net) (auto simp: Renew_def Let_def split: sum.splits prod.splits)

lemma Ack_delivered:
  "\<exists>d'. Ack R Delivered q js d
      = (Inr (int (card {j \<in> set js. zset_at (view R d) (leasedKey q) j \<noteq> None})), d')
    \<and> view R d' = fold (a_ack1 q) js (view R d)"
  using ackScript_refines [of q js d] by (auto simp: Ack_def)

lemma Ack_step:
  "snd (Ack R net q js d) = d \<or> snd (Ack R net q js d) = exec_op R c (OpAck q js) d"
  by (cases net) (auto simp: Ack_def split: sum.splits prod.splits)

lemma Fail_delivered:
  assumes "job_inv (MaxRetries c) (view R d)" and "config_ok c"
  shows "\<exists>d'. Fail R c now rnd oor Delivered q j attempt d
      = (if zset_at (view R d) (leasedKey q) j = None then Inl ErrLeaseGone
         else if dead_dest (MaxRetries c) (view R d) j then Inr StateDead else Inr StateRetry, d')
    \<and> view R d' = a_fail (MaxRetries c) q j (retry_at c now attempt rnd oor) (view R d)"
  using failScript_refines [OF assms(1), of q j "retry_at c now attempt rnd oor"] config_ok_limits [OF assms(2)]
  by (auto simp: Fail_def Let_def fail_reply_def)

lemma Fail_step:
  "snd (Fail R c now rnd oor net q j attempt d) = d \<or>
   snd (Fail R c now rnd oor net q j attempt d)
     = exec_op R c (OpFail q j (retry_at c now attempt rnd oor)) d"
  by (cases net) (auto simp: Fail_def Let_def split: sum.splits prod.splits)

text \<open>The lease check asks whether the job is leased, not who holds it.\<close>

lemma leased_after_claim:
  assumes "j \<in> set (handed_out R (OpClaim q n dl) d)"
  shows "zset_at (view R (exec_op R c (OpClaim q n dl) d)) (leasedKey q) j = Some dl"
proof -
  obtain d1 where c: "claimScript R (pendingKey q) (leasedKey q) n dl d
      = (Inr (concat (map (claim_triple (view R d)) (take (nat n) (rev (list_at (view R d) (pendingKey q)))))), d1)"
    and v1: "view R d1 = a_claim (nat n) q dl (view R d)" using claimScript_refines [of q n dl d] by blast
  have "j \<in> set (take (nat n) (rev (list_at (view R d) (pendingKey q))))"
    using assms by (simp add: c triple_ids_claim)
  then show ?thesis by (simp add: c v1 a_claim_def Let_def)
qed

end

subsection \<open>Reading a job back\<close>

context redis_db
begin

lemma Job_of_hash:
  assumes "hash_at (view R d) (jobKey jid) = job_hash p q n i t"
    and "- (2 ^ 63) \<le> n" and "n < 2 ^ 63"
  shows "Job R Delivered jid d = Inr \<lparr>Job_ID = jid, Job_Queue = q, Job_Payload = p, Job_Attempts = n,
    Job_IdempotencyKey = i, Job_CreatedAt = fst (parse_int t), Job_LeaseDeadline = 0\<rparr>"
proof -
  have m: "map_of (r_hgetall R (jobKey jid) d) = job_hash p q n i t" using assms(1) by (simp add: hgetall)
  have "r_hgetall R (jobKey jid) d \<noteq> []" using assms(1) by (simp add: hgetall_empty)
  then show ?thesis using assms(2,3) by (simp add: Job_def readtrip_def field_def m parse_int_itoa)
qed

lemma Job_missing: "jid \<notin> live (view R d) \<Longrightarrow> Job R Delivered jid d = Inl ErrNotFound"
  by (simp add: Job_def readtrip_def live_def hgetall_empty)

lemma Enqueue_then_Job:
  assumes "NewID rnd = Inr jid" and "jid \<notin> live (view R d)" and "idem = '''' \<or> 0 < window_seconds c"
    and "idem = '''' \<or> string_at (view R d) (idemKey idem) = None"
    and "- (2 ^ 63) \<le> now" and "now < 2 ^ 63"
  shows "\<exists>d'. Enqueue R c rnd now Delivered q p idem d = (Inr (jid, True), d')
    \<and> Job R Delivered jid d' = Inr \<lparr>Job_ID = jid, Job_Queue = q,
        Job_Payload = (if p = '''' then ''null'' else p), Job_Attempts = 0, Job_IdempotencyKey = idem,
        Job_CreatedAt = now, Job_LeaseDeadline = 0\<rparr>"
proof -
  let ?p = "if p = '''' then ''null'' else p"
  have req: "fst (a_enqueue_req jid ?p q (itoa now) idem (window_seconds c) (view R d)) = (1, Some jid)"
    "hash_at (snd (a_enqueue_req jid ?p q (itoa now) idem (window_seconds c) (view R d))) (jobKey jid)
      = job_hash ?p q 0 idem (itoa now)"
    using assms(4) by (auto simp: a_enqueue_req_def a_enqueue_def)
  obtain d' where d': "Enqueue R c rnd now Delivered q p idem d = (Inr (jid, True), d')"
    "view R d' = snd (a_enqueue_req jid ?p q (itoa now) idem (window_seconds c) (view R d))"
    using Enqueue_delivered [OF assms(1-3), of now q p] unfolding req(1) by auto
  show ?thesis using Job_of_hash [of d' jid ?p q 0 idem "itoa now"] req(2) d' assms(5,6)
    by (simp add: parse_int_itoa)
qed

end

subsection \<open>When a failed job is retried\<close>

lemma milliseconds_mono: "0 \<le> a \<Longrightarrow> a \<le> b \<Longrightarrow> milliseconds a \<le> milliseconds b"
  by (simp add: milliseconds_nonneg zdiv_mono1)

lemma retry_at_bounds:
  fixes c attempt
  defines "nominal \<equiv> BackoffBase c * 2 ^ backoff_exponent attempt"
  assumes "0 \<le> BackoffBase c" and "nominal < 2 ^ 53" and "rnd < 2 ^ 53" and "0 \<le> now" and "now < 2 ^ 62"
  shows "now + milliseconds (nominal div 2) \<le> retry_at c now attempt rnd oor"
    and "retry_at c now attempt rnd oor \<le> now + milliseconds nominal"
proof -
  let ?b = "Backoff (BackoffBase c) attempt rnd oor"
  have n: "0 \<le> nominal" using assms(2) by (simp add: nominal_def)
  have lo: "nominal div 2 \<le> ?b" and hi: "?b \<le> nominal"
    using Backoff_bounds [OF assms(2) _ assms(4), of attempt oor] assms(3) by (simp_all add: nominal_def)
  have half: "0 \<le> nominal div 2" using n by simp
  have "milliseconds (nominal div 2) \<le> milliseconds ?b" "milliseconds ?b \<le> milliseconds nominal"
    using milliseconds_mono [OF half lo] milliseconds_mono [of ?b nominal] half lo hi by simp_all
  moreover have "0 \<le> milliseconds ?b" using half lo by (simp add: milliseconds_nonneg pos_imp_zdiv_nonneg_iff)
  moreover have "milliseconds nominal \<le> nominal" using n by (simp add: milliseconds_nonneg)
  ultimately have "i64 (now + milliseconds ?b) = now + milliseconds ?b"
    using assms(3,5,6) by (intro i64_id) simp_all
  then show "now + milliseconds (nominal div 2) \<le> retry_at c now attempt rnd oor"
    "retry_at c now attempt rnd oor \<le> now + milliseconds nominal"
    using \<open>milliseconds (nominal div 2) \<le> milliseconds ?b\<close> \<open>milliseconds ?b \<le> milliseconds nominal\<close>
    by (simp_all add: retry_at_def)
qed

subsection \<open>Types of what is read\<close>

context redis_db
begin

lemma Job_well_typed:
  assumes "job_inv mr (view R d)" and "mr < 2 ^ 63 - 1" and "j \<in> live (view R d)"
  shows "\<exists>job. Job R Delivered j d = Inr job \<and> Job_ID job = j
    \<and> job_queue (view R d) j = Some (Job_Queue job) \<and> 0 \<le> Job_Attempts job
    \<and> Job_Attempts job \<le> max 0 mr + (if job_state (view R d) j = Some StateDead then 1 else 0)"
proof -
  obtain p q n i t where h: "hash_at (view R d) (jobKey j) = job_hash p q n i t" "0 \<le> n"
    "n \<le> max 0 mr + (if j \<in> set (list_at (view R d) (deadKey q)) then 1 else 0)"
    using assms(1,3) by (rule inv_live_hash)
  have n: "n < 2 ^ 63" using h(3) assms(2) by (auto split: if_splits)
  then have att: "job_attempts (view R d) j = n" using h(1,2) by (simp add: job_attempts_hash)
  have "Job R Delivered j d = Inr \<lparr>Job_ID = j, Job_Queue = q, Job_Payload = p, Job_Attempts = n,
    Job_IdempotencyKey = i, Job_CreatedAt = fst (parse_int t), Job_LeaseDeadline = 0\<rparr>"
    using Job_of_hash [OF h(1)] h(2) n by simp
  then show ?thesis
    using inv_attempts_range [OF assms(1,3,2)] h(1,2) by (auto simp: att job_queue_def)
qed

end

end
