(* ===== verification/Cogs_Metrics.thy ===== *)
theory Cogs_Metrics
  imports Cogs_Job
begin

section \<open>Counters (internal/cogs/metrics.go)\<close>

text \<open>
  The collectors with their labels. Prometheus itself is a library, so a function of the program
  that touches them returns the list of updates it made, in order: the collector with its label
  values and the amount added (or, for a histogram, observed).
\<close>

datatype metric =
    RequestDuration string string
  | ClaimBatchSize
  | JobsEnqueued queue
  | JobsClaimed queue
  | JobsAcked queue
  | JobsFailed queue
  | JobsRequeued queue
  | JobsRetried queue
  | JobsDead queue string
  | JobsScheduled queue
  | LeaseRenewRejected
  | IsLeaderGauge

type_synonym updates = "(metric \<times> int) list"

text \<open>What a list of updates adds to a collector.\<close>

definition added :: "metric \<Rightarrow> updates \<Rightarrow> int" where
  "added m us = sum_list (map (\<lambda>(m', n). if m' = m then n else 0) us)"

lemma added_simps [simp]:
  "added m [] = 0" "added m ((m', n) # us) = (if m' = m then n else 0) + added m us"
  "added m (us @ us') = added m us + added m us'"
  by (simp_all add: added_def)

subsection \<open>The collectors and their registry\<close>

text \<open>The name each collector is registered under, without the namespace, and its label values.\<close>

fun metric_name :: "metric \<Rightarrow> string" where
  "metric_name (RequestDuration _ _) = ''request_duration_seconds''"
| "metric_name ClaimBatchSize = ''claim_batch_size''"
| "metric_name (JobsEnqueued _) = ''jobs_enqueued_total''"
| "metric_name (JobsClaimed _) = ''jobs_claimed_total''"
| "metric_name (JobsAcked _) = ''jobs_acked_total''"
| "metric_name (JobsFailed _) = ''jobs_failed_total''"
| "metric_name (JobsRequeued _) = ''jobs_requeued_total''"
| "metric_name (JobsRetried _) = ''jobs_retried_total''"
| "metric_name (JobsDead _ _) = ''jobs_dead_total''"
| "metric_name (JobsScheduled _) = ''jobs_scheduled_total''"
| "metric_name LeaseRenewRejected = ''lease_renew_rejected_total''"
| "metric_name IsLeaderGauge = ''is_leader''"

text \<open>The names \<open>NewRegistry\<close> registers, in its order.\<close>

definition NewRegistry :: "string list" where
  "NewRegistry =
     [''request_duration_seconds'', ''claim_batch_size'',
      ''jobs_enqueued_total'', ''jobs_claimed_total'', ''jobs_acked_total'', ''jobs_failed_total'',
      ''jobs_requeued_total'', ''jobs_retried_total'', ''jobs_dead_total'', ''jobs_scheduled_total'',
      ''lease_renew_rejected_total'', ''is_leader'']"

text \<open>\<open>MustRegister\<close> does not panic on a duplicate, and every update reaches a registered collector.\<close>

lemma NewRegistry_distinct: "distinct NewRegistry"
  by (simp add: NewRegistry_def)

lemma metric_registered: "metric_name m \<in> set NewRegistry"
  by (cases m) (simp_all add: NewRegistry_def)

text \<open>The bucket bounds of the request latency, in units of ten microseconds.\<close>

definition claimBuckets :: "nat list" where
  "claimBuckets = [10, 25, 50, 100, 250, 500, 1000, 2500, 5000, 10000, 25000, 100000]"

text \<open>The upper bound of the bucket a duration is counted in; none is the bucket without a bound.\<close>

definition bucket_of :: "nat \<Rightarrow> nat option" where
  "bucket_of d = find (\<lambda>b. d \<le> b) claimBuckets"

text \<open>
  The latency the project claims, 5 ms, is a bucket's bound: whether a request took longer can be
  read off its bucket, without interpolation.
\<close>

lemma bucket_decides_5ms: "(case bucket_of d of None \<Rightarrow> False | Some b \<Rightarrow> b \<le> 500) \<longleftrightarrow> d \<le> 500"
  by (simp add: bucket_of_def claimBuckets_def)

end
