(* ===== verification/Cogs_Loops.thy ===== *)
theory Cogs_Loops
  imports Store_Outcomes Cogs_Metrics
begin

section \<open>The background loops (internal/cogs/loops.go)\<close>

text \<open>
  \<open>drainDue\<close> is the loop behind the reaper, the retry drainer and the scheduler, over the
  sequence of events its \<open>select\<close> receives. \<open>reapPass\<close> and \<open>retryPass\<close> visit the queues
  \<open>KnownQueues\<close> finds and drain each; between two round trips the other processes have their
  turn. \<open>clock i\<close> is what \<open>nowMS()\<close> returns in the i-th drain.
\<close>

subsection \<open>drainDue\<close>

text \<open>
  An event of the \<open>select\<close>: the context is done, or a tick with whether the process leads then,
  whether the context is cancelled when the pass ends, and what the pass depends on. The result
  is the errors that are logged and the database.
\<close>

datatype 'e select_event = CtxDone | Tick bool bool 'e

fun drainDue :: "('e \<Rightarrow> 'db \<Rightarrow> error option \<times> 'db) \<Rightarrow> 'e select_event list \<Rightarrow> 'db \<Rightarrow> error list \<times> 'db" where
  "drainDue pass [] d = ([], d)"
| "drainDue pass (CtxDone # evs) d = ([], d)"
| "drainDue pass (Tick isLeader cancelled e # evs) d =
     (if \<not> isLeader then drainDue pass evs d
      else (case pass e d of (err, d1) \<Rightarrow>
        (case drainDue pass evs d1 of (logged, d2) \<Rightarrow>
          (case err of
             Some x \<Rightarrow> if \<not> cancelled then (x # logged, d2) else (logged, d2)
           | None \<Rightarrow> (logged, d2)))))"

subsection \<open>The reaper\<close>

text \<open>What a pass reports: updates of the counters and calls of the \<open>OnRequeue\<close> hook.\<close>

datatype report = Count metric int | CalledOnRequeue queue "job_id list"

definition reap_reports :: "bool \<Rightarrow> queue \<Rightarrow> job_id list \<Rightarrow> job_id list \<Rightarrow> report list" where
  "reap_reports onRequeue q requeued dead =
     (if length requeued > 0
      then (if onRequeue then [CalledOnRequeue q requeued] else [])
         @ [Count (JobsRequeued q) (int (length requeued))]
      else [])
     @ (if length dead > 0 then [Count (JobsDead q ''max_attempts'') (int (length dead))] else [])"

fun reap_queues ::
  "'db redis \<Rightarrow> config \<Rightarrow> bool \<Rightarrow> (nat \<Rightarrow> int) \<Rightarrow> 'db turns \<Rightarrow> queue list \<Rightarrow> 'db \<Rightarrow>
   error option \<times> report list \<times> 'db" where
  "reap_queues R c onRequeue clock turns [] d = (None, [], d)"
| "reap_queues R c onRequeue clock turns (q # qs) d =
     (case drain R c (clock 0) (fst (turns 0)) (leasedKey q) q True (snd (turns 0) d) of
        (Inl e, d1) \<Rightarrow> (Some e, [], d1)
      | (Inr (requeued, dead), d1) \<Rightarrow>
          (case reap_queues R c onRequeue (\<lambda>i. clock (Suc i)) (next_turns turns) qs d1 of
             (err, reports, d2) \<Rightarrow> (err, reap_reports onRequeue q requeued dead @ reports, d2)))"

definition reapPass ::
  "'db redis \<Rightarrow> config \<Rightarrow> bool \<Rightarrow> (queue list \<Rightarrow> queue list) \<Rightarrow> (nat \<Rightarrow> 'db turns) \<Rightarrow> nat \<Rightarrow> (nat \<Rightarrow> int) \<Rightarrow>
   'db turns \<Rightarrow> 'db \<Rightarrow> (error option \<times> report list \<times> 'db) option" where
  "reapPass R c onRequeue order scans fuel clock turns d =
     (case KnownQueues R order scans fuel d of
        None \<Rightarrow> None
      | Some (Inl e, d1) \<Rightarrow> Some (Some e, [], d1)
      | Some (Inr qs, d1) \<Rightarrow> Some (reap_queues R c onRequeue clock turns qs d1))"

subsection \<open>The retry drainer\<close>

fun retry_queues ::
  "'db redis \<Rightarrow> config \<Rightarrow> (nat \<Rightarrow> int) \<Rightarrow> 'db turns \<Rightarrow> queue list \<Rightarrow> 'db \<Rightarrow> error option \<times> report list \<times> 'db" where
  "retry_queues R c clock turns [] d = (None, [], d)"
| "retry_queues R c clock turns (q # qs) d =
     (case drain R c (clock 0) (fst (turns 0)) (retryKey q) q False (snd (turns 0) d) of
        (Inl e, d1) \<Rightarrow> (Some e, [], d1)
      | (Inr (requeued, _), d1) \<Rightarrow>
          (case retry_queues R c (\<lambda>i. clock (Suc i)) (next_turns turns) qs d1 of
             (err, reports, d2) \<Rightarrow>
               (err, (if length requeued > 0 then [Count (JobsRetried q) (int (length requeued))] else [])
                  @ reports, d2)))"

definition retryPass ::
  "'db redis \<Rightarrow> config \<Rightarrow> (queue list \<Rightarrow> queue list) \<Rightarrow> (nat \<Rightarrow> 'db turns) \<Rightarrow> nat \<Rightarrow> (nat \<Rightarrow> int) \<Rightarrow>
   'db turns \<Rightarrow> 'db \<Rightarrow> (error option \<times> report list \<times> 'db) option" where
  "retryPass R c order scans fuel clock turns d =
     (case KnownQueues R order scans fuel d of
        None \<Rightarrow> None
      | Some (Inl e, d1) \<Rightarrow> Some (Some e, [], d1)
      | Some (Inr qs, d1) \<Rightarrow> Some (retry_queues R c clock turns qs d1))"

definition truncate :: "job_id list \<Rightarrow> job_id list" where
  "truncate ids = (if length ids > 5 then take 5 ids else ids)"

subsection \<open>Only the leader works\<close>

lemma drainDue_follower:
  assumes "\<forall>e \<in> set evs. \<forall>cancelled x. e \<noteq> Tick True cancelled x"
  shows "drainDue pass evs d = ([], d)"
  using assms
proof (induction evs)
  case (Cons e evs)
  then show ?case by (cases e) auto
qed simp

lemma drainDue_stops: "drainDue pass (evs @ CtxDone # rest) d = drainDue pass (evs @ [CtxDone]) d"
proof (induction evs arbitrary: d)
  case (Cons e evs)
  then show ?case by (cases e) (simp_all split: prod.splits)
qed simp

text \<open>An error of one pass never stops the loop.\<close>

lemma drainDue_errors:
  "fst (drainDue pass (Tick True False e # evs) d) =
     (case fst (pass e d) of Some x \<Rightarrow> [x] | None \<Rightarrow> []) @ fst (drainDue pass evs (snd (pass e d)))"
  "snd (drainDue pass (Tick True cancelled e # evs) d) = snd (drainDue pass evs (snd (pass e d)))"
  by (auto split: prod.splits option.splits)

subsection \<open>A quiet pass drains every queue\<close>

definition reap_list :: "int \<Rightarrow> int \<Rightarrow> queue \<Rightarrow> rview \<Rightarrow> job_id set" where
  "reap_list now n q v = {j \<in> set (reap_due now n q v). zset_at v (leasedKey q) j \<noteq> None}"

lemma leased_reaps_other:
  assumes "q' \<noteq> q"
  shows "zset_at (fold (a_reap1 mr q) js v) (leasedKey q') = zset_at v (leasedKey q')"
proof (induction js arbitrary: v)
  case (Cons j js)
  have "zset_at (a_reap1 mr q j v) (leasedKey q') = zset_at v (leasedKey q')"
    using assms by (simp add: a_reap1_def Let_def cogs_simps)
  then show ?case using Cons.IH by simp
qed simp

lemma reap_list_other:
  "q' \<noteq> q \<Longrightarrow> reap_list now n q' (a_reap mr now n q v) = reap_list now n q' v"
  by (simp add: reap_list_def reap_due_def a_reap_def leased_reaps_other)

lemma reap_state:
  assumes "job_inv mr v" and "mr < 2 ^ 63 - 1"
  shows "job_state (a_reap mr now n q v) j =
    (if j \<in> reap_list now n q v then (if dead_dest mr v j then Some StateDead else Some StatePending)
     else job_state v j)"
  by (simp only: a_reap_def state_reaps [OF assms reap_due_distinct] reap_list_def mem_Collect_eq)

lemma dead_dest_reap_other:
  "j \<notin> reap_list now n q v \<Longrightarrow> dead_dest mr (a_reap mr now n q v) j \<longleftrightarrow> dead_dest mr v j"
  by (simp only: dead_dest_def job_attempts_def a_reap_def hash_reaps [OF reap_due_distinct] reap_list_def
      mem_Collect_eq if_False)

lemma reap_list_queue: "job_inv mr v \<Longrightarrow> j \<in> reap_list now n q v \<Longrightarrow> job_queue v j = Some q"
  using inv_leased_occ(4) by (auto simp: reap_list_def)

lemma reaps_state:
  assumes "job_inv mr v" and "mr < 2 ^ 63 - 1" and "distinct qs"
  shows "job_state (fold (\<lambda>q. a_reap mr now n q) qs v) j =
    (if \<exists>q \<in> set qs. j \<in> reap_list now n q v
     then (if dead_dest mr v j then Some StateDead else Some StatePending) else job_state v j)"
  using assms(1,3)
proof (induction qs arbitrary: v)
  case Nil
  then show ?case by simp
next
  case (Cons q qs)
  let ?w = "a_reap mr now n q v"
  have IH: "job_state (fold (\<lambda>q. a_reap mr now n q) qs ?w) j =
    (if \<exists>q \<in> set qs. j \<in> reap_list now n q ?w
     then (if dead_dest mr ?w j then Some StateDead else Some StatePending) else job_state ?w j)"
    using Cons inv_reap assms(2) by simp
  have same: "reap_list now n q' ?w = reap_list now n q' v" if "q' \<in> set qs" for q'
    using that Cons.prems(2) by (intro reap_list_other) auto
  show ?case
  proof (cases "j \<in> reap_list now n q v")
    case True
    have "j \<notin> reap_list now n q' v" if "q' \<in> set qs" for q'
    proof
      assume "j \<in> reap_list now n q' v"
      then have "job_queue v j = Some q'" by (rule reap_list_queue [OF Cons.prems(1)])
      then have "q' = q" using reap_list_queue [OF Cons.prems(1) True] by simp
      then show False using that Cons.prems(2) by simp
    qed
    then show ?thesis using True IH same reap_state [OF Cons.prems(1) assms(2)] by simp
  next
    case False
    then show ?thesis using IH same reap_state [OF Cons.prems(1) assms(2)] dead_dest_reap_other by auto
  qed
qed

lemma inv_reap_queues:
  "job_inv mr v \<Longrightarrow> mr < 2 ^ 63 - 1 \<Longrightarrow> job_inv mr (fold (\<lambda>q. a_reap mr now n q) qs v)"
  by (induction qs arbitrary: v) (simp_all add: inv_reap)

text \<open>A pass with a limit that covers them reaps exactly the expired leases.\<close>

definition expired :: "int \<Rightarrow> queue \<Rightarrow> rview \<Rightarrow> job_id set" where
  "expired now q v = {j. \<exists>s. zset_at v (leasedKey q) j = Some s \<and> s \<le> now}"

definition covers :: "int \<Rightarrow> 'a set \<Rightarrow> bool" where
  "covers limit A \<longleftrightarrow> limit < 0 \<or> int (card A) \<le> limit"

lemma limited_covers:
  assumes "distinct xs" and "covers limit (set xs)"
  shows "limited limit xs = xs"
  using assms by (intro limited_all) (auto simp: covers_def distinct_card)

lemma reap_list_expired:
  assumes "finite (dom (zset_at v (leasedKey q)))" and "covers n (expired now q v)"
  shows "reap_list now n q v = expired now q v"
proof -
  have "set (due_members (zset_at v (leasedKey q)) now) = expired now q v"
    using set_due_members [OF assms(1)] by (auto simp: expired_def)
  then have "set (reap_due now n q v) = expired now q v"
    using limited_covers [OF due_members_distinct, of n "zset_at v (leasedKey q)" now] assms(2)
    by (simp add: reap_due_def)
  then show ?thesis by (auto simp: reap_list_def expired_def)
qed

context redis_db
begin

lemma drain_reap:
  assumes "job_inv (MaxRetries c) (view R d)" and "config_ok c"
  shows "\<exists>d'. drain R c now Delivered (leasedKey q) q True d
      = (Inr (filter (\<lambda>j. \<not> dead_dest (MaxRetries c) (view R d) j) (reap_due now (DrainLimit c) q (view R d)),
              filter (dead_dest (MaxRetries c) (view R d)) (reap_due now (DrainLimit c) q (view R d))), d')
    \<and> view R d' = a_reap (MaxRetries c) now (DrainLimit c) q (view R d)"
  using reap_refines [OF assms(1), of "DrainLimit c" q now] config_ok_limits [OF assms(2)]
  by (auto simp: drain_def)

lemma drain_retry:
  assumes "config_ok c"
  shows "\<exists>d'. drain R c now Delivered (retryKey q) q False d
      = (Inr (retry_due now (DrainLimit c) q (view R d), []), d')
    \<and> view R d' = a_retry now (DrainLimit c) q (view R d)"
  using retry_refines [of "DrainLimit c" q now "MaxRetries c" d] config_ok_limits [OF assms]
  by (auto simp: drain_def)

lemma reap_queues_quiet:
  assumes "job_inv (MaxRetries c) (view R d)" and "config_ok c"
  shows "\<exists>reports d'. reap_queues R c onRequeue (\<lambda>_. now) quiet qs d = (None, reports, d')
    \<and> view R d' = fold (\<lambda>q. a_reap (MaxRetries c) now (DrainLimit c) q) qs (view R d)"
  using assms(1)
proof (induction qs arbitrary: d)
  case Nil
  then show ?case by simp
next
  case (Cons q qs)
  obtain rq dd d1 where 1: "drain R c now Delivered (leasedKey q) q True d = (Inr (rq, dd), d1)"
    "view R d1 = a_reap (MaxRetries c) now (DrainLimit c) q (view R d)"
    using drain_reap [OF Cons.prems assms(2), of now q] by blast
  have "job_inv (MaxRetries c) (view R d1)"
    using inv_reap [OF Cons.prems] config_ok_limits [OF assms(2)] by (simp add: 1(2))
  from Cons.IH [OF this] show ?case by (auto simp: 1)
qed

lemma reapPass_quiet:
  assumes "job_inv (MaxRetries c) (view R d)" and "config_ok c" and "\<And>xs. mset (order xs) = mset xs"
  shows "\<exists>n. \<forall>fuel \<ge> n. \<exists>qs reports d'.
      reapPass R c onRequeue order (\<lambda>_. quiet) fuel (\<lambda>_. now) quiet d = Some (None, reports, d')
    \<and> distinct qs \<and> set qs = {q. active_queue (view R d) q}
    \<and> view R d' = fold (\<lambda>q. a_reap (MaxRetries c) now (DrainLimit c) q) qs (view R d)"
proof -
  obtain n where n: "\<forall>fuel \<ge> n. \<exists>qs. KnownQueues R order (\<lambda>_. quiet) fuel d = Some (Inr qs, d)
    \<and> distinct qs \<and> set qs = {q. active_queue (view R d) q}"
    using KnownQueues_quiet [OF assms(3), of d] by blast
  show ?thesis
  proof (intro exI [of _ n] allI impI)
    fix fuel assume "n \<le> fuel"
    with n obtain qs where qs: "KnownQueues R order (\<lambda>_. quiet) fuel d = Some (Inr qs, d)"
      "distinct qs" "set qs = {q. active_queue (view R d) q}" by blast
    from reap_queues_quiet [OF assms(1,2), of onRequeue now qs]
    show "\<exists>qs reports d'. reapPass R c onRequeue order (\<lambda>_. quiet) fuel (\<lambda>_. now) quiet d = Some (None, reports, d')
      \<and> distinct qs \<and> set qs = {q. active_queue (view R d) q}
      \<and> view R d' = fold (\<lambda>q. a_reap (MaxRetries c) now (DrainLimit c) q) qs (view R d)"
      using qs by (auto simp: reapPass_def)
  qed
qed

text \<open>Crash recovery: one pass moves every job whose lease has expired, and no other.\<close>

lemma reapPass_recovers_all:
  assumes inv: "job_inv (MaxRetries c) (view R d)" and ok: "config_ok c"
    and order: "\<And>xs. mset (order xs) = mset xs"
    and limit: "\<And>q. covers (DrainLimit c) (expired now q (view R d))"
  shows "\<exists>n. \<forall>fuel \<ge> n. \<exists>reports d'.
      reapPass R c onRequeue order (\<lambda>_. quiet) fuel (\<lambda>_. now) quiet d = Some (None, reports, d')
    \<and> (\<forall>j. job_state (view R d') j =
        (if \<exists>q. q \<noteq> '''' \<and> j \<in> expired now q (view R d)
         then (if dead_dest (MaxRetries c) (view R d) j then Some StateDead else Some StatePending)
         else job_state (view R d) j))"
proof -
  obtain n where n: "\<forall>fuel \<ge> n. \<exists>qs reports d'.
      reapPass R c onRequeue order (\<lambda>_. quiet) fuel (\<lambda>_. now) quiet d = Some (None, reports, d')
    \<and> distinct qs \<and> set qs = {q. active_queue (view R d) q}
    \<and> view R d' = fold (\<lambda>q. a_reap (MaxRetries c) now (DrainLimit c) q) qs (view R d)"
    using reapPass_quiet [OF inv ok order] by blast
  have lists: "reap_list now (DrainLimit c) q (view R d) = expired now q (view R d)" for q
    by (rule reap_list_expired [OF zset_finite limit])
  have active: "(\<exists>q. active_queue (view R d) q \<and> j \<in> expired now q (view R d))
      \<longleftrightarrow> (\<exists>q. q \<noteq> '''' \<and> j \<in> expired now q (view R d))" for j
    by (auto simp: active_queue_def expired_def)
  show ?thesis
  proof (intro exI [of _ n] allI impI)
    fix fuel assume "n \<le> fuel"
    with n obtain qs reports d' where
      "reapPass R c onRequeue order (\<lambda>_. quiet) fuel (\<lambda>_. now) quiet d = Some (None, reports, d')"
      "distinct qs" "set qs = {q. active_queue (view R d) q}"
      "view R d' = fold (\<lambda>q. a_reap (MaxRetries c) now (DrainLimit c) q) qs (view R d)" by blast
    then show "\<exists>reports d'.
      reapPass R c onRequeue order (\<lambda>_. quiet) fuel (\<lambda>_. now) quiet d = Some (None, reports, d')
    \<and> (\<forall>j. job_state (view R d') j =
        (if \<exists>q. q \<noteq> '''' \<and> j \<in> expired now q (view R d)
         then (if dead_dest (MaxRetries c) (view R d) j then Some StateDead else Some StatePending)
         else job_state (view R d) j))"
      using reaps_state [OF inv, of qs now "DrainLimit c"] config_ok_limits [OF ok]
      by (simp add: lists active)
  qed
qed

end

subsection \<open>A backlog drains\<close>

text \<open>
  With more expired leases than DRAIN_LIMIT, each drain takes that many of them, so enough drains
  take all.
\<close>

lemma leased_reaps:
  "zset_at (fold (a_reap1 mr q) js v) (leasedKey q) j = (if j \<in> set js then None else zset_at v (leasedKey q) j)"
proof (induction js arbitrary: v)
  case (Cons a js)
  have "zset_at (a_reap1 mr q a v) (leasedKey q) j = (if j = a then None else zset_at v (leasedKey q) j)"
    by (auto simp: a_reap1_def Let_def cogs_simps)
  then show ?case using Cons.IH [of "a_reap1 mr q a v"] by auto
qed simp

lemma expired_reap: "expired now q (a_reap mr now n q v) = expired now q v - set (reap_due now n q v)"
  by (auto simp: expired_def a_reap_def leased_reaps split: if_splits)

lemma set_reap_due_expired:
  assumes "finite (dom (zset_at v (leasedKey q)))"
  shows "set (due_members (zset_at v (leasedKey q)) now) = expired now q v"
  using set_due_members [OF assms] by (auto simp: expired_def)

lemma card_expired_reap:
  assumes "finite (dom (zset_at v (leasedKey q)))" and "0 \<le> n"
  shows "card (expired now q (a_reap mr now n q v)) = card (expired now q v) - nat n"
proof -
  let ?xs = "due_members (zset_at v (leasedKey q)) now"
  have s: "set ?xs = expired now q v" by (rule set_reap_due_expired [OF assms(1)])
  have "card (expired now q v) = length ?xs" by (metis s distinct_card due_members_distinct)
  moreover have "card (set (reap_due now n q v)) = min (nat n) (length ?xs)"
    using distinct_card [OF reap_due_distinct, of now n q v] assms(2) by (simp add: reap_due_def limited_def)
  moreover have "set (reap_due now n q v) \<subseteq> expired now q v"
    using set_limited_subset [of n ?xs] s by (simp add: reap_due_def)
  ultimately show ?thesis by (simp add: expired_reap card_Diff_subset)
qed

fun drain_times :: "'db redis \<Rightarrow> config \<Rightarrow> int \<Rightarrow> queue \<Rightarrow> nat \<Rightarrow> 'db \<Rightarrow> 'db" where
  "drain_times R c now q 0 d = d"
| "drain_times R c now q (Suc k) d =
     drain_times R c now q k (snd (drain R c now Delivered (leasedKey q) q True d))"

context redis_db
begin

lemma drain_times_expired:
  assumes "job_inv (MaxRetries c) (view R d)" and "config_ok c" and "0 \<le> DrainLimit c"
  shows "card (expired now q (view R (drain_times R c now q k d)))
    = card (expired now q (view R d)) - k * nat (DrainLimit c)"
  using assms(1)
proof (induction k arbitrary: d)
  case 0
  then show ?case by simp
next
  case (Suc k)
  let ?d1 = "snd (drain R c now Delivered (leasedKey q) q True d)"
  have v1: "view R ?d1 = a_reap (MaxRetries c) now (DrainLimit c) q (view R d)"
    using drain_reap [OF Suc.prems assms(2), of now q] by auto
  have "job_inv (MaxRetries c) (view R ?d1)"
    unfolding v1 using inv_reap [OF Suc.prems] config_ok_limits [OF assms(2)] by simp
  from Suc.IH [OF this] show ?case
    using card_expired_reap [OF zset_finite [of d "leasedKey q"] assms(3), where now = now and mr = "MaxRetries c"]
    by (simp add: v1 diff_diff_eq)
qed

lemma drain_times_all:
  assumes "job_inv (MaxRetries c) (view R d)" and "config_ok c" and "0 \<le> DrainLimit c"
    and "int (card (expired now q (view R d))) \<le> int k * DrainLimit c"
  shows "expired now q (view R (drain_times R c now q k d)) = {}"
proof -
  have "int (k * nat (DrainLimit c)) = int k * DrainLimit c" using assms(3) by simp
  then have "card (expired now q (view R d)) \<le> k * nat (DrainLimit c)" using assms(4) by linarith
  then have "card (expired now q (view R (drain_times R c now q k d))) = 0"
    using drain_times_expired [OF assms(1-3)] by simp
  moreover have "finite (expired now q (view R (drain_times R c now q k d)))"
    by (rule finite_subset [OF _ zset_finite [of "drain_times R c now q k d" "leasedKey q"]]) (auto simp: expired_def)
  ultimately show ?thesis by simp
qed

end

end
