(* ===== verification/Store_Reach.thy ===== *)
theory Store_Reach
  imports Cogs_Loops
begin

section \<open>Operations under interference and message loss\<close>

text \<open>
  Whatever other processes do between the round trips of an operation, and whichever messages
  are lost, the database moves along steps of the system. So what holds of all runs holds of all
  interleavings of requests, workers and passes of any number of replicas.
\<close>

text \<open>
  Which payloads a write stores: \<open>carries p x\<close> when all that \<open>x\<close> brings satisfy \<open>p\<close>. The paths
  of the system whose payloads do are \<open>reaches_by p\<close>; without a condition, \<open>reaches\<close>.
\<close>

fun carries :: "(string \<Rightarrow> bool) \<Rightarrow> op \<Rightarrow> bool" where
  "carries p (OpEnqueue j pl q t i ttl) \<longleftrightarrow> p pl"
| "carries p (OpFire now xs) \<longleftrightarrow> (\<forall>(sid, j, pl, nxt) \<in> set xs. p pl)"
| "carries p (OpCreateSchedule sid q spec pl t nxt) \<longleftrightarrow> p pl"
| "carries p _ \<longleftrightarrow> True"

lemma carries_any [simp]: "carries (\<lambda>_. True) x"
  by (cases x) auto

definition reaches_by :: "(string \<Rightarrow> bool) \<Rightarrow> 'db redis \<Rightarrow> config \<Rightarrow> 'db \<Rightarrow> 'db \<Rightarrow> bool" where
  "reaches_by p R c d d' \<longleftrightarrow> (\<exists>xs. runs (cogs_step R c) d xs d' \<and> list_all (carries p) xs)"

abbreviation reaches :: "'db redis \<Rightarrow> config \<Rightarrow> 'db \<Rightarrow> 'db \<Rightarrow> bool" where
  "reaches \<equiv> reaches_by (\<lambda>_. True)"

text \<open>The other processes' turns are themselves steps of the system.\<close>

definition lawful_by :: "(string \<Rightarrow> bool) \<Rightarrow> 'db redis \<Rightarrow> config \<Rightarrow> 'db turns \<Rightarrow> bool" where
  "lawful_by p R c turns \<longleftrightarrow> (\<forall>i d. reaches_by p R c d (snd (turns i) d))"

abbreviation lawful :: "'db redis \<Rightarrow> config \<Rightarrow> 'db turns \<Rightarrow> bool" where
  "lawful \<equiv> lawful_by (\<lambda>_. True)"

lemma reaches_refl [intro]: "reaches_by p R c d d"
  unfolding reaches_by_def by (rule exI [of _ "[]"]) simp

lemma reaches_trans [trans]: "reaches_by p R c d e \<Longrightarrow> reaches_by p R c e f \<Longrightarrow> reaches_by p R c d f"
  unfolding reaches_by_def by (metis runs_append list_all_append)

lemma reaches_op: "op_ok x (view R d) \<Longrightarrow> carries p x \<Longrightarrow> reaches_by p R c d (exec_op R c x d)"
  unfolding reaches_by_def by (rule exI [of _ "[x]"]) (auto simp: cogs_step_def intro: runs.intros)

lemma lawful_turn: "lawful_by p R c turns \<Longrightarrow> reaches_by p R c d (snd (turns i) d)"
  by (simp add: lawful_by_def)

lemma lawful_next [intro]: "lawful_by p R c turns \<Longrightarrow> lawful_by p R c (next_turns turns)"
  by (simp add: lawful_by_def next_turns_def)

lemma lawful_quiet [simp]: "lawful_by p R c quiet"
  by (auto simp: lawful_by_def)

lemma roundtrip_reaches:
  assumes "\<And>e. snd (f e) = exec_op R c x e" and "op_ok x (view R d)" and "carries p x"
  shows "reaches_by p R c d (snd (roundtrip net f d))"
  using assms reaches_op [OF assms(2,3)] by (cases net) auto

lemma claim_queues_reaches:
  "lawful_by p R c turns \<Longrightarrow> reaches_by p R c d (snd (claim_queues R batch dl qs jobs turns d))"
proof (induction qs arbitrary: jobs turns d)
  case Nil
  then show ?case by auto
next
  case (Cons q qs)
  let ?room = "batch - int (length jobs)" and ?d0 = "snd (turns 0) d"
  let ?trip = "roundtrip (fst (turns 0)) (claimScript R (pendingKey q) (leasedKey q) ?room dl) ?d0"
  have "reaches_by p R c ?d0 (snd ?trip)"
    by (rule roundtrip_reaches [where x = "OpClaim q ?room dl"]) simp_all
  then have "reaches_by p R c d (snd ?trip)" using lawful_turn [OF Cons.prems, of d 0] by (rule reaches_trans [rotated])
  then show ?case using Cons.IH [OF lawful_next [OF Cons.prems]]
    by (auto simp: split_beta split: sum.splits intro: reaches_trans)
qed

lemma Claim_reaches: "lawful_by p R c turns \<Longrightarrow> reaches_by p R c d (snd (Claim R c now turns qs batch d))"
  using claim_queues_reaches [of p R c turns d] by (auto simp: Claim_def Let_def split_beta)

lemma drain_reaches:
  "reaches_by p R c d (snd (drain R c now net (leasedKey q) q True d))"
  "reaches_by p R c d (snd (drain R c now net (retryKey q) q False d))"
proof -
  have "reaches_by p R c d (snd (roundtrip net (drainScript R (leasedKey q) (pendingKey q) (deadKey q) now
      (DrainLimit c) 1 (MaxRetries c)) d))"
    by (rule roundtrip_reaches [where x = "OpReap q now"]) simp_all
  then show "reaches_by p R c d (snd (drain R c now net (leasedKey q) q True d))"
    by (auto simp: drain_def split_beta split: sum.splits)
  have "reaches_by p R c d (snd (roundtrip net (drainScript R (retryKey q) (pendingKey q) (deadKey q) now
      (DrainLimit c) 0 (MaxRetries c)) d))"
    by (rule roundtrip_reaches [where x = "OpRetry q now"]) simp_all
  then show "reaches_by p R c d (snd (drain R c now net (retryKey q) q False d))"
    by (auto simp: drain_def split_beta split: sum.splits)
qed

lemma reap_queues_reaches:
  "lawful_by p R c turns \<Longrightarrow> reaches_by p R c d (snd (snd (reap_queues R c onRequeue clock turns qs d)))"
proof (induction qs arbitrary: clock turns d)
  case (Cons q qs)
  have "reaches_by p R c d (snd (drain R c (clock 0) (fst (turns 0)) (leasedKey q) q True (snd (turns 0) d)))"
    by (rule reaches_trans [OF lawful_turn [OF Cons.prems] drain_reaches(1)])
  then show ?case using Cons.IH [OF lawful_next [OF Cons.prems]]
    by (auto simp: split_beta split: sum.splits intro: reaches_trans)
qed auto

lemma retry_queues_reaches:
  "lawful_by p R c turns \<Longrightarrow> reaches_by p R c d (snd (snd (retry_queues R c clock turns qs d)))"
proof (induction qs arbitrary: clock turns d)
  case (Cons q qs)
  have "reaches_by p R c d (snd (drain R c (clock 0) (fst (turns 0)) (retryKey q) q False (snd (turns 0) d)))"
    by (rule reaches_trans [OF lawful_turn [OF Cons.prems] drain_reaches(2)])
  then show ?case using Cons.IH [OF lawful_next [OF Cons.prems]]
    by (auto simp: split_beta split: sum.splits intro: reaches_trans)
qed auto

lemma scan_loop_reaches:
  "lawful_by p R c turns \<Longrightarrow> scan_loop R turns fuel cursor pat seen d = Some (r, d') \<Longrightarrow> reaches_by p R c d d'"
proof (induction fuel arbitrary: turns cursor seen d)
  case (Suc fuel)
  note t = lawful_turn [OF Suc.prems(1), of d 0]
  show ?case using Suc.prems(2) Suc.IH [OF lawful_next [OF Suc.prems(1)]] t
    by (auto simp: Let_def split: sum.splits prod.splits if_splits intro: reaches_trans)
qed simp

lemma scan_all_reaches:
  "\<forall>i. lawful_by p R c (turns i) \<Longrightarrow> scan_all R turns fuel pats seen d = Some (r, d') \<Longrightarrow> reaches_by p R c d d'"
proof (induction pats arbitrary: turns seen d)
  case (Cons pat pats)
  have rest: "\<forall>i. lawful_by p R c (turns (Suc i))" using Cons.prems(1) by simp
  show ?case using Cons.prems(2) Cons.IH [OF rest] scan_loop_reaches [OF Cons.prems(1) [rule_format, of 0]]
    by (auto split: option.splits sum.splits prod.splits) (meson reaches_trans)
qed auto

lemma KnownQueues_reaches:
  "\<forall>i. lawful_by p R c (scans i) \<Longrightarrow> KnownQueues R order scans fuel d = Some (r, d') \<Longrightarrow> reaches_by p R c d d'"
  by (auto simp: KnownQueues_def split: option.splits sum.splits prod.splits dest: scan_all_reaches)

lemma reapPass_reaches:
  assumes "\<forall>i. lawful_by p R c (scans i)" and "lawful_by p R c turns"
    and "reapPass R c onRequeue order scans fuel clock turns d = Some (err, reports, d')"
  shows "reaches_by p R c d d'"
  using assms(3) KnownQueues_reaches [OF assms(1)] reap_queues_reaches [OF assms(2)]
  by (auto simp: reapPass_def split: option.splits sum.splits) (metis reaches_trans snd_conv)

lemma retryPass_reaches:
  assumes "\<forall>i. lawful_by p R c (scans i)" and "lawful_by p R c turns"
    and "retryPass R c order scans fuel clock turns d = Some (err, reports, d')"
  shows "reaches_by p R c d d'"
  using assms(3) KnownQueues_reaches [OF assms(1)] retry_queues_reaches [OF assms(2)]
  by (auto simp: retryPass_def split: option.splits sum.splits) (metis reaches_trans snd_conv)

context redis_db
begin

lemma reaches_inv:
  "reaches_by p R c d d' \<Longrightarrow> job_inv (MaxRetries c) (view R d) \<Longrightarrow> config_ok c \<Longrightarrow> job_inv (MaxRetries c) (view R d')"
  using runs_inv by (auto simp: reaches_by_def)

end

end
