(* ===== verification/Cogs_Scheduler.thy ===== *)
theory Cogs_Scheduler
  imports Store_Reach
begin

section \<open>Recurring schedules (internal/cogs/scheduler.go)\<close>

text \<open>
  A schedule is a hash and an entry of the sorted set \<open>schedules\<close>, scored by its next run. The
  cron library is a parameter: \<open>cron spec\<close> is \<open>cronParser.Parse(spec)\<close>, an error or the
  schedule's \<open>Next\<close> as a function from a time to a time. A \<open>time.Time\<close> is its nanoseconds since
  the Unix epoch; the library returns the zero \<open>time.Time\<close> when a schedule never runs.
\<close>

type_synonym cron = "string \<Rightarrow> string + (int \<Rightarrow> int)"

definition unix_milli :: "int \<Rightarrow> int" where
  "unix_milli t = t div 1000000"

definition zero_time :: int where
  "zero_time = - 62135596800 * Second"

record schedule =
  Sched_ID :: string
  Sched_Queue :: queue
  Sched_Cron :: string
  Sched_Payload :: string
  Sched_NextRun :: int
  Sched_LastRun :: int
  Sched_Disabled :: bool

subsection \<open>Create, Delete, List\<close>

text \<open>
  \<open>now\<close> is the \<open>time.Now()\<close> the next run is computed from, \<open>created\<close> the \<open>nowMS()\<close> of the
  hash. The transaction's two commands run without other commands in between.
\<close>

definition Create ::
  "'db redis \<Rightarrow> cron \<Rightarrow> 8 word list option \<Rightarrow> int \<Rightarrow> int \<Rightarrow> net \<Rightarrow> queue \<Rightarrow> string \<Rightarrow> string \<Rightarrow>
   'db \<Rightarrow> (error + schedule) \<times> 'db" where
  "Create R cron rnd now created net queue spec payload0 d =
     (case cron spec of
        Inl e \<Rightarrow> (Inl (ErrOther (''invalid cron expression: '' @ e)), d)
      | Inr sched \<Rightarrow>
          (case NewID rnd of
             Inl e \<Rightarrow> (Inl (ErrOther e), d)
           | Inr sid \<Rightarrow>
               let payload = (if payload0 = '''' then ''null'' else payload0);
                   next = unix_milli (sched now)
               in (case roundtrip net (\<lambda>d. (Inr (),
                      r_zadd R schedulesKey next sid
                        (r_hset R (scheduleKey sid) (schedule_fields queue spec payload (itoa created)) d))) d of
                     (Inl e, d') \<Rightarrow> (Inl (ErrOther e), d')
                   | (Inr _, d') \<Rightarrow> (Inr \<lparr>Sched_ID = sid, Sched_Queue = queue, Sched_Cron = spec,
                       Sched_Payload = payload, Sched_NextRun = next, Sched_LastRun = 0, Sched_Disabled = False\<rparr>, d'))))"

definition Delete :: "'db redis \<Rightarrow> net \<Rightarrow> string \<Rightarrow> 'db \<Rightarrow> error option \<times> 'db" where
  "Delete R net sid d =
     (case roundtrip net (\<lambda>d. (Inr (), snd (r_del R (scheduleKey sid) (snd (r_zrem R schedulesKey sid d))))) d of
        (Inl e, d') \<Rightarrow> (Some (ErrOther e), d')
      | (Inr (), d') \<Rightarrow> (None, d'))"

fun list_entries ::
  "'db redis \<Rightarrow> 'db turns \<Rightarrow> (string \<times> int) list \<Rightarrow> 'db \<Rightarrow> schedule list \<times> 'db" where
  "list_entries R turns [] d = ([], d)"
| "list_entries R turns ((sid, score) # entries) d =
     (let d0 = snd (turns 0) d in
      (case list_entries R (next_turns turns) entries d0 of
         (out, d1) \<Rightarrow>
           (case readtrip (fst (turns 0)) (r_hgetall R (scheduleKey sid)) d0 of
              Inl e \<Rightarrow> (out, d1)
            | Inr m \<Rightarrow>
                if m = [] then (out, d1)
                else (\<lparr>Sched_ID = sid, Sched_Queue = field m ''queue'', Sched_Cron = field m ''cron'',
                       Sched_Payload = field m ''payload'', Sched_NextRun = score, Sched_LastRun = 0,
                       Sched_Disabled = False\<rparr> # out, d1))))"

definition List :: "'db redis \<Rightarrow> net \<Rightarrow> 'db turns \<Rightarrow> 'db \<Rightarrow> (error + schedule list) \<times> 'db" where
  "List R net turns d =
     (case readtrip net (r_zrange_withscores R schedulesKey) d of
        Inl e \<Rightarrow> (Inl (ErrOther e), d)
      | Inr entries \<Rightarrow> (case list_entries R turns entries d of (out, d') \<Rightarrow> (Inr out, d')))"

subsection \<open>Pass\<close>

text \<open>
  What one iteration over a due schedule depends on: the fates and preceding turns of its read
  and of the removal it may send, the random bytes, and \<open>time.Now()\<close>.
\<close>

record 'db fire_input =
  fi_read :: "net \<times> ('db \<Rightarrow> 'db)"
  fi_drop :: "net \<times> ('db \<Rightarrow> 'db)"
  fi_rnd :: "8 word list option"
  fi_now :: int

definition drop_entry :: "'db redis \<Rightarrow> net \<times> ('db \<Rightarrow> 'db) \<Rightarrow> string \<Rightarrow> 'db \<Rightarrow> 'db" where
  "drop_entry R turn sid d =
     snd (roundtrip (fst turn) (\<lambda>d. case r_zrem R schedulesKey sid d of (n, d') \<Rightarrow> (Inr n, d')) (snd turn d))"

fun pass_args ::
  "'db redis \<Rightarrow> cron \<Rightarrow> (nat \<Rightarrow> 'db fire_input) \<Rightarrow> string list \<Rightarrow> quad list \<Rightarrow> 'db \<Rightarrow> (error + quad list) \<times> 'db" where
  "pass_args R cron inp [] args d = (Inr args, d)"
| "pass_args R cron inp (sid # due) args d =
     (let d0 = snd (fi_read (inp 0)) d; rest = (\<lambda>i. inp (Suc i)) in
      (case readtrip (fst (fi_read (inp 0))) (r_hgetall R (scheduleKey sid)) d0 of
         Inl e \<Rightarrow> pass_args R cron rest due args (drop_entry R (fi_drop (inp 0)) sid d0)
       | Inr m \<Rightarrow>
           if m = [] then pass_args R cron rest due args (drop_entry R (fi_drop (inp 0)) sid d0)
           else (case cron (field m ''cron'') of
               Inl e \<Rightarrow> pass_args R cron rest due args (drop_entry R (fi_drop (inp 0)) sid d0)
             | Inr parsed \<Rightarrow>
                 (case NewID (fi_rnd (inp 0)) of
                    Inl e \<Rightarrow> (Inl (ErrOther e), d0)
                  | Inr jobID \<Rightarrow>
                      pass_args R cron rest due
                        (args @ [(sid, jobID, field m ''payload'', unix_milli (parsed (fi_now (inp 0))))]) d0))))"

fun scheduled_counts :: "string list \<Rightarrow> report list" where
  "scheduled_counts (sid # q # fired) = Count (JobsScheduled q) 1 # scheduled_counts fired"
| "scheduled_counts _ = []"

text \<open>go-redis leaves LIMIT out when the count is 0, which is no limit.\<close>

definition due_limit :: "config \<Rightarrow> int" where
  "due_limit c = (if DrainLimit c = 0 then - 1 else DrainLimit c)"

definition Pass ::
  "'db redis \<Rightarrow> config \<Rightarrow> cron \<Rightarrow> int \<Rightarrow> net \<Rightarrow> (nat \<Rightarrow> 'db fire_input) \<Rightarrow> net \<times> ('db \<Rightarrow> 'db) \<Rightarrow>
   'db \<Rightarrow> error option \<times> report list \<times> 'db" where
  "Pass R c cron now net inp turn d =
     (case readtrip net (r_zrangebyscore R schedulesKey now (due_limit c)) d of
        Inl e \<Rightarrow> (Some (ErrOther e), [], d)
      | Inr due \<Rightarrow>
          if due = [] then (None, [], d)
          else (case pass_args R cron inp due [] d of
              (Inl e, d1) \<Rightarrow> (Some e, [], d1)
            | (Inr args, d1) \<Rightarrow>
                if args = [] then (None, [], d1)
                else (case roundtrip (fst turn) (scheduleDrainScript R schedulesKey now args) (snd turn d1) of
                    (Inl e, d2) \<Rightarrow> (Some (ErrOther e), [], d2)
                  | (Inr fired, d2) \<Rightarrow> (None, scheduled_counts fired, d2))))"

subsection \<open>A schedule fires once per due time\<close>

fun fired_ids :: "string list \<Rightarrow> string list" where
  "fired_ids (sid # q # xs) = sid # fired_ids xs"
| "fired_ids _ = []"

lemma fired_ids_Cons:
  "fired_ids (a_fired1 now (sid, j, p, nx) v @ xs) =
     (if \<exists>s q. zset_at v schedulesKey sid = Some s \<and> s \<le> now \<and> hash_at v (scheduleKey sid) ''queue'' = Some q
      then sid # fired_ids xs else fired_ids xs)"
  by (simp add: a_fired1_def split: option.splits)

lemma score_fire1:
  "zset_at (a_fire1 nows now (sid, j, p, nx) v) schedulesKey =
     (if \<exists>s q. zset_at v schedulesKey sid = Some s \<and> s \<le> now \<and> hash_at v (scheduleKey sid) ''queue'' = Some q
      then (zset_at v schedulesKey)(sid \<mapsto> nx) else zset_at v schedulesKey)"
  by (simp add: a_fire1_def a_enqueue_def split: option.splits)

text \<open>A schedule that is not due when a batch starts does not fire in it.\<close>

lemma fire_not_due:
  assumes "\<not> (\<exists>s. zset_at v schedulesKey sid = Some s \<and> s \<le> now)"
  shows "sid \<notin> set (fired_ids (fst (a_fire nows now xs v)))
    \<and> zset_at (snd (a_fire nows now xs v)) schedulesKey sid = zset_at v schedulesKey sid"
  using assms
proof (induction xs arbitrary: v)
  case (Cons x xs)
  obtain s j p nx where x: "x = (s, j, p, nx)" by (cases x)
  have same: "zset_at (a_fire1 nows now x v) schedulesKey sid = zset_at v schedulesKey sid"
    using Cons.prems by (auto simp: x score_fire1)
  then have "\<not> (\<exists>s. zset_at (a_fire1 nows now x v) schedulesKey sid = Some s \<and> s \<le> now)"
    using Cons.prems by simp
  note IH = Cons.IH [OF this]
  show ?case using IH same Cons.prems by (auto simp: x split_beta fired_ids_Cons)
qed simp

lemma fire_score_same:
  "sid \<notin> set (fired_ids (fst (a_fire nows now xs v))) \<Longrightarrow>
   zset_at (snd (a_fire nows now xs v)) schedulesKey sid = zset_at v schedulesKey sid"
proof (induction xs arbitrary: v)
  case (Cons x xs)
  obtain s j p nx where x: "x = (s, j, p, nx)" by (cases x)
  have "sid \<notin> set (fired_ids (fst (a_fire nows now xs (a_fire1 nows now x v))))"
    "zset_at (a_fire1 nows now x v) schedulesKey sid = zset_at v schedulesKey sid"
    using Cons.prems by (auto simp: x split_beta fired_ids_Cons score_fire1 split: if_splits)
  then show ?case using Cons.IH by (simp add: split_beta)
qed simp

text \<open>After a batch, the score of a schedule it fired is one of the batch's next runs for it.\<close>

lemma fire_score:
  "sid \<in> set (fired_ids (fst (a_fire nows now xs v))) \<Longrightarrow>
   \<exists>j p nx. (sid, j, p, nx) \<in> set xs \<and> zset_at (snd (a_fire nows now xs v)) schedulesKey sid = Some nx"
proof (induction xs arbitrary: v)
  case (Cons x xs)
  obtain s j p nx where x: "x = (s, j, p, nx)" by (cases x)
  let ?w = "a_fire1 nows now x v"
  show ?case
  proof (cases "sid \<in> set (fired_ids (fst (a_fire nows now xs ?w)))")
    case True
    then show ?thesis using Cons.IH [OF True] by (auto simp: split_beta)
  next
    case False
    have "s = sid \<and> zset_at ?w schedulesKey sid = Some nx"
      using Cons.prems False by (auto simp: x split_beta fired_ids_Cons score_fire1 split: if_splits)
    then show ?thesis using fire_score_same [OF False] by (auto simp: x split_beta)
  qed
qed simp

lemma fire_twice:
  assumes "\<forall>(sid, j, p, nx) \<in> set xs. now2 < nx"
  shows "set (fired_ids (fst (a_fire nows now xs v)))
    \<inter> set (fired_ids (fst (a_fire nows2 now2 ys (snd (a_fire nows now xs v))))) = {}"
proof (rule ccontr)
  assume "\<not> ?thesis"
  then obtain sid where 1: "sid \<in> set (fired_ids (fst (a_fire nows now xs v)))"
    and 2: "sid \<in> set (fired_ids (fst (a_fire nows2 now2 ys (snd (a_fire nows now xs v)))))" by blast
  obtain j p nx where "(sid, j, p, nx) \<in> set xs"
    and score: "zset_at (snd (a_fire nows now xs v)) schedulesKey sid = Some nx"
    using fire_score [OF 1] by blast
  then have "now2 < nx" using assms by auto
  then have "\<not> (\<exists>s. zset_at (snd (a_fire nows now xs v)) schedulesKey sid = Some s \<and> s \<le> now2)"
    using score by simp
  from fire_not_due [OF this] show False using 2 by blast
qed

lemma live_fire: "live (snd (a_fire nows now xs v)) \<subseteq> (fst \<circ> snd) ` set xs \<union> live v"
proof (induction xs arbitrary: v)
  case (Cons x xs)
  obtain sid j p nx where x: "x = (sid, j, p, nx)" by (cases x)
  show ?case using Cons.IH [of "a_fire1 nows now x v"] live_fire1 [of nows now sid j p nx v]
    by (auto simp: x split_beta)
qed simp

context redis_db
begin

lemma scheduleDrain_twice:
  assumes "distinct (map (fst \<circ> snd) (xs @ ys))" and "(fst \<circ> snd) ` set (xs @ ys) \<inter> live (view R d) = {}"
    and "\<forall>(sid, j, p, nx) \<in> set xs. now2 < nx"
  shows "\<exists>fired d1 fired2 d2. scheduleDrainScript R schedulesKey now xs d = (Inr fired, d1)
    \<and> scheduleDrainScript R schedulesKey now2 ys d1 = (Inr fired2, d2)
    \<and> set (fired_ids fired) \<inter> set (fired_ids fired2) = {}"
proof -
  let ?nows = "r_lua_number R now" and ?nows2 = "r_lua_number R now2"
  obtain d1 where 1: "scheduleDrainScript R schedulesKey now xs d = (Inr (fst (a_fire ?nows now xs (view R d))), d1)"
    "view R d1 = snd (a_fire ?nows now xs (view R d))"
    using scheduleDrain_refines [of xs d now] assms(1,2) by auto
  have "(fst \<circ> snd) ` set ys \<inter> live (view R d1) = {}"
    using assms(1,2) live_fire [of ?nows now xs "view R d"] unfolding 1(2) by auto
  then obtain d2 where "scheduleDrainScript R schedulesKey now2 ys d1
      = (Inr (fst (a_fire ?nows2 now2 ys (view R d1))), d2)"
    using scheduleDrain_refines [of ys d1 now2] assms(1) by auto
  then show ?thesis using 1 fire_twice [OF assms(3)] by simp
qed

end

subsection \<open>Every due schedule fires\<close>

definition ready :: "int \<Rightarrow> rview \<Rightarrow> string \<Rightarrow> queue \<Rightarrow> bool" where
  "ready now v sid q \<longleftrightarrow> (\<exists>s. zset_at v schedulesKey sid = Some s \<and> s \<le> now) \<and>
     hash_at v (scheduleKey sid) ''queue'' = Some q"

lemma ready_fire1:
  "ready now v sid q \<Longrightarrow> a_fire1 nows now (sid, j, p, nx) v =
     upd_zset schedulesKey ((zset_at v schedulesKey)(sid \<mapsto> nx))
       (upd_hash (scheduleKey sid) ((hash_at v (scheduleKey sid))(''last_run'' \<mapsto> nows))
          (a_enqueue j p q nows '''' v))
   \<and> a_fired1 now (sid, j, p, nx) v = [sid, q]"
  by (auto simp: ready_def a_fire1_def a_fired1_def)

lemma ready_other:
  "sid' \<noteq> sid \<Longrightarrow> ready now (a_fire1 nows now (sid, j, p, nx) v) sid' q \<longleftrightarrow> ready now v sid' q"
  by (auto simp: ready_def a_fire1_def a_enqueue_def split: option.splits)

lemma fire_pending_grows:
  "set (list_at v (pendingKey q)) \<subseteq> set (list_at (snd (a_fire nows now xs v)) (pendingKey q))"
proof (induction xs arbitrary: v)
  case (Cons x xs)
  have "set (list_at v (pendingKey q)) \<subseteq> set (list_at (a_fire1 nows now x v) (pendingKey q))"
    by (cases x) (auto simp: a_fire1_def a_enqueue_def split: option.splits)
  then show ?case using Cons.IH by (auto simp: split_beta)
qed simp

lemma fire_all:
  assumes "distinct (map fst xs)" and "distinct (map (fst \<circ> snd) xs)"
    and "\<forall>sid j p nx. (sid, j, p, nx) \<in> set xs \<longrightarrow> (\<exists>q. ready now v sid q)"
  shows "fired_ids (fst (a_fire nows now xs v)) = map fst xs \<and>
    (\<forall>sid j p nx q. (sid, j, p, nx) \<in> set xs \<longrightarrow> ready now v sid q \<longrightarrow>
       zset_at (snd (a_fire nows now xs v)) schedulesKey sid = Some nx \<and>
       hash_at (snd (a_fire nows now xs v)) (jobKey j) = job_hash p q 0 '''' nows \<and>
       j \<in> set (list_at (snd (a_fire nows now xs v)) (pendingKey q)))"
  using assms
proof (induction xs arbitrary: v)
  case Nil
  then show ?case by simp
next
  case (Cons x xs)
  obtain sid j p nx where x: "x = (sid, j, p, nx)" by (cases x)
  obtain q where r: "ready now v sid q" using Cons.prems(3) x by (metis list.set_intros(1))
  let ?w = "a_fire1 nows now x v"
  note w = ready_fire1 [OF r, of nows j p nx, folded x]
  have other: "ready now ?w sid' q' \<longleftrightarrow> ready now v sid' q'" if "(sid', y) \<in> set xs" for sid' q' y
    using that Cons.prems(1) by (intro ready_other [of sid' sid now nows j p nx v q', folded x]) (force simp: x)
  have rdy: "\<forall>sid j p nx. (sid, j, p, nx) \<in> set xs \<longrightarrow> (\<exists>q. ready now ?w sid q)" using Cons.prems(3) other by (metis list.set_intros(2))
  have IH: "fired_ids (fst (a_fire nows now xs ?w)) = map fst xs"
    "\<forall>sid j p nx q. (sid, j, p, nx) \<in> set xs \<longrightarrow> ready now ?w sid q \<longrightarrow>
       zset_at (snd (a_fire nows now xs ?w)) schedulesKey sid = Some nx \<and>
       hash_at (snd (a_fire nows now xs ?w)) (jobKey j) = job_hash p q 0 '''' nows \<and>
       j \<in> set (list_at (snd (a_fire nows now xs ?w)) (pendingKey q))"
    using Cons.IH [OF _ _ rdy] Cons.prems(1,2) by simp_all
  have sid: "sid \<notin> set (fired_ids (fst (a_fire nows now xs ?w)))" using Cons.prems(1) x unfolding IH(1) by simp
  have jnew: "j \<notin> ids_of_quads xs" using Cons.prems(2) by (auto simp: x ids_of_quads_def)
  let ?u = "snd (a_fire nows now xs ?w)"
  have head: "zset_at ?u schedulesKey sid = Some nx \<and> hash_at ?u (jobKey j) = job_hash p q 0 '''' nows
      \<and> j \<in> set (list_at ?u (pendingKey q))"
  proof (intro conjI)
    show "zset_at ?u schedulesKey sid = Some nx"
      using fire_score_same [OF sid] by (simp add: w)
    show "hash_at ?u (jobKey j) = job_hash p q 0 '''' nows"
      by (simp add: hash_fire [OF jnew]) (simp add: w a_enqueue_def)
    show "j \<in> set (list_at ?u (pendingKey q))"
      using fire_pending_grows [of ?w q nows now xs] by (auto simp: w a_enqueue_def)
  qed
  have uniq: "q' = q" if "ready now v sid q'" for q' using r that by (auto simp: ready_def)
  have tail: "\<forall>sid' j' p' nx' q. (sid', j', p', nx') \<in> set xs \<longrightarrow> ready now v sid' q \<longrightarrow>
       zset_at ?u schedulesKey sid' = Some nx' \<and> hash_at ?u (jobKey j') = job_hash p' q 0 '''' nows \<and>
       j' \<in> set (list_at ?u (pendingKey q))"
    using IH(2) other by metis
  have "a_fire nows now (x # xs) v = ([sid, q] @ fst (a_fire nows now xs ?w), ?u)"
    using w by (simp add: split_beta)
  then show ?case using IH(1) head tail uniq by (auto simp: x)
qed

subsection \<open>A quiet pass\<close>

text \<open>The quads a quiet pass builds for schedules whose hashes are there and parse.\<close>

definition quiet_input :: "(nat \<Rightarrow> 8 word list) \<Rightarrow> int \<Rightarrow> nat \<Rightarrow> 'db fire_input" where
  "quiet_input rnd t i = \<lparr>fi_read = (Delivered, \<lambda>d. d), fi_drop = (Delivered, \<lambda>d. d),
     fi_rnd = Some (rnd i), fi_now = t\<rparr>"

lemma quiet_input_simps [simp]:
  "fi_read (quiet_input rnd t i) = (Delivered, \<lambda>d. d)" "fi_drop (quiet_input rnd t i) = (Delivered, \<lambda>d. d)"
  "fi_rnd (quiet_input rnd t i) = Some (rnd i)" "fi_now (quiet_input rnd t i) = t"
  "(\<lambda>i. quiet_input rnd t (Suc i)) = quiet_input (\<lambda>i. rnd (Suc i)) t"
  by (simp_all add: quiet_input_def fun_eq_iff)

definition hash_field :: "rview \<Rightarrow> string \<Rightarrow> string \<Rightarrow> string" where
  "hash_field v sid f = (case hash_at v (scheduleKey sid) f of None \<Rightarrow> '''' | Some x \<Rightarrow> x)"

definition parses :: "cron \<Rightarrow> rview \<Rightarrow> string \<Rightarrow> (int \<Rightarrow> int) \<Rightarrow> bool" where
  "parses cron v sid nxt \<longleftrightarrow> cron (hash_field v sid ''cron'') = Inr nxt"

definition next_of :: "cron \<Rightarrow> rview \<Rightarrow> string \<Rightarrow> int \<Rightarrow> int" where
  "next_of cron v sid t = (case cron (hash_field v sid ''cron'') of Inl e \<Rightarrow> 0 | Inr nxt \<Rightarrow> unix_milli (nxt t))"

fun due_quads :: "cron \<Rightarrow> rview \<Rightarrow> (nat \<Rightarrow> 8 word list) \<Rightarrow> int \<Rightarrow> string list \<Rightarrow> quad list" where
  "due_quads cron v rnd t [] = []"
| "due_quads cron v rnd t (sid # due) =
     (sid, hex_encode (rnd 0), hash_field v sid ''payload'', next_of cron v sid t)
     # due_quads cron v (\<lambda>i. rnd (Suc i)) t due"

lemma map_fst_due_quads: "map fst (due_quads cron v rnd t due) = due"
  by (induction due arbitrary: rnd) simp_all

lemma ids_due_quads: "map (fst \<circ> snd) (due_quads cron v rnd t due) = map (\<lambda>i. hex_encode (rnd i)) [0..<length due]"
proof (induction due arbitrary: rnd)
  case (Cons sid due)
  have "[0..<length (sid # due)] = 0 # map Suc [0..<length due]" by (simp add: map_Suc_upt upt_conv_Cons del: upt_Suc)
  then show ?case using Cons.IH [of "\<lambda>i. rnd (Suc i)"] by simp
qed simp

lemma nth_due_quads: "i < length due \<Longrightarrow> due_quads cron v rnd t due ! i
    = (due ! i, hex_encode (rnd i), hash_field v (due ! i) ''payload'', next_of cron v (due ! i) t)"
  by (induction due arbitrary: rnd i) (auto simp: nth_Cons split: nat.splits)

lemma length_due_quads: "length (due_quads cron v rnd t due) = length due"
  by (induction due arbitrary: rnd) simp_all

context redis_db
begin

lemma hgetall_field:
  "field (r_hgetall R (scheduleKey sid) d) f = hash_field (view R d) sid f"
  by (simp add: field_def hash_field_def hgetall)

lemma pass_args_quiet:
  assumes "\<forall>sid \<in> set due. hash_at (view R d) (scheduleKey sid) \<noteq> Map.empty"
    and "\<forall>sid \<in> set due. \<exists>nxt. parses cron (view R d) sid nxt"
  shows "pass_args R cron (quiet_input rnd t) due args d = (Inr (args @ due_quads cron (view R d) rnd t due), d)"
  using assms
proof (induction due arbitrary: rnd args)
  case Nil
  then show ?case by simp
next
  case (Cons sid due)
  have "r_hgetall R (scheduleKey sid) d \<noteq> []" using Cons.prems(1) by (simp add: hgetall_empty)
  moreover obtain nxt where "cron (hash_field (view R d) sid ''cron'') = Inr nxt"
    using Cons.prems(2) by (auto simp: parses_def)
  ultimately show ?case using Cons.IH [of "\<lambda>i. rnd (Suc i)"] Cons.prems
    by (simp add: readtrip_def NewID_def hgetall_field next_of_def Let_def)
qed

text \<open>
  A quiet pass fires each due schedule exactly once, however many of its runs were missed:
  one job each, with the schedule's payload, pending in the schedule's queue, and the schedule's
  next run set.
\<close>

lemma Pass_quiet:
  fixes d now c cron rnd t
  defines "v \<equiv> view R d"
  defines "due \<equiv> limited (due_limit c) (due_members (zset_at v schedulesKey) now)"
  assumes hashes: "\<forall>sid \<in> set due. hash_at v (scheduleKey sid) ''queue'' \<noteq> None"
    and parse: "\<forall>sid \<in> set due. \<exists>nxt. parses cron v sid nxt"
    and ids: "distinct (map (\<lambda>i. hex_encode (rnd i)) [0..<length due])"
      "\<forall>i < length due. hex_encode (rnd i) \<notin> live v"
  shows "\<exists>reports d'. Pass R c cron now Delivered (quiet_input rnd t) (Delivered, \<lambda>d. d) d = (None, reports, d')
    \<and> view R d' = snd (a_fire (r_lua_number R now) now (due_quads cron v rnd t due) v)
    \<and> reports = scheduled_counts (fst (a_fire (r_lua_number R now) now (due_quads cron v rnd t due) v))
    \<and> fired_ids (fst (a_fire (r_lua_number R now) now (due_quads cron v rnd t due) v)) = due
    \<and> (\<forall>sid j p nx. (sid, j, p, nx) \<in> set (due_quads cron v rnd t due) \<longrightarrow>
        (\<exists>q. hash_at v (scheduleKey sid) ''queue'' = Some q
          \<and> zset_at (view R d') schedulesKey sid = Some nx
          \<and> hash_at (view R d') (jobKey j) = job_hash p q 0 '''' (r_lua_number R now)
          \<and> j \<in> set (list_at (view R d') (pendingKey q))))"
proof -
  let ?xs = "due_quads cron v rnd t due" and ?nows = "r_lua_number R now"
  have read: "r_zrangebyscore R schedulesKey now (due_limit c) d = due"
    by (simp add: zrangebyscore due_limit_def due_def v_def)
  have nonempty: "\<forall>sid \<in> set due. hash_at v (scheduleKey sid) \<noteq> Map.empty"
    using hashes by metis
  have args: "pass_args R cron (quiet_input rnd t) due [] d = (Inr ?xs, d)"
    using pass_args_quiet [of due d cron rnd t "[]"] nonempty parse by (simp add: v_def)
  have d1: "distinct (map fst ?xs)"
    by (simp add: map_fst_due_quads due_def limited_distinct due_members_distinct)
  have d2: "distinct (map (fst \<circ> snd) ?xs)" unfolding ids_due_quads by (rule ids(1))
  have "ids_of_quads ?xs = set (map (fst \<circ> snd) ?xs)" by (simp add: ids_of_quads_def)
  then have d3: "(fst \<circ> snd) ` set ?xs \<inter> live v = {}"
    unfolding ids_of_quads_def ids_due_quads using ids(2) by auto
  have due_ready: "\<exists>q. ready now v sid q" if "sid \<in> set due" for sid
  proof -
    have "sid \<in> set (due_members (zset_at v schedulesKey) now)"
      using that set_limited_subset [of "due_limit c" "due_members (zset_at v schedulesKey) now"]
      by (auto simp: due_def)
    moreover have "finite (dom (zset_at v schedulesKey))" by (simp add: v_def zset_finite)
    ultimately obtain s where "zset_at v schedulesKey sid = Some s" "s \<le> now" by (auto simp: set_due_members)
    then show ?thesis using hashes that by (auto simp: ready_def)
  qed
  have rdy: "\<forall>sid j p nx. (sid, j, p, nx) \<in> set ?xs \<longrightarrow> (\<exists>q. ready now v sid q)"
    using due_ready map_fst_due_quads [of cron v rnd t due] by (metis fst_conv in_set_conv_nth length_map nth_map nth_mem)
  note all = fire_all [OF d1 d2 rdy, of ?nows]
  obtain d' where script: "scheduleDrainScript R schedulesKey now ?xs d = (Inr (fst (a_fire ?nows now ?xs v)), d')"
    and v': "view R d' = snd (a_fire ?nows now ?xs v)"
    using scheduleDrain_refines [of ?xs d now] d2 d3 unfolding v_def by blast
  have jobs: "\<forall>sid j p nx. (sid, j, p, nx) \<in> set ?xs \<longrightarrow>
        (\<exists>q. hash_at v (scheduleKey sid) ''queue'' = Some q
          \<and> zset_at (view R d') schedulesKey sid = Some nx
          \<and> hash_at (view R d') (jobKey j) = job_hash p q 0 '''' (r_lua_number R now)
          \<and> j \<in> set (list_at (view R d') (pendingKey q)))"
  proof (intro allI impI)
    fix sid j p nx assume m: "(sid, j, p, nx) \<in> set ?xs"
    then obtain q where r: "ready now v sid q" using rdy by blast
    then have q: "hash_at v (scheduleKey sid) ''queue'' = Some q" by (simp add: ready_def)
    have "zset_at (snd (a_fire ?nows now ?xs v)) schedulesKey sid = Some nx \<and>
       hash_at (snd (a_fire ?nows now ?xs v)) (jobKey j) = job_hash p q 0 '''' ?nows \<and>
       j \<in> set (list_at (snd (a_fire ?nows now ?xs v)) (pendingKey q))"
      using all m r by blast
    then show "\<exists>q. hash_at v (scheduleKey sid) ''queue'' = Some q
          \<and> zset_at (view R d') schedulesKey sid = Some nx
          \<and> hash_at (view R d') (jobKey j) = job_hash p q 0 '''' (r_lua_number R now)
          \<and> j \<in> set (list_at (view R d') (pendingKey q))"
      unfolding v' using q by blast
  qed
  have fired: "fired_ids (fst (a_fire ?nows now ?xs v)) = due" using all by (simp add: map_fst_due_quads)
  have "\<exists>reports. Pass R c cron now Delivered (quiet_input rnd t) (Delivered, \<lambda>d. d) d = (None, reports, d')
    \<and> reports = scheduled_counts (fst (a_fire ?nows now ?xs v))"
  proof (cases due)
    case Nil
    then have "view R d' = view R d" by (simp add: v' v_def)
    moreover have "d' = d" using script Nil by (simp add: scheduleDrainScript_def)
    ultimately show ?thesis using read Nil by (simp add: Pass_def readtrip_def)
  next
    case (Cons sid rest)
    have "?xs \<noteq> []" by (simp add: Cons)
    then show ?thesis using read args script by (simp add: Pass_def readtrip_def) (simp add: Cons)
  qed
  then show ?thesis using v' fired jobs by blast
qed

text \<open>The same, schedule by schedule.\<close>

lemma Pass_quiet_each:
  fixes d now c cron rnd t
  defines "v \<equiv> view R d"
  defines "due \<equiv> limited (due_limit c) (due_members (zset_at v schedulesKey) now)"
  assumes "\<forall>sid \<in> set due. hash_at v (scheduleKey sid) ''queue'' \<noteq> None"
    and "\<forall>sid \<in> set due. \<exists>nxt. parses cron v sid nxt"
    and "distinct (map (\<lambda>i. hex_encode (rnd i)) [0..<length due])"
    and "\<forall>i < length due. hex_encode (rnd i) \<notin> live v"
  shows "\<exists>reports d'. Pass R c cron now Delivered (quiet_input rnd t) (Delivered, \<lambda>d. d) d = (None, reports, d')
    \<and> (\<forall>i < length due. \<exists>q. hash_at v (scheduleKey (due ! i)) ''queue'' = Some q
          \<and> zset_at (view R d') schedulesKey (due ! i) = Some (next_of cron v (due ! i) t)
          \<and> hash_at (view R d') (jobKey (hex_encode (rnd i)))
              = job_hash (hash_field v (due ! i) ''payload'') q 0 '''' (r_lua_number R now)
          \<and> hex_encode (rnd i) \<in> set (list_at (view R d') (pendingKey q)))"
proof -
  let ?xs = "due_quads cron v rnd t due"
  obtain reports d' where run: "Pass R c cron now Delivered (quiet_input rnd t) (Delivered, \<lambda>d. d) d = (None, reports, d')"
    and each: "\<And>sid j p nx. (sid, j, p, nx) \<in> set ?xs \<Longrightarrow>
        (\<exists>q. hash_at v (scheduleKey sid) ''queue'' = Some q
          \<and> zset_at (view R d') schedulesKey sid = Some nx
          \<and> hash_at (view R d') (jobKey j) = job_hash p q 0 '''' (r_lua_number R now)
          \<and> j \<in> set (list_at (view R d') (pendingKey q)))"
    using Pass_quiet [of c d now cron rnd t] assms(3-6) unfolding v_def due_def by blast
  have "(due ! i, hex_encode (rnd i), hash_field v (due ! i) ''payload'', next_of cron v (due ! i) t) \<in> set ?xs"
    if "i < length due" for i
    using nth_mem [of i ?xs] that by (simp add: nth_due_quads length_due_quads)
  from run each [OF this] show ?thesis by blast
qed

text \<open>
  A read that fails for any reason removes the schedule from the sorted set: its hash is left,
  and it never fires again.
\<close>

lemma pass_args_lost_read:
  assumes "fst (fi_read (inp 0)) = LostRequest e" and "fi_drop (inp 0) = (Delivered, \<lambda>d. d)"
    and "snd (fi_read (inp 0)) = (\<lambda>d. d)"
  shows "\<exists>d'. pass_args R cron inp [sid] args d = (Inr args, d')
    \<and> view R d' = upd_zset schedulesKey ((zset_at (view R d) schedulesKey)(sid := None)) (view R d)"
  using assms zrem_view [of schedulesKey sid d]
  by (auto simp: readtrip_def drop_entry_def split_beta)

lemma Pass_lost_read:
  assumes "limited (due_limit c) (due_members (zset_at (view R d) schedulesKey) now) = [sid]"
    and "fst (fi_read (inp 0)) = LostRequest e" and "fi_drop (inp 0) = (Delivered, \<lambda>d. d)"
    and "snd (fi_read (inp 0)) = (\<lambda>d. d)"
  shows "\<exists>d'. Pass R c cron now Delivered inp turn d = (None, [], d')
    \<and> zset_at (view R d') schedulesKey sid = None
    \<and> hash_at (view R d') (scheduleKey sid) = hash_at (view R d) (scheduleKey sid)"
proof -
  have "r_zrangebyscore R schedulesKey now (due_limit c) d = [sid]"
    using assms(1) by (simp add: zrangebyscore due_limit_def)
  then show ?thesis
    using pass_args_lost_read [where inp = inp and e = e and cron = cron and sid = sid and args = "[]" and d = d,
        OF assms(2-4)]
    by (auto simp: Pass_def readtrip_def)
qed

text \<open>
  A schedule whose cron expression never matches is created with a next run in the year 1, so
  it is due at once; the pass that fires it sets the same next run, so it is due again.
\<close>

lemma Create_never:
  assumes "cron spec = Inr nxt" and "nxt now = zero_time" and "NewID rnd = Inr sid"
    and "zset_at (view R d) schedulesKey = Map.empty" and "hash_at (view R d) (scheduleKey sid) = Map.empty"
  shows "\<exists>s d'. Create R cron rnd now created Delivered q spec p d = (Inr s, d')
    \<and> view R d' = upd_zset schedulesKey [sid \<mapsto> - 62135596800000] (upd_hash (scheduleKey sid)
        (map_of (schedule_fields q spec (if p = '''' then ''null'' else p) (itoa created))) (view R d))"
  using assms by (simp add: Create_def Let_def unix_milli_def zero_time_def zadd_view hset_view)

lemma due_single:
  assumes "due_limit c \<noteq> 0" and "s \<le> now"
  shows "limited (due_limit c) (due_members [sid \<mapsto> s] now) = [sid]"
proof -
  have "set (due_members [sid \<mapsto> s] now) = {sid}" using assms(2) by (auto simp: set_due_members split: if_splits)
  then have "due_members [sid \<mapsto> s] now = [sid]" by (intro distinct_singleton due_members_distinct)
  then show ?thesis using assms(1) by (auto simp: limited_def nat_eq_iff2 take_Cons' )
qed

lemma never_fires_again:
  assumes cron: "cron spec = Inr nxt" "\<And>t. nxt t = zero_time" and sid: "NewID rnd = Inr sid"
    and none: "zset_at (view R d) schedulesKey = Map.empty" "hash_at (view R d) (scheduleKey sid) = Map.empty"
    and fresh: "hex_encode (bytes 0) \<notin> live (view R d)" and now2: "- 62135596800000 \<le> now2"
  shows "\<exists>s d1 reports d2. Create R cron rnd now created Delivered q spec p d = (Inr s, d1)
    \<and> Pass R c cron now2 Delivered (quiet_input bytes t) (Delivered, \<lambda>d. d) d1 = (None, reports, d2)
    \<and> hex_encode (bytes 0) \<in> set (list_at (view R d2) (pendingKey q))
    \<and> zset_at (view R d2) schedulesKey sid = Some (- 62135596800000)"
proof -
  obtain s d1 where create: "Create R cron rnd now created Delivered q spec p d = (Inr s, d1)"
    and v1: "view R d1 = upd_zset schedulesKey [sid \<mapsto> - 62135596800000] (upd_hash (scheduleKey sid)
        (map_of (schedule_fields q spec (if p = '''' then ''null'' else p) (itoa created))) (view R d))"
    using Create_never [where cron = cron and spec = spec, OF cron(1) cron(2) sid none] by blast
  have due: "limited (due_limit c) (due_members (zset_at (view R d1) schedulesKey) now2) = [sid]"
    using due_single [OF _ now2, of c sid] by (simp add: v1 due_limit_def)
  have reads: "hash_at (view R d1) (scheduleKey sid) ''queue'' = Some q"
    "hash_field (view R d1) sid ''cron'' = spec" "live (view R d1) = live (view R d)"
    by (simp_all add: v1 schedule_fields_def hash_field_def cogs_simps)
  have next_zero: "next_of cron (view R d1) sid t = - 62135596800000"
    by (simp add: next_of_def reads cron unix_milli_def zero_time_def)
  show ?thesis
    using Pass_quiet_each [of c d1 now2 cron bytes t] create
    unfolding due by (auto simp: reads parses_def cron(1) fresh next_zero)
qed

end

end
