(* ===== verification/Cogs_Api.thy ===== *)
theory Cogs_Api
  imports Cogs_Scheduler
begin

section \<open>The HTTP handlers (internal/cogs/api.go and the handlers of scheduler.go)\<close>

text \<open>
  Each handler as a function of its decoded request, what its operations depend on, and the
  database, to the response it writes, the updates of the counters, and the next database. The
  JSON texts are the subject of Cogs_Wire: here a request is what \<open>decode\<close> gave, an error text or the
  struct. A
  response has the status and body the handler wrote; \<open>ClientGone\<close> is the 499 that labels the
  metric and writes nothing. Time for which a request takes is not modelled: an update of
  \<open>RequestDuration\<close> counts the observation.
\<close>

subsection \<open>Responses\<close>

datatype body =
    ErrBody string string
  | EnqueueBody job_id queue bool
  | ClaimBody "job list" int int
  | RenewBody job_id int
  | AckedBody int
  | StateBody job_id string
  | JobBody job
  | StatsBody queue_stats
  | DeadBody queue "job_id list"
  | ScheduleBody schedule
  | SchedulesBody "schedule list"
  | StatusBody string
  | ReadyBody bool
  | NoBody

datatype response = Response int body | ClientGone

fun status_of :: "response \<Rightarrow> int" where
  "status_of (Response n b) = n"
| "status_of ClientGone = 499"

type_synonym 'db handled = "response \<times> updates \<times> 'db"

abbreviation StatusOK :: int where "StatusOK \<equiv> 200"
abbreviation StatusCreated :: int where "StatusCreated \<equiv> 201"
abbreviation StatusNoContent :: int where "StatusNoContent \<equiv> 204"
abbreviation StatusBadRequest :: int where "StatusBadRequest \<equiv> 400"
abbreviation StatusUnauthorized :: int where "StatusUnauthorized \<equiv> 401"
abbreviation StatusNotFound :: int where "StatusNotFound \<equiv> 404"
abbreviation StatusConflict :: int where "StatusConflict \<equiv> 409"
abbreviation StatusUnprocessableEntity :: int where "StatusUnprocessableEntity \<equiv> 422"
abbreviation StatusInternalServerError :: int where "StatusInternalServerError \<equiv> 500"
abbreviation StatusServiceUnavailable :: int where "StatusServiceUnavailable \<equiv> 503"

definition serverError :: response where
  "serverError = Response StatusInternalServerError (ErrBody ''internal'' ''internal error'')"

text \<open>\<open>err.Error()\<close>\<close>

fun error_text :: "error \<Rightarrow> string" where
  "error_text ErrLeaseGone = ''lease no longer held''"
| "error_text ErrNotFound = ''job not found''"
| "error_text (ErrOther e) = e"

subsection \<open>Authorization and wrap\<close>

definition authorized :: "config \<Rightarrow> string \<Rightarrow> bool" where
  "authorized c h =
     (if AuthToken c = '''' then True
      else let prefix = ''Bearer '' in
        if length h \<le> length prefix \<or> take (length prefix) h \<noteq> prefix then False
        else drop (length prefix) h = AuthToken c)"

text \<open>A panic in the handler leaves \<open>wrap\<close> through net/http: no response and no metric of its own.\<close>

definition wrap ::
  "config \<Rightarrow> string \<Rightarrow> ('db \<Rightarrow> response outcome \<times> updates \<times> 'db) \<Rightarrow> string \<Rightarrow> 'db \<Rightarrow> response outcome \<times> updates \<times> 'db" where
  "wrap c endpoint h header d =
     (if \<not> authorized c header
      then (Return (Response StatusUnauthorized (ErrBody ''unauthorized'' ''missing or invalid bearer token'')),
            [(RequestDuration endpoint ''401'', 1)], d)
      else (case h d of
          (Panic e, us, d') \<Rightarrow> (Panic e, us, d')
        | (Return r, us, d') \<Rightarrow>
            (Return r, us @ [(RequestDuration endpoint (itoa (status_of r)), 1)], d')))"

definition handled :: "('db \<Rightarrow> 'db handled) \<Rightarrow> 'db \<Rightarrow> response outcome \<times> updates \<times> 'db" where
  "handled h d = (case h d of (r, us, d') \<Rightarrow> (Return r, us, d'))"

subsection \<open>Enqueue\<close>

record enqueueRequest =
  Enq_Queue :: queue
  Enq_Payload :: string
  Enq_IdempotencyKey :: string

definition handleEnqueue ::
  "'db redis \<Rightarrow> config \<Rightarrow> 8 word list option \<Rightarrow> int \<Rightarrow> net \<Rightarrow> string + enqueueRequest \<Rightarrow> 'db \<Rightarrow> 'db handled" where
  "handleEnqueue R c rnd now net decoded d =
     (case decoded of
        Inl e \<Rightarrow> (Response StatusBadRequest (ErrBody ''invalid_json'' e), [], d)
      | Inr req \<Rightarrow>
          if \<not> ValidQueueName (Enq_Queue req)
          then (Response StatusUnprocessableEntity (ErrBody ''invalid_queue''
                 ''queue must be non-empty, under 128 chars, and free of ':' and whitespace''), [], d)
          else (case Enqueue R c rnd now net (Enq_Queue req) (Enq_Payload req) (Enq_IdempotencyKey req) d of
              (Inl e, d') \<Rightarrow> (serverError, [], d')
            | (Inr (jid, created), d') \<Rightarrow>
                (Response (if created then StatusCreated else StatusOK) (EnqueueBody jid (Enq_Queue req) created),
                 if created then [(JobsEnqueued (Enq_Queue req), 1)] else [], d')))"

subsection \<open>Claim\<close>

record claimRequest =
  Claim_Queues :: "queue list"
  Claim_Batch :: int
  Claim_WaitMS :: int
  Claim_WorkerID :: string

text \<open>
  One round of the polling loop: \<open>nowMS()\<close> and the round trips of its claim, \<open>time.Now()\<close> at the
  deadline check, and whether the client is gone when the \<open>select\<close> returns.
\<close>

record 'db poll =
  poll_now :: int
  poll_turns :: "'db turns"
  poll_time :: int
  poll_gone :: bool

fun first_invalid :: "queue list \<Rightarrow> queue option" where
  "first_invalid [] = None"
| "first_invalid (q # qs) = (if \<not> ValidQueueName q then Some q else first_invalid qs)"

text \<open>
  \<open>a.cfg.LeaseTTL.Milliseconds() / int64(a.cfg.HeartbeatDivisor)\<close>: \<open>None\<close> is the run-time panic
  of a division by zero.
\<close>

definition heartbeat_every :: "config \<Rightarrow> int option" where
  "heartbeat_every c =
     (if HeartbeatDivisor c = 0 then None
      else Some (i64 (milliseconds (LeaseTTL c) sdiv HeartbeatDivisor c)))"

text \<open>The loop over a list of rounds; \<open>None\<close> when they end while it still waits.\<close>

fun claim_rounds ::
  "'db redis \<Rightarrow> config \<Rightarrow> queue list \<Rightarrow> int \<Rightarrow> int \<Rightarrow> 'db poll list \<Rightarrow> 'db \<Rightarrow>
   (response outcome \<times> updates \<times> 'db) option" where
  "claim_rounds R c queues batch deadline [] d = None"
| "claim_rounds R c queues batch deadline (p # ps) d =
     (case Claim R c (poll_now p) (poll_turns p) queues batch d of
        (Panic e, d') \<Rightarrow> Some (Panic e, [], d')
      | (Return (Inl e), d') \<Rightarrow> Some (Return serverError, [], d')
      | (Return (Inr jobs), d') \<Rightarrow>
          if length jobs > 0 \<or> \<not> poll_time p < deadline
          then let us = map (\<lambda>j. (JobsClaimed (Job_Queue j), 1)) jobs @ [(ClaimBatchSize, int (length jobs))]
               in (case heartbeat_every c of
                     None \<Rightarrow> Some (Panic ''integer divide by zero'', us, d')
                   | Some hb \<Rightarrow>
                       Some (Return (Response StatusOK (ClaimBody jobs (milliseconds (LeaseTTL c)) hb)), us, d'))
          else if poll_gone p then Some (Return ClientGone, [], d')
          else claim_rounds R c queues batch deadline ps d')"

definition claim_wait :: "config \<Rightarrow> int \<Rightarrow> int" where
  "claim_wait c waitMS =
     (let wait = i64 (waitMS * Millisecond) in if wait > MaxClaimWait c then MaxClaimWait c else wait)"

definition handleClaim ::
  "'db redis \<Rightarrow> config \<Rightarrow> int \<Rightarrow> 'db poll list \<Rightarrow> string + claimRequest \<Rightarrow> 'db \<Rightarrow>
   (response outcome \<times> updates \<times> 'db) option" where
  "handleClaim R c start polls decoded d =
     (case decoded of
        Inl e \<Rightarrow> Some (Return (Response StatusBadRequest (ErrBody ''invalid_json'' e)), [], d)
      | Inr req \<Rightarrow>
          if length (Claim_Queues req) = 0
          then Some (Return (Response StatusUnprocessableEntity
                 (ErrBody ''no_queues'' ''at least one queue is required'')), [], d)
          else (case first_invalid (Claim_Queues req) of
              Some q \<Rightarrow> Some (Return (Response StatusUnprocessableEntity
                 (ErrBody ''invalid_queue'' (''bad queue name: '' @ q))), [], d)
            | None \<Rightarrow>
                claim_rounds R c (Claim_Queues req) (Claim_Batch req)
                  (start + claim_wait c (Claim_WaitMS req)) polls d))"

subsection \<open>Renew, ack, fail\<close>

text \<open>
  The queue comes from the query, else from the body; \<open>body_queue\<close> is what the decoder left in
  the struct, whose error is ignored.
\<close>

definition request_queue :: "queue \<Rightarrow> queue \<Rightarrow> queue" where
  "request_queue query_queue body_queue = (if query_queue = '''' then body_queue else query_queue)"

definition queue_required :: response where
  "queue_required = Response StatusUnprocessableEntity (ErrBody ''invalid_queue'' ''queue is required'')"

definition handleRenew ::
  "'db redis \<Rightarrow> config \<Rightarrow> int \<Rightarrow> net \<Rightarrow> job_id \<Rightarrow> queue \<Rightarrow> queue \<Rightarrow> 'db \<Rightarrow> 'db handled" where
  "handleRenew R c now net jid query_queue body_queue d =
     (let queue = request_queue query_queue body_queue in
      if \<not> ValidQueueName queue then (queue_required, [], d)
      else (case Renew R c now net queue jid d of
          (Inl ErrLeaseGone, d') \<Rightarrow> (Response StatusConflict (ErrBody ''lease_gone''
              ''lease expired and the job was re-queued; stop working on it''), [(LeaseRenewRejected, 1)], d')
        | (Inl _, d') \<Rightarrow> (serverError, [], d')
        | (Inr deadline, d') \<Rightarrow> (Response StatusOK (RenewBody jid deadline), [], d')))"

record ackBatchRequest =
  Ack_Queue :: queue
  Ack_IDs :: "job_id list"

definition handleAckBatch :: "'db redis \<Rightarrow> net \<Rightarrow> string + ackBatchRequest \<Rightarrow> 'db \<Rightarrow> 'db handled" where
  "handleAckBatch R net decoded d =
     (case decoded of
        Inl e \<Rightarrow> (Response StatusBadRequest (ErrBody ''invalid_json'' e), [], d)
      | Inr req \<Rightarrow>
          if \<not> ValidQueueName (Ack_Queue req) then (queue_required, [], d)
          else (case Ack R net (Ack_Queue req) (Ack_IDs req) d of
              (Inl e, d') \<Rightarrow> (serverError, [], d')
            | (Inr n, d') \<Rightarrow> (Response StatusOK (AckedBody n), [(JobsAcked (Ack_Queue req), n)], d')))"

definition handleAck :: "'db redis \<Rightarrow> net \<Rightarrow> job_id \<Rightarrow> queue \<Rightarrow> queue \<Rightarrow> 'db \<Rightarrow> 'db handled" where
  "handleAck R net jid query_queue body_queue d =
     (let queue = request_queue query_queue body_queue in
      if \<not> ValidQueueName queue then (queue_required, [], d)
      else (case Ack R net queue [jid] d of
          (Inl e, d') \<Rightarrow> (serverError, [], d')
        | (Inr n, d') \<Rightarrow>
            if n = 0
            then (Response StatusConflict (ErrBody ''lease_gone''
                    ''lease had already expired; this job may have been re-run elsewhere''), [(JobsAcked queue, n)], d')
            else (Response StatusOK (AckedBody n), [(JobsAcked queue, n)], d')))"

record failRequest =
  Fail_Queue :: queue
  Fail_Error :: string
  Fail_Attempt :: int

definition handleFail ::
  "'db redis \<Rightarrow> config \<Rightarrow> int \<Rightarrow> nat \<Rightarrow> int \<Rightarrow> net \<Rightarrow> job_id \<Rightarrow> string + failRequest \<Rightarrow> 'db \<Rightarrow> 'db handled" where
  "handleFail R c now rnd oor net jid decoded d =
     (case decoded of
        Inl e \<Rightarrow> (Response StatusBadRequest (ErrBody ''invalid_json'' e), [], d)
      | Inr req \<Rightarrow>
          if \<not> ValidQueueName (Fail_Queue req) then (queue_required, [], d)
          else (case Fail R c now rnd oor net (Fail_Queue req) jid (Fail_Attempt req) d of
              (Inl ErrLeaseGone, d') \<Rightarrow> (Response StatusConflict
                  (ErrBody ''lease_gone'' ''lease had already expired''), [(LeaseRenewRejected, 1)], d')
            | (Inl _, d') \<Rightarrow> (serverError, [], d')
            | (Inr state, d') \<Rightarrow>
                (Response StatusOK (StateBody jid (state_string state)),
                 (JobsFailed (Fail_Queue req), 1)
                 # (if state = StateDead then [(JobsDead (Fail_Queue req) ''max_attempts'', 1)] else []), d')))"

subsection \<open>Reads\<close>

definition handleGetJob :: "'db redis \<Rightarrow> net \<Rightarrow> job_id \<Rightarrow> 'db \<Rightarrow> 'db handled" where
  "handleGetJob R net jid d =
     (case Job R net jid d of
        Inl ErrNotFound \<Rightarrow> (Response StatusNotFound (ErrBody ''not_found'' ''no such job''), [], d)
      | Inl _ \<Rightarrow> (serverError, [], d)
      | Inr job \<Rightarrow> (Response StatusOK (JobBody job), [], d))"

text \<open>The four commands of the pipeline see the databases \<open>d1\<close> to \<open>d4\<close>.\<close>

definition handleStats ::
  "'db redis \<Rightarrow> net \<Rightarrow> queue \<Rightarrow> 'db \<Rightarrow> 'db \<Rightarrow> 'db \<Rightarrow> 'db \<Rightarrow> 'db handled" where
  "handleStats R net q d1 d2 d3 d4 =
     (if \<not> ValidQueueName q
      then (Response StatusUnprocessableEntity (ErrBody ''invalid_queue'' ''bad queue name''), [], d4)
      else (case Stats R net q d1 d2 d3 d4 of
          Inl e \<Rightarrow> (serverError, [], d4)
        | Inr s \<Rightarrow> (Response StatusOK (StatsBody s), [], d4)))"

definition dead_limit :: "string \<Rightarrow> int" where
  "dead_limit v =
     (if v \<noteq> '''' then (case parse_int v of (n, ok) \<Rightarrow> if ok \<and> n > 0 \<and> n \<le> 1000 then n else 100) else 100)"

definition handleDead :: "'db redis \<Rightarrow> net \<Rightarrow> queue \<Rightarrow> string \<Rightarrow> 'db \<Rightarrow> 'db handled" where
  "handleDead R net q limit_param d =
     (if \<not> ValidQueueName q
      then (Response StatusUnprocessableEntity (ErrBody ''invalid_queue'' ''queue query param is required''), [], d)
      else (case DeadJobs R net q (dead_limit limit_param) d of
          Inl e \<Rightarrow> (serverError, [], d)
        | Inr ids \<Rightarrow> (Response StatusOK (DeadBody q ids), [], d)))"

subsection \<open>Schedules\<close>

record createScheduleRequest =
  CS_Queue :: queue
  CS_Cron :: string
  CS_Payload :: string

definition handleCreateSchedule ::
  "'db redis \<Rightarrow> cron \<Rightarrow> 8 word list option \<Rightarrow> int \<Rightarrow> int \<Rightarrow> net \<Rightarrow> string + createScheduleRequest \<Rightarrow>
   'db \<Rightarrow> 'db handled" where
  "handleCreateSchedule R cron rnd now created net decoded d =
     (case decoded of
        Inl e \<Rightarrow> (Response StatusBadRequest (ErrBody ''invalid_json'' e), [], d)
      | Inr req \<Rightarrow>
          if \<not> ValidQueueName (CS_Queue req) then (queue_required, [], d)
          else (case Create R cron rnd now created net (CS_Queue req) (CS_Cron req) (CS_Payload req) d of
              (Inl e, d') \<Rightarrow> (Response StatusUnprocessableEntity (ErrBody ''invalid_cron'' (error_text e)), [], d')
            | (Inr s, d') \<Rightarrow> (Response StatusCreated (ScheduleBody s), [], d')))"

definition handleListSchedules :: "'db redis \<Rightarrow> net \<Rightarrow> 'db turns \<Rightarrow> 'db \<Rightarrow> 'db handled" where
  "handleListSchedules R net turns d =
     (case List R net turns d of
        (Inl e, d') \<Rightarrow> (serverError, [], d')
      | (Inr out, d') \<Rightarrow> (Response StatusOK (SchedulesBody out), [], d'))"

definition handleDeleteSchedule :: "'db redis \<Rightarrow> net \<Rightarrow> string \<Rightarrow> 'db \<Rightarrow> 'db handled" where
  "handleDeleteSchedule R net sid d =
     (case Delete R net sid d of
        (Some e, d') \<Rightarrow> (serverError, [], d')
      | (None, d') \<Rightarrow> (Response StatusNoContent NoBody, [], d'))"

subsection \<open>Liveness, readiness and the routes\<close>

definition healthz :: response where
  "healthz = Response StatusOK (StatusBody ''ok'')"

text \<open>\<open>ping\<close> is the result of PING: an error text, or none.\<close>

definition readyz :: "string option \<Rightarrow> bool \<Rightarrow> response" where
  "readyz ping isLeader =
     (case ping of
        Some e \<Rightarrow> Response StatusServiceUnavailable (ErrBody ''redis_unavailable'' e)
      | None \<Rightarrow> Response StatusOK (ReadyBody isLeader))"

datatype endpoint =
    EpEnqueue | EpClaim | EpAckBatch | EpRenew string | EpAck string | EpFail string | EpGetJob string
  | EpCreateSchedule | EpListSchedules | EpDeleteSchedule string | EpStats string | EpDead
  | EpHealthz | EpReadyz | EpMetrics

text \<open>
  The patterns of the mux on a method and the segments of a path; a wildcard is one non-empty
  segment, a literal segment is more specific than a wildcard, and a GET pattern matches HEAD.
\<close>

definition Routes :: "string \<Rightarrow> string list \<Rightarrow> endpoint option" where
  "Routes method path =
     (if method = ''POST'' then
        (case path of
           [a, b] \<Rightarrow> if a = ''v1'' \<and> b = ''jobs'' then Some EpEnqueue
                     else if a = ''v1'' \<and> b = ''schedules'' then Some EpCreateSchedule else None
         | [a, b, x] \<Rightarrow> if a = ''v1'' \<and> b = ''jobs'' \<and> x = ''claim'' then Some EpClaim
                        else if a = ''v1'' \<and> b = ''jobs'' \<and> x = ''ack'' then Some EpAckBatch else None
         | [a, b, jid, x] \<Rightarrow>
             if a = ''v1'' \<and> b = ''jobs'' \<and> jid \<noteq> '''' then
               if x = ''renew'' then Some (EpRenew jid)
               else if x = ''ack'' then Some (EpAck jid)
               else if x = ''fail'' then Some (EpFail jid) else None
             else None
         | _ \<Rightarrow> None)
      else if method = ''GET'' \<or> method = ''HEAD'' then
        (case path of
           [a] \<Rightarrow> if a = ''healthz'' then Some EpHealthz
                  else if a = ''readyz'' then Some EpReadyz
                  else if a = ''metrics'' then Some EpMetrics else None
         | [a, b] \<Rightarrow> if a = ''v1'' \<and> b = ''schedules'' then Some EpListSchedules
                     else if a = ''v1'' \<and> b = ''dead'' then Some EpDead else None
         | [a, b, jid] \<Rightarrow> if a = ''v1'' \<and> b = ''jobs'' \<and> jid \<noteq> '''' then Some (EpGetJob jid) else None
         | [a, b, name, x] \<Rightarrow>
             if a = ''v1'' \<and> b = ''queues'' \<and> name \<noteq> '''' \<and> x = ''stats'' then Some (EpStats name) else None
         | _ \<Rightarrow> None)
      else if method = ''DELETE'' then
        (case path of
           [a, b, sid] \<Rightarrow> if a = ''v1'' \<and> b = ''schedules'' \<and> sid \<noteq> '''' then Some (EpDeleteSchedule sid) else None
         | _ \<Rightarrow> None)
      else None)"

text \<open>The endpoints that \<open>wrap\<close> guards, by the name their metric has.\<close>

fun wrapped_as :: "endpoint \<Rightarrow> string option" where
  "wrapped_as EpEnqueue = Some ''enqueue''"
| "wrapped_as EpClaim = Some ''claim''"
| "wrapped_as EpAckBatch = Some ''ack_batch''"
| "wrapped_as (EpRenew _) = Some ''renew''"
| "wrapped_as (EpAck _) = Some ''ack''"
| "wrapped_as (EpFail _) = Some ''fail''"
| "wrapped_as (EpGetJob _) = Some ''get_job''"
| "wrapped_as EpCreateSchedule = Some ''create_schedule''"
| "wrapped_as EpListSchedules = Some ''list_schedules''"
| "wrapped_as (EpDeleteSchedule _) = Some ''delete_schedule''"
| "wrapped_as (EpStats _) = Some ''stats''"
| "wrapped_as EpDead = Some ''dead''"
| "wrapped_as EpHealthz = None"
| "wrapped_as EpReadyz = None"
| "wrapped_as EpMetrics = None"

end
