(* ===== verification/Api_Laws.thy ===== *)
theory Api_Laws
  imports Cogs_Api
begin

section \<open>What the HTTP interface promises\<close>

subsection \<open>Authorization\<close>

lemma authorized_iff:
  "authorized c h \<longleftrightarrow> AuthToken c = '''' \<or> h = ''Bearer '' @ AuthToken c"
proof (cases "AuthToken c = ''''")
  case False
  have "h = ''Bearer '' @ AuthToken c"
    if "take (length ''Bearer '') h = ''Bearer ''" "drop (length ''Bearer '') h = AuthToken c"
    using that by (metis append_take_drop_id)
  then show ?thesis using False by (auto simp: authorized_def Let_def)
qed (simp add: authorized_def)

lemma wrap_refuses:
  assumes "AuthToken c \<noteq> ''''" and "header \<noteq> ''Bearer '' @ AuthToken c"
  shows "wrap c endpoint h header d =
    (Return (Response 401 (ErrBody ''unauthorized'' ''missing or invalid bearer token'')),
     [(RequestDuration endpoint ''401'', 1)], d)"
  using assms by (simp add: wrap_def authorized_iff)

lemma wrap_labels:
  assumes "authorized c header" and "h d = (Return r, us, d')"
  shows "wrap c endpoint h header d = (Return r, us @ [(RequestDuration endpoint (itoa (status_of r)), 1)], d')"
  using assms by (simp add: wrap_def)

subsection \<open>Refused requests change nothing\<close>

lemma first_invalid_None: "first_invalid qs = None \<longleftrightarrow> (\<forall>q \<in> set qs. ValidQueueName q)"
  by (induction qs) auto

lemma refused_enqueue:
  "handleEnqueue R c rnd now net decoded d = (r, us, d') \<Longrightarrow> status_of r \<in> {400, 422} \<Longrightarrow> d' = d \<and> us = []"
  by (auto simp: handleEnqueue_def serverError_def split: sum.splits if_splits prod.splits)

lemma refused_fail:
  "handleFail R c now rnd oor net jid decoded d = (r, us, d') \<Longrightarrow> status_of r \<in> {400, 422} \<Longrightarrow> d' = d \<and> us = []"
  by (auto simp: handleFail_def serverError_def queue_required_def split: sum.splits if_splits prod.splits error.splits)

subsection \<open>Claim: the long poll\<close>

text \<open>The loop answers by the first round whose clock has reached the deadline.\<close>

lemma claim_rounds_answers:
  assumes "p \<in> set polls" and "deadline \<le> poll_time p"
  shows "claim_rounds R c queues batch deadline polls d \<noteq> None"
  using assms(1)
proof (induction polls arbitrary: d)
  case (Cons x polls)
  show ?case
  proof (cases "x = p")
    case True
    then show ?thesis using assms(2)
      by (auto simp: Let_def split: prod.splits outcome.splits sum.splits option.splits)
  next
    case False
    then have IH: "\<And>d. claim_rounds R c queues batch deadline polls d \<noteq> None" using Cons by auto
    show ?thesis using IH
      by (auto simp: Let_def simp del: not_None_eq split: prod.splits outcome.splits sum.splits option.splits)
  qed
qed simp

lemma claim_wait_bound: "claim_wait c w \<le> MaxClaimWait c"
  by (simp add: claim_wait_def Let_def)

lemma handleClaim_answers:
  assumes "p \<in> set polls" and "start + MaxClaimWait c \<le> poll_time p"
  shows "\<exists>r us d'. handleClaim R c start polls decoded d = Some (r, us, d')"
proof -
  have "claim_rounds R c qs b (start + claim_wait c w) polls d \<noteq> None" for qs b w
    using claim_rounds_answers [OF assms(1)] assms(2) claim_wait_bound [of c w] by auto
  then have "handleClaim R c start polls decoded d \<noteq> None"
    by (simp add: handleClaim_def split: sum.split option.split)
  then show ?thesis by (metis not_None_eq prod.collapse)
qed

lemma claim_rounds_reaches:
  "\<forall>p \<in> set polls. lawful_by ok R c (poll_turns p) \<Longrightarrow>
   claim_rounds R c queues batch deadline polls d = Some (r, us, d') \<Longrightarrow> reaches_by ok R c d d'"
proof (induction polls arbitrary: d)
  case (Cons p polls)
  have one: "reaches_by ok R c d (snd (Claim R c (poll_now p) (poll_turns p) queues batch d))"
    using Cons.prems(1) by (simp add: Claim_reaches)
  show ?case using Cons.prems Cons.IH one
    by (auto simp: Let_def split: prod.splits outcome.splits sum.splits option.splits if_splits intro: reaches_trans)
qed simp

lemma handleClaim_reaches:
  assumes "\<forall>p \<in> set polls. lawful_by ok R c (poll_turns p)"
    and "handleClaim R c start polls decoded d = Some (r, us, d')"
  shows "reaches_by ok R c d d'"
  using assms(2) claim_rounds_reaches [OF assms(1)]
  by (auto simp: handleClaim_def split: sum.splits if_splits option.splits)

context redis_db
begin

subsection \<open>Enqueue\<close>

text \<open>201 and one count for a new job, 200 and no count for an idempotency-key hit.\<close>

lemma handleEnqueue_status:
  assumes "ValidQueueName (Enq_Queue req)" and "NewID rnd = Inr jid" and "jid \<notin> live (view R d)"
    and "Enq_IdempotencyKey req = '''' \<or> 0 < window_seconds c"
  shows "\<exists>d'. handleEnqueue R c rnd now Delivered (Inr req) d =
    (case (Enq_IdempotencyKey req = '''', string_at (view R d) (idemKey (Enq_IdempotencyKey req))) of
       (False, Some (old, _)) \<Rightarrow> (Response 200 (EnqueueBody old (Enq_Queue req) False), [], d')
     | _ \<Rightarrow> (Response 201 (EnqueueBody jid (Enq_Queue req) True), [(JobsEnqueued (Enq_Queue req), 1)], d'))
    \<and> (case (Enq_IdempotencyKey req = '''', string_at (view R d) (idemKey (Enq_IdempotencyKey req))) of
       (False, Some _) \<Rightarrow> view R d' = view R d
     | _ \<Rightarrow> job_state (view R d') jid = Some StatePending)"
proof -
  let ?p = "if Enq_Payload req = '''' then ''null'' else Enq_Payload req" and ?k = "Enq_IdempotencyKey req"
  obtain d' where e: "Enqueue R c rnd now Delivered (Enq_Queue req) (Enq_Payload req) ?k d
      = (Inr (reply_or (snd (fst (a_enqueue_req jid ?p (Enq_Queue req) (itoa now) ?k (window_seconds c) (view R d)))) '''',
          fst (fst (a_enqueue_req jid ?p (Enq_Queue req) (itoa now) ?k (window_seconds c) (view R d))) = 1), d')"
    and v: "view R d' = snd (a_enqueue_req jid ?p (Enq_Queue req) (itoa now) ?k (window_seconds c) (view R d))"
    using Enqueue_delivered [OF assms(2-4), of now "Enq_Queue req" "Enq_Payload req"] by blast
  have fresh: "jid \<notin> live (upd_string k s (view R d))" for k s using assms(3) by (simp add: cogs_simps)
  show ?thesis
  proof (cases "?k = ''''")
    case True
    then have "a_enqueue_req jid ?p (Enq_Queue req) (itoa now) ?k (window_seconds c) (view R d)
        = ((1, Some jid), a_enqueue jid ?p (Enq_Queue req) (itoa now) ?k (view R d))"
      by (simp add: a_enqueue_req_def)
    then show ?thesis using assms(1) True e v
      by (simp add: handleEnqueue_def state_enqueue [OF assms(3)])
  next
    case False
    show ?thesis
    proof (cases "string_at (view R d) (idemKey ?k)")
      case None
      then have "a_enqueue_req jid ?p (Enq_Queue req) (itoa now) ?k (window_seconds c) (view R d)
        = ((1, Some jid), a_enqueue jid ?p (Enq_Queue req) (itoa now) ?k
            (upd_string (idemKey ?k) (Some (jid, Some (1000 * window_seconds c))) (view R d)))"
        using False by (simp add: a_enqueue_req_def)
      then show ?thesis using assms(1) False None e v
        by (simp add: handleEnqueue_def state_enqueue [OF fresh])
    next
      case (Some s)
      then obtain old x where s: "string_at (view R d) (idemKey ?k) = Some (old, x)" by (cases s) simp
      then have "a_enqueue_req jid ?p (Enq_Queue req) (itoa now) ?k (window_seconds c) (view R d)
        = ((0, Some old), view R d)" using False by (simp add: a_enqueue_req_def)
      then show ?thesis using assms(1) False s e v by (simp add: handleEnqueue_def)
    qed
  qed
qed

subsection \<open>Claim\<close>

text \<open>A zero HEARTBEAT_DIVISOR: the jobs are leased and counted, and no response is written.\<close>

lemma claim_panics:
  assumes "HeartbeatDivisor c = 0" and "\<forall>q \<in> set qs. ValidQueueName q" and "qs \<noteq> []" and "distinct qs"
    and "0 < MaxClaimBatch c" and "offered (view R d) qs \<noteq> []"
    and "poll_turns p = quiet"
  shows "\<exists>us d'. handleClaim R c start (p # polls) (Inr \<lparr>Claim_Queues = qs, Claim_Batch = b, Claim_WaitMS = w, Claim_WorkerID = wid\<rparr>) d
      = Some (Panic ''integer divide by zero'', us, d')
    \<and> view R d' = a_claims (lease_deadline c (poll_now p)) (clamp_batch c b) qs (view R d)
    \<and> 0 < added ClaimBatchSize us"
proof -
  let ?n = "clamp_batch c b" and ?dl = "lease_deadline c (poll_now p)"
  have n: "0 < ?n" using assms(5) by (simp add: clamp_batch_def Let_def)
  obtain d' where claim: "Claim R c (poll_now p) quiet qs b d
      = (Return (Inr (map (\<lambda>(q, j). claimed_job (view R d) ?dl q j) (take (nat ?n) (offered (view R d) qs)))), d')"
    and v: "view R d' = a_claims ?dl ?n qs (view R d)"
    using Claim_quiet [OF assms(4), of c "poll_now p" b d] assms(5) by auto
  let ?jobs = "map (\<lambda>(q, j). claimed_job (view R d) ?dl q j) (take (nat ?n) (offered (view R d) qs))"
  have pos: "length ?jobs > 0" using n assms(6) by simp
  have counted: "added ClaimBatchSize (map (\<lambda>j. (JobsClaimed (Job_Queue j), 1)) js) = 0" for js
    by (induction js) simp_all
  have "first_invalid qs = None" using assms(2) by (simp add: first_invalid_None)
  then have "handleClaim R c start (p # polls) (Inr \<lparr>Claim_Queues = qs, Claim_Batch = b, Claim_WaitMS = w, Claim_WorkerID = wid\<rparr>) d
      = Some (Panic ''integer divide by zero'',
          map (\<lambda>j. (JobsClaimed (Job_Queue j), 1)) ?jobs @ [(ClaimBatchSize, int (length ?jobs))], d')"
    using assms(1,3,7) claim pos by (simp add: handleClaim_def heartbeat_every_def Let_def)
  moreover have "0 < added ClaimBatchSize (map (\<lambda>j. (JobsClaimed (Job_Queue j), 1)) ?jobs @ [(ClaimBatchSize, int (length ?jobs))])"
    using pos by (simp only: added_simps counted) simp
  ultimately show ?thesis using v by blast
qed

subsection \<open>Ack and fail\<close>

lemma handleAck_status:
  assumes "ValidQueueName (request_queue qq bq)"
  shows "\<exists>d'. handleAck R Delivered jid qq bq d =
    (if zset_at (view R d) (leasedKey (request_queue qq bq)) jid = None
     then (Response 409 (ErrBody ''lease_gone''
             ''lease had already expired; this job may have been re-run elsewhere''),
           [(JobsAcked (request_queue qq bq), 0)], d')
     else (Response 200 (AckedBody 1), [(JobsAcked (request_queue qq bq), 1)], d'))
    \<and> view R d' = a_ack1 (request_queue qq bq) jid (view R d)"
proof -
  let ?q = "request_queue qq bq"
  have "{j \<in> set [jid]. zset_at (view R d) (leasedKey ?q) j \<noteq> None}
      = (if zset_at (view R d) (leasedKey ?q) jid = None then {} else {jid})" by auto
  then show ?thesis using Ack_delivered [of ?q "[jid]" d] assms
    by (auto simp: handleAck_def Let_def)
qed

lemma handleFail_status:
  assumes "ValidQueueName (Fail_Queue req)" and "job_inv (MaxRetries c) (view R d)" and "config_ok c"
  shows "\<exists>d'. handleFail R c now rnd oor Delivered jid (Inr req) d =
    (if zset_at (view R d) (leasedKey (Fail_Queue req)) jid = None
     then (Response 409 (ErrBody ''lease_gone'' ''lease had already expired''), [(LeaseRenewRejected, 1)], d')
     else if dead_dest (MaxRetries c) (view R d) jid
     then (Response 200 (StateBody jid ''dead''),
           [(JobsFailed (Fail_Queue req), 1), (JobsDead (Fail_Queue req) ''max_attempts'', 1)], d')
     else (Response 200 (StateBody jid ''retry''), [(JobsFailed (Fail_Queue req), 1)], d'))
    \<and> view R d' = a_fail (MaxRetries c) (Fail_Queue req) jid (retry_at c now (Fail_Attempt req) rnd oor) (view R d)"
  using Fail_delivered [OF assms(2,3), of now rnd oor "Fail_Queue req" jid "Fail_Attempt req"] assms(1)
  by (auto simp: handleFail_def)

subsection \<open>The dead-letter list\<close>

lemma dead_limit_range: "1 \<le> dead_limit v \<and> dead_limit v \<le> 1000"
  by (auto simp: dead_limit_def split: prod.splits)

lemma handleDead_list:
  assumes "ValidQueueName q"
  shows "handleDead R Delivered q lim d =
    (Response 200 (DeadBody q (take (nat (dead_limit lim)) (list_at (view R d) (deadKey q)))), [], d)"
proof -
  have "Suc (nat (dead_limit lim - 1)) = nat (dead_limit lim)" using dead_limit_range [of lim] by linarith
  then show ?thesis using assms dead_limit_range [of lim]
    by (simp add: handleDead_def DeadJobs_def readtrip_def lrange)
qed

text \<open>A Redis error while a valid schedule is created is answered as an invalid cron expression.\<close>

lemma create_schedule_lost_reply:
  assumes "ValidQueueName (CS_Queue req)" and "cron (CS_Cron req) = Inr nxt" and "NewID rnd = Inr sid"
  shows "\<exists>d'. handleCreateSchedule R cron rnd now created (LostReply e) (Inr req) d
    = (Response 422 (ErrBody ''invalid_cron'' e), [], d')
    \<and> zset_at (view R d') schedulesKey sid = Some (unix_milli (nxt now))"
  using assms by (simp add: handleCreateSchedule_def Create_def Let_def zadd_view hset_view)

lemma create_schedule_redis_error:
  assumes "ValidQueueName (CS_Queue req)" and "cron (CS_Cron req) = Inr nxt" and "NewID rnd = Inr sid"
  shows "handleCreateSchedule R cron rnd now created (LostRequest e) (Inr req) d
    = (Response 422 (ErrBody ''invalid_cron'' e), [], d)"
  using assms by (simp add: handleCreateSchedule_def Create_def Let_def)

subsection \<open>Stats\<close>

text \<open>With nothing in between, the four depths count each job of the queue once.\<close>

lemma Stats_quiet:
  "Stats R Delivered q d d d d = Inr \<lparr>Stats_Queue = q,
     Stats_Pending = int (length (list_at (view R d) (pendingKey q))),
     Stats_Leased = int (card (dom (zset_at (view R d) (leasedKey q)))),
     Stats_Retry = int (card (dom (zset_at (view R d) (retryKey q)))),
     Stats_Dead = int (length (list_at (view R d) (deadKey q)))\<rparr>"
  by (simp add: Stats_def readtrip_def llen zcard)

end

text \<open>The depths add up to the jobs of the queue.\<close>

lemma card_count_list: "distinct xs \<Longrightarrow> card {j. 0 < count_list xs j} = length xs"
  by (simp add: count_list_pos_iff distinct_card)

lemma inv_dead_distinct: "job_inv mr v \<Longrightarrow> distinct (list_at v (deadKey q))"
proof (rule count_list_le_Suc0_distinct)
  fix j assume "job_inv mr v"
  then have "occ v q j \<le> 1" by (simp add: job_inv_occ)
  then show "count_list (list_at v (deadKey q)) j \<le> Suc 0" by (simp add: occ_def)
qed

lemma depths_add_up:
  assumes inv: "job_inv mr v" and fin: "finite (dom (zset_at v (leasedKey q)))" "finite (dom (zset_at v (retryKey q)))"
  shows "length (list_at v (pendingKey q)) + card (dom (zset_at v (leasedKey q)))
      + card (dom (zset_at v (retryKey q))) + length (list_at v (deadKey q)) = card {j. job_queue v j = Some q}"
proof -
  let ?P = "set (list_at v (pendingKey q))" and ?L = "dom (zset_at v (leasedKey q))"
    and ?T = "dom (zset_at v (retryKey q))" and ?D = "set (list_at v (deadKey q))"
  have one: "occ v q j = (if job_queue v j = Some q then 1 else 0)" for j by (rule job_inv_occ [OF inv])
  have "j \<in> ?P \<union> ?L \<union> ?T \<union> ?D \<longleftrightarrow> job_queue v j = Some q" for j
    using occ_pos_cases [of v q j] one [of j] by (auto simp: domIff simp del: not_None_eq split: if_splits)
  then have all: "?P \<union> ?L \<union> ?T \<union> ?D = {j. job_queue v j = Some q}" by blast
  have le: "occ v q j \<le> 1" for j by (simp add: one)
  have disj: "j \<notin> ?L \<union> ?T \<union> ?D" if "j \<in> ?P" for j
    using le [of j] that count_list_pos_iff [of "list_at v (pendingKey q)" j]
      count_list_pos_iff [of "list_at v (deadKey q)" j]
    by (auto simp: occ_def split: if_splits)
  have disj2: "j \<notin> ?T \<union> ?D" if "j \<in> ?L" for j
    using le [of j] that count_list_pos_iff [of "list_at v (deadKey q)" j]
    by (auto simp: occ_def split: if_splits)
  have disj3: "j \<notin> ?D" if "j \<in> ?T" for j
    using le [of j] that count_list_pos_iff [of "list_at v (deadKey q)" j]
    by (auto simp: occ_def split: if_splits)
  have "card (?P \<union> (?L \<union> (?T \<union> ?D))) = card ?P + card (?L \<union> (?T \<union> ?D))"
    using disj fin by (intro card_Un_disjoint) auto
  also have "card (?L \<union> (?T \<union> ?D)) = card ?L + card (?T \<union> ?D)"
    using disj2 fin by (intro card_Un_disjoint) auto
  also have "card (?T \<union> ?D) = card ?T + card ?D" using disj3 fin by (intro card_Un_disjoint) auto
  finally have "card (?P \<union> ?L \<union> ?T \<union> ?D) = card ?P + (card ?L + (card ?T + card ?D))"
    by (simp add: Un_assoc)
  then show ?thesis using inv_pending_distinct [OF inv, of q] inv_dead_distinct [OF inv, of q]
    unfolding all by (simp add: distinct_card)
qed

context redis_db
begin

lemma Stats_sum:
  assumes "job_inv mr (view R d)"
  shows "\<exists>s. Stats R Delivered q d d d d = Inr s \<and>
    Stats_Pending s + Stats_Leased s + Stats_Retry s + Stats_Dead s = int (card {j. job_queue (view R d) j = Some q})"
  using depths_add_up [OF assms zset_finite zset_finite, of q] by (simp add: Stats_quiet)

end

end
