(* ===== verification/Cogs_Client.thy ===== *)
theory Cogs_Client
  imports Api_Laws
begin

section \<open>The Go worker SDK (sdk/go/cogsclient/client.go)\<close>

text \<open>
  The client's calls as functions of what the HTTP exchange gave, and the worker: \<open>worker_Run\<close>
  over the rounds of its claim loop, and \<open>process\<close>, one job with its heartbeat goroutine beside
  the handler, as a step relation over the events of the two goroutines.
\<close>

subsection \<open>The client\<close>

datatype client_error = ErrLeaseLost | ClientErr string

text \<open>
  An exchange fails (marshalling, transport), or is answered with a status and a body that
  decodes to an error text or a value.
\<close>

datatype 'a exchange = Failed string | Replied int "string + 'a"

definition client_do :: "bool \<Rightarrow> 'a exchange \<Rightarrow> int \<times> string option \<times> 'a option" where
  "client_do want_out x =
     (case x of
        Failed e \<Rightarrow> (0, Some e, None)
      | Replied st decoded \<Rightarrow>
          if want_out \<and> st < 300
          then (case decoded of Inl e \<Rightarrow> (st, Some e, None) | Inr v \<Rightarrow> (st, None, Some v))
          else (st, None, None))"

text \<open>The Authorization header of a request, when there is a token.\<close>

definition client_auth :: "string \<Rightarrow> string option" where
  "client_auth token = (if token \<noteq> '''' then Some (''Bearer '' @ token) else None)"

definition client_Enqueue :: "(job_id \<times> queue \<times> bool) exchange \<Rightarrow> client_error + (job_id \<times> queue \<times> bool) option" where
  "client_Enqueue x =
     (case client_do True x of
        (st, Some e, out) \<Rightarrow> Inl (ClientErr e)
      | (st, None, out) \<Rightarrow>
          if st \<ge> 300 then Inl (ClientErr (''cogs: enqueue returned '' @ itoa st)) else Inr out)"

record claim_result =
  CR_Jobs :: "job list"
  CR_LeaseTTLMS :: int
  CR_HeartbeatEveryMS :: int

definition client_Claim :: "claim_result exchange \<Rightarrow> client_error + claim_result option" where
  "client_Claim x =
     (case client_do True x of
        (st, Some e, out) \<Rightarrow> Inl (ClientErr e)
      | (st, None, out) \<Rightarrow>
          if st \<ge> 300 then Inl (ClientErr (''cogs: claim returned '' @ itoa st)) else Inr out)"

definition client_Renew :: "unit exchange \<Rightarrow> client_error option" where
  "client_Renew x =
     (case client_do False x of
        (st, Some e, out) \<Rightarrow> Some (ClientErr e)
      | (st, None, out) \<Rightarrow>
          if st = StatusConflict then Some ErrLeaseLost
          else if st \<ge> 300 then Some (ClientErr (''cogs: renew returned '' @ itoa st)) else None)"

definition client_Ack :: "unit exchange \<Rightarrow> client_error option" where
  "client_Ack x =
     (case client_do False x of
        (st, Some e, out) \<Rightarrow> Some (ClientErr e)
      | (st, None, out) \<Rightarrow>
          if st \<ge> 300 \<and> st \<noteq> StatusConflict then Some (ClientErr (''cogs: ack returned '' @ itoa st)) else None)"

definition client_Fail :: "unit exchange \<Rightarrow> client_error option" where
  "client_Fail x =
     (case client_do False x of
        (st, Some e, out) \<Rightarrow> Some (ClientErr e)
      | (st, None, out) \<Rightarrow>
          if st \<ge> 300 \<and> st \<noteq> StatusConflict then Some (ClientErr (''cogs: fail returned '' @ itoa st)) else None)"

subsection \<open>The worker's claim loop\<close>

record 'h worker =
  W_ID :: string
  W_Queues :: "queue list"
  W_Handlers :: "queue \<rightharpoonup> 'h"
  W_Batch :: int
  W_WaitMS :: int
  W_Concurrent :: int

definition NewWorker :: "string \<Rightarrow> 'h worker" where
  "NewWorker workerID = \<lparr>W_ID = workerID, W_Queues = [], W_Handlers = Map.empty,
     W_Batch = 1, W_WaitMS = 1000, W_Concurrent = 1\<rparr>"

definition Handle :: "queue \<Rightarrow> 'h \<Rightarrow> 'h worker \<Rightarrow> 'h worker" where
  "Handle q h w = w\<lparr>W_Handlers := (W_Handlers w)(q \<mapsto> h), W_Queues := W_Queues w @ [q]\<rparr>"

text \<open>A worker only claims from queues it has a handler for.\<close>

definition registered :: "'h worker \<Rightarrow> bool" where
  "registered w \<longleftrightarrow> set (W_Queues w) = dom (W_Handlers w)"

lemma registered_Handle: "registered w \<Longrightarrow> registered (Handle q h w)"
  by (simp add: registered_def Handle_def)

lemma registered_NewWorker: "registered (NewWorker workerID)"
  by (simp add: registered_def NewWorker_def)

text \<open>The request a round of the loop sends.\<close>

definition worker_request :: "'h worker \<Rightarrow> claimRequest" where
  "worker_request w = \<lparr>Claim_Queues = W_Queues w, Claim_Batch = W_Batch w, Claim_WaitMS = W_WaitMS w,
     Claim_WorkerID = W_ID w\<rparr>"

definition heartbeat_interval :: "int \<Rightarrow> int" where
  "heartbeat_interval everyMS =
     (let heartbeat = i64 (everyMS * Millisecond) in if heartbeat \<le> 0 then Second else heartbeat)"

text \<open>
  One round: whether the context is done at its start, the claim's exchange, and whether the
  context is done after a failed claim.
\<close>

record claim_round =
  round_done :: bool
  round_claim :: "claim_result exchange"
  round_done_after :: bool

text \<open>The jobs started, each with its heartbeat interval, and whether the loop was left.\<close>

fun run_rounds :: "claim_round list \<Rightarrow> (job \<times> int) list \<times> bool" where
  "run_rounds [] = ([], False)"
| "run_rounds (r # rs) =
     (if round_done r then ([], True)
      else (case client_Claim (round_claim r) of
          Inl e \<Rightarrow> if round_done_after r then ([], True) else run_rounds rs
        | Inr out \<Rightarrow>
            (case run_rounds rs of (started, left) \<Rightarrow>
               ((case out of
                   None \<Rightarrow> []
                 | Some res \<Rightarrow> map (\<lambda>j. (j, heartbeat_interval (CR_HeartbeatEveryMS res))) (CR_Jobs res)) @ started, left))))"

definition worker_Run :: "'h worker \<Rightarrow> claim_round list \<Rightarrow> string + (job \<times> int) list \<times> bool" where
  "worker_Run w rs =
     (if length (W_Queues w) = 0 then Inl ''cogs: worker has no handlers registered'' else Inr (run_rounds rs))"

subsection \<open>The slots of a worker\<close>

text \<open>
  A claimed batch waits for slots: the loop sends on the semaphore, of capacity \<open>Concurrent\<close>,
  before it starts a job's goroutine, and claims again only when the whole batch has started.
  Only a started job has a heartbeat. (A negative \<open>Concurrent\<close> panics when the channel is made.)
\<close>

record pool =
  waiting :: "job_id list"
  running :: "job_id list"

datatype pool_event = EvClaim "job_id list" | EvStart job_id | EvBeat job_id | EvDone job_id

inductive pool_step :: "int \<Rightarrow> pool \<Rightarrow> pool_event \<Rightarrow> pool \<Rightarrow> bool" for conc where
  pool_claim: "waiting s = [] \<Longrightarrow> pool_step conc s (EvClaim js) (s\<lparr>waiting := js\<rparr>)"
| pool_start: "waiting s = j # js \<Longrightarrow> int (length (running s)) < conc \<Longrightarrow>
     pool_step conc s (EvStart j) (s\<lparr>waiting := js, running := running s @ [j]\<rparr>)"
| pool_beat: "j \<in> set (running s) \<Longrightarrow> pool_step conc s (EvBeat j) s"
| pool_done: "j \<in> set (running s) \<Longrightarrow> pool_step conc s (EvDone j) (s\<lparr>running := remove1 j (running s)\<rparr>)"

inductive_cases pool_step_cases: "pool_step conc s e t"

definition pool_start_state :: pool where
  "pool_start_state = \<lparr>waiting = [], running = []\<rparr>"

definition pool_inv :: "int \<Rightarrow> pool \<Rightarrow> bool" where
  "pool_inv conc s \<longleftrightarrow> int (length (running s)) \<le> max 0 conc"

lemma pool_inv_step: "pool_inv conc s \<Longrightarrow> pool_step conc s e t \<Longrightarrow> pool_inv conc t"
  by (erule pool_step_cases) (auto simp: pool_inv_def length_remove1)

interpretation slots: transition_system "pool_step conc" "pool_inv conc" for conc
  by unfold_locales (rule pool_inv_step)

text \<open>
  While every slot is taken nothing starts: the jobs that wait keep waiting, without a heartbeat,
  however often the running ones renew.
\<close>

lemma full_pool_waits:
  assumes "runs (pool_step conc) s es t" and "conc \<le> int (length (running s))"
    and "\<forall>j. EvDone j \<notin> set es" and "waiting s \<noteq> []"
  shows "waiting t = waiting s \<and> running t = running s \<and> (\<forall>e \<in> set es. \<exists>j \<in> set (running s). e = EvBeat j)"
  using assms
proof (induction rule: runs.induct)
  case (run_cons s e t es u)
  have "t = s \<and> (\<exists>j \<in> set (running s). e = EvBeat j)"
    using run_cons.hyps(1) run_cons.prems by (auto elim!: pool_step_cases)
  then show ?case using run_cons.IH run_cons.prems by auto
qed simp

lemma batch_waits_silently:
  assumes "a \<noteq> b"
  shows "\<exists>s. runs (pool_step 1) pool_start_state ([EvClaim [a, b], EvStart a] @ replicate n (EvBeat a)) s
    \<and> b \<in> set (waiting s) \<and> EvBeat b \<notin> set ([EvClaim [a, b], EvStart a] @ replicate n (EvBeat a))"
proof -
  let ?s = "\<lparr>waiting = [b], running = [a]\<rparr>"
  have beats: "runs (pool_step 1) ?s (replicate n (EvBeat a)) ?s"
    using pool_beat [of a ?s 1] by (induction n) (simp_all add: runs.intros)
  have "pool_step 1 pool_start_state (EvClaim [a, b]) (pool_start_state\<lparr>waiting := [a, b]\<rparr>)"
    by (rule pool_claim) (simp add: pool_start_state_def)
  moreover have "pool_step 1 (pool_start_state\<lparr>waiting := [a, b]\<rparr>) (EvStart a) ?s"
    using pool_start [of "pool_start_state\<lparr>waiting := [a, b]\<rparr>" a "[b]" 1] by (simp add: pool_start_state_def)
  ultimately have "runs (pool_step 1) pool_start_state ([EvClaim [a, b], EvStart a] @ replicate n (EvBeat a)) ?s"
    using beats by (simp add: runs.intros)
  then show ?thesis using assms by (intro exI [of _ ?s]) simp
qed

subsection \<open>The handler of a job\<close>

text \<open>The error \<open>process\<close> gets from running a job: of its handler, or of there being none.\<close>

definition handler_error :: "'h worker \<Rightarrow> ('h \<Rightarrow> job \<Rightarrow> string option) \<Rightarrow> job \<Rightarrow> string option" where
  "handler_error w call job =
     (case W_Handlers w (Job_Queue job) of
        None \<Rightarrow> Some (''no handler registered for queue '' @ Job_Queue job)
      | Some h \<Rightarrow> call h job)"

lemma handler_is_called:
  "registered w \<Longrightarrow> Job_Queue job \<in> set (W_Queues w) \<Longrightarrow>
   \<exists>h. W_Handlers w (Job_Queue job) = Some h \<and> handler_error w call job = call h job"
  by (auto simp: registered_def handler_error_def)

subsection \<open>One job with its heartbeat\<close>

text \<open>
  The goroutine of the handler runs, has returned (with an error text or none), has read
  \<open>leaseLost\<close> and is about to report, or is over. The heartbeat goroutine beats until it sees
  \<open>done\<close> or a lost lease; a renewal in flight may return after \<open>done\<close> is closed.
\<close>

datatype phase = Handling | Returned "string option" | Reporting "string option" | Over

datatype sent = SentAck | SentFail

record proc =
  p_phase :: phase
  p_lost :: bool
  p_cancelled :: bool
  p_beating :: bool
  p_sent :: "sent list"
  p_onack :: bool

datatype proc_event =
    EvRenew "client_error option"
  | EvBeatStop
  | EvHandler "string option"
  | EvCheck
  | EvReport "client_error option"

definition proc_start :: proc where
  "proc_start = \<lparr>p_phase = Handling, p_lost = False, p_cancelled = False, p_beating = True,
     p_sent = [], p_onack = False\<rparr>"

inductive process_step :: "proc \<Rightarrow> proc_event \<Rightarrow> proc \<Rightarrow> bool" where
  ps_lost: "p_beating s \<Longrightarrow>
     process_step s (EvRenew (Some ErrLeaseLost)) (s\<lparr>p_lost := True, p_cancelled := True, p_beating := False\<rparr>)"
| ps_renewed: "p_beating s \<Longrightarrow> r \<noteq> Some ErrLeaseLost \<Longrightarrow> process_step s (EvRenew r) s"
| ps_stop: "p_beating s \<Longrightarrow> p_phase s \<noteq> Handling \<Longrightarrow> process_step s EvBeatStop (s\<lparr>p_beating := False\<rparr>)"
| ps_handler: "p_phase s = Handling \<Longrightarrow> process_step s (EvHandler err) (s\<lparr>p_phase := Returned err\<rparr>)"
| ps_check: "p_phase s = Returned err \<Longrightarrow>
     process_step s EvCheck (s\<lparr>p_phase := if p_lost s then Over else Reporting err\<rparr>)"
| ps_fail: "p_phase s = Reporting (Some err) \<Longrightarrow>
     process_step s (EvReport r) (s\<lparr>p_phase := Over, p_sent := p_sent s @ [SentFail]\<rparr>)"
| ps_ack: "p_phase s = Reporting None \<Longrightarrow>
     process_step s (EvReport r) (s\<lparr>p_phase := Over, p_sent := p_sent s @ [SentAck], p_onack := r = None\<rparr>)"

inductive_cases process_step_cases: "process_step s e t"

text \<open>
  At most one report, an ack only for a handler that returned no error, and the handler's
  context is cancelled exactly when the lease was lost.
\<close>

definition proc_inv :: "proc \<Rightarrow> bool" where
  "proc_inv s \<longleftrightarrow> length (p_sent s) \<le> 1 \<and> (p_phase s \<noteq> Over \<longrightarrow> p_sent s = [])
     \<and> p_cancelled s = p_lost s \<and> (p_onack s \<longrightarrow> p_sent s = [SentAck])"

lemma proc_inv_step: "proc_inv s \<Longrightarrow> process_step s e t \<Longrightarrow> proc_inv t"
  by (erule process_step_cases) (auto simp: proc_inv_def)

interpretation worker: transition_system process_step proc_inv
  by unfold_locales (rule proc_inv_step)

lemma proc_inv_start: "proc_inv proc_start"
  by (simp add: proc_inv_def proc_start_def)

lemma proc_over_quiet:
  "runs process_step s es t \<Longrightarrow> p_phase s = Over \<Longrightarrow> p_phase t = Over \<and> p_sent t = p_sent s"
proof (induction rule: runs.induct)
  case (run_cons s e t es u)
  have "p_phase t = Over \<and> p_sent t = p_sent s"
    using run_cons.hyps(1) run_cons.prems by (auto elim: process_step_cases)
  then show ?case using run_cons.IH by simp
qed simp

lemma lost_before_check:
  assumes "runs process_step proc_start es s" and "p_lost s" and "process_step s EvCheck t"
    and "runs process_step t fs u"
  shows "p_sent u = []"
proof -
  have inv: "proc_inv s" using worker.inv_runs [OF assms(1) proc_inv_start] .
  have "p_phase t = Over \<and> p_sent t = []"
    using assms(3) by (rule process_step_cases) (use inv assms(2) in \<open>simp_all add: proc_inv_def\<close>)
  then show ?thesis using proc_over_quiet [OF assms(4)] by simp
qed

text \<open>
  Between the check and the report the heartbeat can still learn that the lease is lost; the ack
  is sent all the same.
\<close>

lemma lost_after_check:
  "\<exists>s. runs process_step proc_start [EvHandler None, EvCheck, EvRenew (Some ErrLeaseLost), EvReport None] s
     \<and> p_lost s \<and> p_sent s = [SentAck]"
proof -
  let ?s1 = "proc_start\<lparr>p_phase := Returned None\<rparr>" and ?s2 = "proc_start\<lparr>p_phase := Reporting None\<rparr>"
  let ?s3 = "?s2\<lparr>p_lost := True, p_cancelled := True, p_beating := False\<rparr>"
  let ?s4 = "?s3\<lparr>p_phase := Over, p_sent := p_sent ?s3 @ [SentAck], p_onack := (None :: client_error option) = None\<rparr>"
  have "process_step proc_start (EvHandler None) ?s1" by (rule ps_handler) (simp add: proc_start_def)
  moreover have "process_step ?s1 EvCheck ?s2"
    using ps_check [of ?s1 None] by (simp add: proc_start_def)
  moreover have "process_step ?s2 (EvRenew (Some ErrLeaseLost)) ?s3" by (rule ps_lost) (simp add: proc_start_def)
  moreover have "process_step ?s3 (EvReport None) ?s4" by (rule ps_ack) simp
  ultimately have "runs process_step proc_start
      [EvHandler None, EvCheck, EvRenew (Some ErrLeaseLost), EvReport None] ?s4"
    by (meson runs.intros)
  then show ?thesis by (intro exI [of _ ?s4]) (simp add: proc_start_def)
qed

subsection \<open>The client against the server\<close>

text \<open>A response as the client's exchange, when it reads no body.\<close>

definition exchange_of :: "response \<Rightarrow> unit exchange" where
  "exchange_of r = Replied (status_of r) (Inr ())"

context redis_db
begin

text \<open>The renewal of a lease that is gone reaches the worker as ErrLeaseLost, and only that.\<close>

lemma renew_end_to_end:
  assumes "ValidQueueName q"
  shows "client_Renew (exchange_of (fst (handleRenew R c now Delivered j '''' q d))) =
    (if zset_at (view R d) (leasedKey q) j = None then Some ErrLeaseLost else None)"
proof -
  obtain d' where "Renew R c now Delivered q j d
      = (if zset_at (view R d) (leasedKey q) j = None then Inl ErrLeaseGone else Inr (lease_deadline c now), d')"
    using Renew_delivered [of c now q j d] by blast
  then show ?thesis using assms
    by (cases "zset_at (view R d) (leasedKey q) j")
      (simp_all add: handleRenew_def request_queue_def Let_def client_Renew_def client_do_def exchange_of_def)
qed

text \<open>
  The lease check asks whether the job is leased, not by whom: right after another worker has
  claimed the job, the renewal of the previous holder succeeds and its ack removes the job.
\<close>

lemma stale_holder:
  fixes d c q n dl
  defines "d1 \<equiv> exec_op R c (OpClaim q n dl) d"
  assumes "ValidQueueName q" and "j \<in> set (handed_out R (OpClaim q n dl) d)"
  shows "client_Renew (exchange_of (fst (handleRenew R c now Delivered j '''' q d1))) = None
    \<and> (\<exists>d2. handleAck R Delivered j '''' q d1 = (Response 200 (AckedBody 1), [(JobsAcked q, 1)], d2)
         \<and> j \<notin> live (view R d2))"
proof -
  have leased: "zset_at (view R d1) (leasedKey q) j = Some dl"
    unfolding d1_def by (rule leased_after_claim [OF assms(3)])
  obtain d2 where "handleAck R Delivered j '''' q d1 = (Response 200 (AckedBody 1), [(JobsAcked q, 1)], d2)"
    and "view R d2 = a_ack1 q j (view R d1)"
    using handleAck_status [of "''''" q j d1] assms(2) leased by (auto simp: request_queue_def)
  then show ?thesis
    using renew_end_to_end [OF assms(2), of c now j d1] leased by (simp add: a_ack1_def live_def)
qed

text \<open>The batch ack the SDK uses answers 200 also when no lease was held.\<close>

lemma ack_end_to_end:
  assumes "ValidQueueName q"
  shows "client_Ack (exchange_of (fst (handleAckBatch R Delivered (Inr \<lparr>Ack_Queue = q, Ack_IDs = [j]\<rparr>) d))) = None"
  using assms Ack_delivered [of q "[j]" d]
  by (auto simp: handleAckBatch_def client_Ack_def client_do_def exchange_of_def)

end

text \<open>The token the client sends is the one the server accepts.\<close>

lemma client_auth_accepted: "authorized c (case client_auth (AuthToken c) of None \<Rightarrow> '''' | Some h \<Rightarrow> h)"
  by (simp add: authorized_iff client_auth_def)

end
