(* ===== verification/Cogs_Loadtest.thy ===== *)
theory Cogs_Loadtest
  imports Cogs_Client Complex_Main
begin

section \<open>The load generator (loadtest/main.go)\<close>

text \<open>
  What the tool counts and reports: the producer and consumer loops over the outcomes of their
  requests, the summary \<open>run\<close> computes from them, the percentile \<open>pct\<close>, \<open>prefill\<close> and
  \<open>scrapeMetric\<close>, which finds a series among the lines of /metrics. Times are
  in ns. Each loop is a list of iterations; \<open>it_done\<close> is \<open>runCtx.Err() != nil\<close> at the loop's
  condition and \<open>it_done_after\<close> when an error is looked at.
\<close>

subsection \<open>What a call does\<close>

definition ping :: "unit exchange \<Rightarrow> string option" where
  "ping x =
     (case x of
        Failed e \<Rightarrow> Some e
      | Replied st _ \<Rightarrow> if st \<noteq> StatusOK then Some (''unexpected status '' @ itoa st) else None)"

text \<open>\<open>main\<close>: prefill, nothing because the server does not answer, or a run for each batch size.\<close>

datatype loadtest_action = Prefill int | Unreachable string | Runs "int list"

definition loadtest_main :: "bool \<Rightarrow> int \<Rightarrow> bool \<Rightarrow> int \<Rightarrow> unit exchange \<Rightarrow> loadtest_action" where
  "loadtest_main enqueueOnly prefillN sweep batch x =
     (if enqueueOnly then Prefill prefillN
      else if sweep
      then (case ping x of Some e \<Rightarrow> Unreachable e | None \<Rightarrow> Runs [1, 8, 32, 64])
      else (case ping x of Some e \<Rightarrow> Unreachable e | None \<Rightarrow> Runs [batch]))"

subsection \<open>The loops\<close>

record producer_it =
  pit_done :: bool
  pit_enqueue :: "(job_id \<times> queue \<times> bool) exchange"
  pit_done_after :: bool

text \<open>The counts of a producer: enqueued jobs and errors.\<close>

fun producer :: "producer_it list \<Rightarrow> int \<times> int" where
  "producer [] = (0, 0)"
| "producer (i # is) =
     (if pit_done i then (0, 0)
      else (case client_Enqueue (pit_enqueue i) of
          Inl e \<Rightarrow>
            if pit_done_after i then (0, 0)
            else (case producer is of (enqueued, errs) \<Rightarrow> (enqueued, errs + 1))
        | Inr out \<Rightarrow> (case producer is of (enqueued, errs) \<Rightarrow> (enqueued + 1, errs))))"

record consumer_it =
  cit_done :: bool
  cit_claim :: "claim_result exchange"
  cit_elapsed :: int
  cit_warm :: bool
  cit_ack :: "unit exchange"
  cit_done_after :: bool

text \<open>\<open>cit_warm\<close> is \<open>time.Now().After(warmupDeadline)\<close>.\<close>

record counts =
  n_acked :: int
  n_errors :: int
  latencies :: "int list"

definition no_counts :: counts where
  "no_counts = \<lparr>n_acked = 0, n_errors = 0, latencies = []\<rparr>"

definition claimed_jobs :: "claim_result option \<Rightarrow> job list" where
  "claimed_jobs out = (case out of None \<Rightarrow> [] | Some res \<Rightarrow> CR_Jobs res)"

fun consumer :: "consumer_it list \<Rightarrow> counts" where
  "consumer [] = no_counts"
| "consumer (i # is) =
     (if cit_done i then no_counts
      else (case client_Claim (cit_claim i) of
          Inl e \<Rightarrow>
            if cit_done_after i then no_counts
            else (consumer is)\<lparr>n_errors := n_errors (consumer is) + 1\<rparr>
        | Inr out \<Rightarrow>
            let jobs = claimed_jobs out; rest = consumer is in
            if length jobs = 0 then rest
            else
              let lat = (if cit_warm i then [cit_elapsed i] else []) in
              (case client_Ack (cit_ack i) of
                 Some e \<Rightarrow>
                   if cit_done_after i then no_counts\<lparr>latencies := lat\<rparr>
                   else rest\<lparr>n_errors := n_errors rest + 1, latencies := lat @ latencies rest\<rparr>
               | None \<Rightarrow> rest\<lparr>n_acked := n_acked rest + int (length jobs), latencies := lat @ latencies rest\<rparr>)))"

subsection \<open>The summary\<close>

text \<open>
  \<open>int(float64(len(sorted)-1) * p)\<close> for a \<open>p\<close> that is \<open>m / 2 ^ 53\<close> in float64. The product is
  rounded to 53 bits before the conversion truncates it.
\<close>

definition pct_index :: "nat \<Rightarrow> nat \<Rightarrow> nat" where
  "pct_index n m = round53 ((n - 1) * m) div 2 ^ 53"

definition pct :: "int list \<Rightarrow> nat \<Rightarrow> int" where
  "pct xs m = (if length xs = 0 then 0 else xs ! pct_index (length xs) m)"

text \<open>The float64 values of 0.50, 0.95 and 0.99.\<close>

definition p50 :: nat where "p50 = 4503599627370496"
definition p95 :: nat where "p95 = 8556839292003942"
definition p99 :: nat where "p99 = 8917127262193582"

record loadtest_result =
  jobsPerSec :: rat
  LR_acked :: int
  LR_errors :: int
  claimP50 :: int
  claimP95 :: int
  claimP99 :: int
  claimMax :: int

text \<open>
  \<open>run\<close> once every goroutine is done, in the order of the goroutines. \<open>jobsPerSec\<close> is the
  quotient before it is rounded to a float.
\<close>

definition run :: "int \<Rightarrow> producer_it list list \<Rightarrow> consumer_it list list \<Rightarrow> loadtest_result" where
  "run duration ps cs =
     (let acked = sum_list (map (n_acked \<circ> consumer) cs);
          errs = sum_list (map (snd \<circ> producer) ps) + sum_list (map (n_errors \<circ> consumer) cs);
          lat = sort (concat (map (latencies \<circ> consumer) cs))
      in \<lparr>jobsPerSec = of_int acked * of_int Second / of_int duration, LR_acked = acked, LR_errors = errs,
          claimP50 = pct lat p50, claimP95 = pct lat p95, claimP99 = pct lat p99,
          claimMax = (if length lat > 0 then last lat else 0)\<rparr>)"

text \<open>\<open>prefill\<close>: 32 workers with \<open>n / 32\<close> jobs each; the calls, as worker and index.\<close>

definition prefill_calls :: "int \<Rightarrow> (nat \<times> nat) list" where
  "prefill_calls n =
     (let chunk = n sdiv 32 in concat (map (\<lambda>w. map (\<lambda>i. (w, i)) [0..<nat chunk]) [0..<32]))"

definition prefill :: "int \<Rightarrow> (nat \<times> nat \<Rightarrow> (job_id \<times> queue \<times> bool) exchange) \<Rightarrow> int" where
  "prefill n outcome =
     int (length (filter (\<lambda>call. \<exists>out. client_Enqueue (outcome call) = Inr out) (prefill_calls n)))"

subsection \<open>A percentile is one of the samples\<close>

lemma pct_index_bound:
  assumes "0 < n" and "n \<le> 2 ^ 53" and "m \<le> 2 ^ 53"
  shows "pct_index n m < n"
proof -
  have "round53 ((n - 1) * m) \<le> (n - 1) * 2 ^ 53"
    using assms by (intro round53_upper) (simp_all add: mult_le_mono)
  then have "pct_index n m \<le> (n - 1) * 2 ^ 53 div 2 ^ 53" unfolding pct_index_def by (rule div_le_mono)
  then show ?thesis using assms(1) by simp
qed

lemma pct_member:
  assumes "xs \<noteq> []" and "length xs \<le> 2 ^ 53" and "m \<le> 2 ^ 53"
  shows "pct xs m \<in> set xs"
  using pct_index_bound [of "length xs" m] assms by (simp add: pct_def)

subsection \<open>prefill rounds down\<close>

lemma prefill_length: "0 \<le> n \<Longrightarrow> int (length (prefill_calls n)) = 32 * (n div 32)"
  by (cases "n = 0") (simp_all add: prefill_calls_def Let_def length_concat comp_def signed_divide_int_def sum_list_triv)

lemma prefill_all:
  assumes "0 \<le> n" and "\<And>call. \<exists>out. client_Enqueue (outcome call) = Inr out"
  shows "prefill n outcome = n - n mod 32"
  using assms prefill_length [OF assms(1)] by (simp add: prefill_def minus_mod_eq_mult_div)

subsection \<open>Throughput counts the warm-up\<close>

text \<open>The acknowledged jobs of the iterations that satisfy \<open>P\<close> and ran, as \<open>consumer\<close> counts them.\<close>

fun acked_in :: "(consumer_it \<Rightarrow> bool) \<Rightarrow> consumer_it list \<Rightarrow> int" where
  "acked_in P [] = 0"
| "acked_in P (i # is) =
     (if cit_done i then 0
      else (case client_Claim (cit_claim i) of
          Inl e \<Rightarrow> if cit_done_after i then 0 else acked_in P is
        | Inr out \<Rightarrow>
            if claimed_jobs out = [] then acked_in P is
            else if client_Ack (cit_ack i) \<noteq> None then (if cit_done_after i then 0 else acked_in P is)
            else (if P i then int (length (claimed_jobs out)) else 0) + acked_in P is))"

lemma consumer_acked: "n_acked (consumer is) = acked_in (\<lambda>i. \<not> cit_warm i) is + acked_in cit_warm is"
  by (induction "is") (auto simp: no_counts_def Let_def split: sum.splits option.splits)

lemma run_acked_split:
  "LR_acked (run duration ps cs) = sum_list (map (acked_in (\<lambda>i. \<not> cit_warm i)) cs) + sum_list (map (acked_in cit_warm) cs)"
  by (simp add: run_def Let_def consumer_acked comp_def sum_list_addf)

lemma run_rate: "jobsPerSec (run duration ps cs) = of_int (LR_acked (run duration ps cs)) * of_int Second / of_int duration"
  by (simp add: run_def Let_def)

subsection \<open>Scraping one counter\<close>

text \<open>
  \<open>strings.Fields\<close>: the words between runs of the runes \<open>unicode.IsSpace\<close> accepts, those beyond
  ASCII by their UTF-8 bytes. \<open>strconv.ParseFloat\<close> is a parameter.
\<close>

definition wide_spaces :: "string list" where
  "wide_spaces =
     [[CHR 0xC2, CHR 0x85], [CHR 0xC2, CHR 0xA0], [CHR 0xE1, CHR 0x9A, CHR 0x80],
      [CHR 0xE2, CHR 0x80, CHR 0x80], [CHR 0xE2, CHR 0x80, CHR 0x81], [CHR 0xE2, CHR 0x80, CHR 0x82],
      [CHR 0xE2, CHR 0x80, CHR 0x83], [CHR 0xE2, CHR 0x80, CHR 0x84], [CHR 0xE2, CHR 0x80, CHR 0x85],
      [CHR 0xE2, CHR 0x80, CHR 0x86], [CHR 0xE2, CHR 0x80, CHR 0x87], [CHR 0xE2, CHR 0x80, CHR 0x88],
      [CHR 0xE2, CHR 0x80, CHR 0x89], [CHR 0xE2, CHR 0x80, CHR 0x8A], [CHR 0xE2, CHR 0x80, CHR 0xA8],
      [CHR 0xE2, CHR 0x80, CHR 0xA9], [CHR 0xE2, CHR 0x80, CHR 0xAF], [CHR 0xE2, CHR 0x81, CHR 0x9F],
      [CHR 0xE3, CHR 0x80, CHR 0x80]]"

definition ascii_space :: "char \<Rightarrow> bool" where
  "ascii_space c \<longleftrightarrow> c = CHR 0x20 \<or> c = CHR 0x09 \<or> c = CHR 0x0A \<or> c = CHR 0x0B \<or> c = CHR 0x0C \<or> c = CHR 0x0D"

definition space_len :: "string \<Rightarrow> nat" where
  "space_len s =
     (if s \<noteq> [] \<and> ascii_space (hd s) then 1
      else (case find (\<lambda>w. take (length w) s = w) wide_spaces of None \<Rightarrow> 0 | Some w \<Rightarrow> length w))"

definition end_word :: "string \<Rightarrow> string list" where
  "end_word w = (if w = [] then [] else [w])"

function go_fields :: "string \<Rightarrow> string \<Rightarrow> string list" where
  "go_fields w s =
     (case s of [] \<Rightarrow> end_word w
      | c # r \<Rightarrow>
          if 0 < space_len s then end_word w @ go_fields [] (drop (space_len s) s)
          else go_fields (w @ [c]) r)"
  by auto
termination by (relation "measure (length \<circ> snd)") auto

declare go_fields.simps [simp del]

text \<open>\<open>strings.Split(s, "\n")\<close>.\<close>

fun split_lines :: "string \<Rightarrow> string list" where
  "split_lines [] = [[]]"
| "split_lines (c # s) =
     (if c = CHR 0x0A then [] # split_lines s
      else (case split_lines s of [] \<Rightarrow> [[c]] | l # ls \<Rightarrow> (c # l) # ls))"

fun scrape_lines :: "(string \<Rightarrow> string + 'f) \<Rightarrow> string \<Rightarrow> string list \<Rightarrow> string + 'f" where
  "scrape_lines parse name [] = Inl (''metric '' @ name @ '' not found'')"
| "scrape_lines parse name (line # lines) =
     (if take (length name) line = name \<and> length (go_fields [] line) = 2
      then parse (go_fields [] line ! 1) else scrape_lines parse name lines)"

text \<open>\<open>got\<close> is the body of the response, or the error of the request or of reading it.\<close>

definition scrapeMetric :: "(string \<Rightarrow> string + 'f) \<Rightarrow> string + string \<Rightarrow> string \<Rightarrow> string + 'f" where
  "scrapeMetric parse got name =
     (case got of Inl e \<Rightarrow> Inl e | Inr page \<Rightarrow> scrape_lines parse name (split_lines page))"

text \<open>A word of visible ASCII characters is one field.\<close>

definition plain_word :: "string \<Rightarrow> bool" where
  "plain_word w \<longleftrightarrow> w \<noteq> [] \<and> list_all (\<lambda>c. of_char c < (128 :: nat) \<and> \<not> ascii_space c) w"

lemma space_len_plain: "of_char c < (128 :: nat) \<Longrightarrow> \<not> ascii_space c \<Longrightarrow> space_len (c # s) = 0"
proof -
  assume c: "of_char c < (128 :: nat)" and "\<not> ascii_space c"
  have "list_all (\<lambda>w. w \<noteq> [] \<and> 128 \<le> (of_char (hd w) :: nat)) wide_spaces" by (simp add: wide_spaces_def)
  then have "take (length w) (c # s) \<noteq> w" if "w \<in> set wide_spaces" for w
    using that c by (cases w) (auto simp: list_all_iff)
  then have "find (\<lambda>w. take (length w) (c # s) = w) wide_spaces = None" by (simp add: find_None_iff)
  then show ?thesis using \<open>\<not> ascii_space c\<close> by (simp add: space_len_def)
qed

lemma go_fields_plain:
  "list_all (\<lambda>c. of_char c < (128 :: nat) \<and> \<not> ascii_space c) u \<Longrightarrow> go_fields w (u @ s) = go_fields (w @ u) s"
proof (induction u arbitrary: w)
  case (Cons c u)
  then show ?case by (subst go_fields.simps) (simp add: space_len_plain)
qed simp

lemma go_fields_two:
  assumes "plain_word a" and "plain_word b"
  shows "go_fields [] (a @ CHR 0x20 # b) = [a, b]"
proof -
  have "go_fields [] (a @ CHR 0x20 # b) = go_fields a (CHR 0x20 # b)"
    using go_fields_plain [of a "[]"] assms(1) by (simp add: plain_word_def)
  also have "\<dots> = end_word a @ go_fields [] b"
    by (subst go_fields.simps) (simp add: space_len_def ascii_space_def)
  also have "go_fields [] b = end_word b"
    using go_fields_plain [of b "[]" "[]"] assms(2) by (simp add: plain_word_def go_fields.simps [of b "[]"])
  finally show ?thesis using assms by (simp add: plain_word_def end_word_def)
qed

lemma split_lines_nonempty: "split_lines s \<noteq> []"
  by (induction s) (auto split: list.splits)

lemma split_lines_line: "CHR 0x0A \<notin> set l \<Longrightarrow> split_lines (l @ CHR 0x0A # s) = l # split_lines s"
  by (induction l) auto

text \<open>
  The counter's value is found when its line is the first that begins with the name; of a counter
  with labels that is the series of one label value only.
\<close>

lemma scrape_first_series:
  assumes "\<forall>l \<in> set pre. CHR 0x0A \<notin> set l \<and> take (length name) l \<noteq> name"
    and "plain_word (name @ labels)" and "plain_word v"
  shows "scrapeMetric parse (Inr (concat (map (\<lambda>l. l @ [CHR 0x0A]) (pre @ [name @ labels @ CHR 0x20 # v])) @ rest)) name = parse v"
proof -
  have nl: "CHR 0x0A \<notin> set w" if "plain_word w" for w
    using that by (auto simp: plain_word_def list_all_iff ascii_space_def)
  have line: "CHR 0x0A \<notin> set (name @ labels @ CHR 0x20 # v)" using nl [OF assms(2)] nl [OF assms(3)] by auto
  have split: "split_lines (concat (map (\<lambda>l. l @ [CHR 0x0A]) ls) @ s) = ls @ split_lines s"
    if "\<forall>l \<in> set ls. CHR 0x0A \<notin> set l" for ls s
    using that by (induction ls) (simp_all add: split_lines_line)
  let ?ls = "pre @ [name @ labels @ CHR 0x20 # v]"
  have "\<forall>l \<in> set ?ls. CHR 0x0A \<notin> set l" using assms(1) line by simp
  then have lines: "split_lines (concat (map (\<lambda>l. l @ [CHR 0x0A]) ?ls) @ rest)
      = pre @ (name @ labels @ CHR 0x20 # v) # split_lines rest"
    using split [of ?ls rest] by (simp only: append_assoc append_Cons append_Nil)
  have skip: "scrape_lines parse name (pre @ ls) = scrape_lines parse name ls" for ls
    using assms(1) by (induction pre) simp_all
  have "go_fields [] (name @ labels @ CHR 0x20 # v) = [name @ labels, v]"
    using go_fields_two [OF assms(2,3)] by simp
  then show ?thesis unfolding scrapeMetric_def sum.case lines skip by simp
qed

end
