(* ===== verification/Cogs_Leader.thy ===== *)
theory Cogs_Leader
  imports Store_Outcomes
begin

section \<open>Leader election (internal/cogs/leader.go)\<close>

text \<open>
  The lock is one Redis string with a time-to-live. A process has its identifier and the flag
  \<open>held\<close>; \<open>tryAcquire\<close> and \<open>release\<close> are the code's, over one round trip each. The system of
  all processes adds to each the time since Redis last granted or confirmed its lock, and shows
  what the lock guarantees: of the processes whose grant is younger than \<open>LeaderLockTTL\<close>, at
  most one leads.
\<close>

record leader =
  leader_id :: string
  held :: bool

text \<open>\<open>NewLeader\<close>: without random bytes the identifier is the text of the clock.\<close>

definition NewLeader :: "8 word list option \<Rightarrow> string \<Rightarrow> leader" where
  "NewLeader rnd now_text =
     \<lparr>leader_id = (case NewID rnd of Inl e \<Rightarrow> now_text | Inr newID \<Rightarrow> newID), held = False\<rparr>"

lemma NewLeader_distinct:
  "a \<noteq> b \<Longrightarrow> leader_id (NewLeader (Some a) t) \<noteq> leader_id (NewLeader (Some b) u)"
  by (simp add: NewLeader_def NewID_def hex_encode_inj)

definition tryAcquire :: "'db redis \<Rightarrow> config \<Rightarrow> net \<Rightarrow> leader \<Rightarrow> 'db \<Rightarrow> leader \<times> 'db" where
  "tryAcquire R c net l d =
     (let ttl = LeaderLockTTL c in
      if held l then
        (case roundtrip net (renewLockScript R leaderKey (leader_id l) (milliseconds ttl)) d of
           (Inl e, d') \<Rightarrow> (l, d')
         | (Inr ok, d') \<Rightarrow> if ok = 0 then (l\<lparr>held := False\<rparr>, d') else (l, d'))
      else
        (case roundtrip net (\<lambda>d. case r_setargs_nx R leaderKey (leader_id l) ttl d of (ok, d') \<Rightarrow> (Inr ok, d')) d of
           (Inl e, d') \<Rightarrow> (l, d')
         | (Inr acquired, d') \<Rightarrow> if acquired then (l\<lparr>held := True\<rparr>, d') else (l, d')))"

definition release :: "'db redis \<Rightarrow> net \<Rightarrow> leader \<Rightarrow> 'db \<Rightarrow> leader \<times> 'db" where
  "release R net l d =
     (if \<not> held l then (l, d)
      else (case roundtrip net (releaseLockScript R leaderKey (leader_id l)) d of
          (_, d') \<Rightarrow> (l\<lparr>held := False\<rparr>, d')))"

text \<open>
  \<open>Run\<close>: the first attempt, then the events of its \<open>select\<close>. Each event carries what the
  network does to its round trip and what the other processes did before it.
\<close>

datatype 'db leader_event = LeaderTick net "'db \<Rightarrow> 'db" | LeaderDone net "'db \<Rightarrow> 'db"

definition leader_tick :: "config \<Rightarrow> int" where
  "leader_tick c =
     (let tick = LeaderLockTTL c sdiv 3 in if tick < 100 * Millisecond then 100 * Millisecond else tick)"

fun leader_loop :: "'db redis \<Rightarrow> config \<Rightarrow> 'db leader_event list \<Rightarrow> leader \<Rightarrow> 'db \<Rightarrow> leader \<times> 'db" where
  "leader_loop R c [] l d = (l, d)"
| "leader_loop R c (LeaderDone net others # evs) l d = release R net l (others d)"
| "leader_loop R c (LeaderTick net others # evs) l d =
     (case tryAcquire R c net l (others d) of (l', d') \<Rightarrow> leader_loop R c evs l' d')"

definition leader_Run :: "'db redis \<Rightarrow> config \<Rightarrow> net \<Rightarrow> 'db leader_event list \<Rightarrow> leader \<Rightarrow> 'db \<Rightarrow> leader \<times> 'db" where
  "leader_Run R c net evs l d = (case tryAcquire R c net l d of (l', d') \<Rightarrow> leader_loop R c evs l' d')"

subsection \<open>The ticker leaves room for two failed renewals\<close>

lemma leader_tick_third:
  assumes "300 * Millisecond \<le> LeaderLockTTL c"
  shows "3 * leader_tick c \<le> LeaderLockTTL c" and "100 * Millisecond \<le> leader_tick c"
proof -
  have "LeaderLockTTL c sdiv 3 = LeaderLockTTL c div 3"
    using assms by (simp add: signed_divide_int_def)
  moreover have "3 * (x div 3) \<le> x" for x :: int by presburger
  ultimately show "3 * leader_tick c \<le> LeaderLockTTL c" "100 * Millisecond \<le> leader_tick c"
    using assms by (simp_all add: leader_tick_def Let_def)
qed

subsection \<open>One attempt\<close>

lemma leader_op_string:
  assumes "\<forall>t. x \<noteq> OpElapse t" and "\<forall>i. x \<notin> {OpAcquireLock i, OpRenewLock i, OpReleaseLock i}"
  shows "string_at (a_op c num x v) leaderKey = string_at v leaderKey"
  using assms
  by (cases x) (auto simp: a_enqueue_req_def a_enqueue_def a_claim_def Let_def a_renew_def string_folds
      a_reap_def a_retry_def string_fire a_fail_def cogs_simps split: option.splits)

context redis_db
begin

lemma renewLock_delivered:
  assumes "config_ok c"
  shows "\<exists>d'. renewLockScript R leaderKey i (milliseconds (LeaderLockTTL c)) d
      = (Inr (if a_holds i (view R d) then 1 else 0), d')
    \<and> view R d' = a_renew_lock i (milliseconds (LeaderLockTTL c)) (view R d)"
proof -
  have pos: "0 < milliseconds (LeaderLockTTL c)"
    using assms by (simp add: config_ok_def milliseconds_nonneg pos_imp_zdiv_pos_iff)
  obtain n d' where p: "r_pexpire R leaderKey (milliseconds (LeaderLockTTL c)) d = (n, d')" by fastforce
  then show ?thesis
    using pexpire_view [of leaderKey "milliseconds (LeaderLockTTL c)" d]
      pexpire_reply [of leaderKey "milliseconds (LeaderLockTTL c)" d] pos
    by (auto simp: renewLockScript_def a_renew_lock_def a_holds_def view_reads)
qed

lemma setargs_delivered:
  assumes "config_ok c"
  shows "\<exists>d'. r_setargs_nx R leaderKey i (LeaderLockTTL c) d = (string_at (view R d) leaderKey = None, d')
    \<and> view R d' = a_acquire i (milliseconds (LeaderLockTTL c)) (view R d)"
proof -
  have ttl: "Millisecond \<le> LeaderLockTTL c" using assms by (simp add: config_ok_def)
  show ?thesis using setargs_nx_view [OF _ ttl, of leaderKey i d] setargs_nx_reply [OF _ ttl, of leaderKey i d]
    by (cases "r_setargs_nx R leaderKey i (LeaderLockTTL c) d") (auto simp: a_acquire_def)
qed

lemma releaseLock_delivered:
  "\<exists>n d'. releaseLockScript R leaderKey i d = (Inr n, d') \<and> view R d' = a_release i (view R d)"
proof -
  obtain n d' where p: "r_del R leaderKey d = (n, d')" by fastforce
  then show ?thesis using del_string_view [of leaderKey d]
    by (auto simp: releaseLockScript_def a_release_def a_holds_def view_reads)
qed

text \<open>What an attempt does, for each state of the flag and each fate of the message.\<close>

lemma tryAcquire_view:
  assumes "config_ok c"
  shows "view R (snd (tryAcquire R c net l d)) =
    (if \<exists>e. net = LostRequest e then view R d
     else if held l then a_renew_lock (leader_id l) (milliseconds (LeaderLockTTL c)) (view R d)
     else a_acquire (leader_id l) (milliseconds (LeaderLockTTL c)) (view R d))"
proof -
  obtain d1 where 1: "renewLockScript R leaderKey (leader_id l) (milliseconds (LeaderLockTTL c)) d
      = (Inr (if a_holds (leader_id l) (view R d) then 1 else 0), d1)"
    "view R d1 = a_renew_lock (leader_id l) (milliseconds (LeaderLockTTL c)) (view R d)"
    using renewLock_delivered [OF assms] by blast
  obtain d2 where 2: "r_setargs_nx R leaderKey (leader_id l) (LeaderLockTTL c) d
      = (string_at (view R d) leaderKey = None, d2)"
    "view R d2 = a_acquire (leader_id l) (milliseconds (LeaderLockTTL c)) (view R d)"
    using setargs_delivered [OF assms] by blast
  show ?thesis by (cases net) (simp_all add: tryAcquire_def 1 2 Let_def)
qed

lemma tryAcquire_leader:
  assumes "config_ok c"
  shows "fst (tryAcquire R c net l d) =
    (if net \<noteq> Delivered then l
     else if held l then l\<lparr>held := a_holds (leader_id l) (view R d)\<rparr>
     else l\<lparr>held := string_at (view R d) leaderKey = None\<rparr>)"
proof -
  obtain d1 where 1: "renewLockScript R leaderKey (leader_id l) (milliseconds (LeaderLockTTL c)) d
      = (Inr (if a_holds (leader_id l) (view R d) then 1 else 0), d1)"
    using renewLock_delivered [OF assms] by blast
  obtain d2 where 2: "r_setargs_nx R leaderKey (leader_id l) (LeaderLockTTL c) d
      = (string_at (view R d) leaderKey = None, d2)"
    using setargs_delivered [OF assms] by blast
  show ?thesis by (cases net; cases "held l") (simp_all add: tryAcquire_def 1 2 Let_def)
qed

lemma release_view:
  "view R (snd (release R net l d)) =
    (if \<not> held l \<or> (\<exists>e. net = LostRequest e) then view R d else a_release (leader_id l) (view R d))"
proof -
  obtain n d1 where "releaseLockScript R leaderKey (leader_id l) d = (Inr n, d1)"
    "view R d1 = a_release (leader_id l) (view R d)"
    using releaseLock_delivered by blast
  then show ?thesis by (cases net) (simp_all add: release_def)
qed

end

subsection \<open>All processes together\<close>

text \<open>
  Process \<open>p\<close> has the identifier \<open>ids p\<close>. \<open>granted s p\<close> is the time, in ms, since Redis last
  ran an acquire or renewal of \<open>p\<close> that \<open>p\<close> saw succeed. Steps: an attempt or a release of a
  process with any fate of its message, time passing, and any other operation of the program.
\<close>

record 'db cluster =
  c_db :: 'db
  c_held :: "nat \<Rightarrow> bool"
  c_granted :: "nat \<Rightarrow> int"

datatype cluster_event = Try nat net | Release nat net | Wait int | Other op

inductive cluster_step ::
  "'db redis \<Rightarrow> config \<Rightarrow> (nat \<Rightarrow> string) \<Rightarrow> 'db cluster \<Rightarrow> cluster_event \<Rightarrow> 'db cluster \<Rightarrow> bool"
  for R c ids where
  step_try: "tryAcquire R c net \<lparr>leader_id = ids p, held = c_held s p\<rparr> (c_db s) = (l, d') \<Longrightarrow>
     cluster_step R c ids s (Try p net)
       \<lparr>c_db = d', c_held = (c_held s)(p := held l),
        c_granted = (if net = Delivered \<and> held l then (c_granted s)(p := 0) else c_granted s)\<rparr>"
| step_release: "release R net \<lparr>leader_id = ids p, held = c_held s p\<rparr> (c_db s) = (l, d') \<Longrightarrow>
     cluster_step R c ids s (Release p net) (s\<lparr>c_db := d', c_held := (c_held s)(p := held l)\<rparr>)"
| step_wait: "0 \<le> t \<Longrightarrow>
     cluster_step R c ids s (Wait t) (s\<lparr>c_db := r_elapse R t (c_db s), c_granted := (\<lambda>p. c_granted s p + t)\<rparr>)"
| step_other: "op_ok x (view R (c_db s)) \<Longrightarrow> \<forall>t. x \<noteq> OpElapse t \<Longrightarrow>
     \<forall>i. x \<notin> {OpAcquireLock i, OpRenewLock i, OpReleaseLock i} \<Longrightarrow>
     cluster_step R c ids s (Other x) (s\<lparr>c_db := exec_op R c x (c_db s)\<rparr>)"

text \<open>A process leads on a fresh grant when its flag is set and the grant is younger than the TTL.\<close>

definition fresh_leader :: "config \<Rightarrow> 'db cluster \<Rightarrow> nat \<Rightarrow> bool" where
  "fresh_leader c s p \<longleftrightarrow> c_held s p \<and> c_granted s p < milliseconds (LeaderLockTTL c)"

definition lock_backs :: "config \<Rightarrow> (nat \<Rightarrow> string) \<Rightarrow> rview \<Rightarrow> 'db cluster \<Rightarrow> nat \<Rightarrow> bool" where
  "lock_backs c ids v s p \<longleftrightarrow> (\<exists>ttl. string_at v leaderKey = Some (ids p, Some ttl)
     \<and> milliseconds (LeaderLockTTL c) - c_granted s p \<le> ttl)"

definition cluster_inv :: "'db redis \<Rightarrow> config \<Rightarrow> (nat \<Rightarrow> string) \<Rightarrow> 'db cluster \<Rightarrow> bool" where
  "cluster_inv R c ids s \<longleftrightarrow> config_ok c \<and> inj ids \<and> job_inv (MaxRetries c) (view R (c_db s)) \<and>
     (\<forall>p. 0 \<le> c_granted s p) \<and> (\<forall>p. fresh_leader c s p \<longrightarrow> lock_backs c ids (view R (c_db s)) s p)"

lemma fresh_unique:
  assumes "cluster_inv R c ids s" and "fresh_leader c s p" and "fresh_leader c s q"
  shows "p = q"
proof -
  have "lock_backs c ids (view R (c_db s)) s p" "lock_backs c ids (view R (c_db s)) s q"
    using assms by (auto simp: cluster_inv_def)
  then have "ids p = ids q" by (auto simp: lock_backs_def)
  then show ?thesis using assms(1) by (auto simp: cluster_inv_def inj_eq)
qed

lemma inv_lock_ops:
  "job_inv mr v \<Longrightarrow> job_inv mr (a_acquire i ms v)" "job_inv mr v \<Longrightarrow> job_inv mr (a_renew_lock i ms v)"
  "job_inv mr v \<Longrightarrow> job_inv mr (a_release i v)" "job_inv mr v \<Longrightarrow> job_inv mr (a_elapse t v)"
  by (simp_all add: a_acquire_def a_renew_lock_def a_release_def a_elapse_def inv_string inv_strings)

text \<open>The lock of a fresh leader survives every attempt of another process.\<close>

lemma lock_backs_acquire:
  assumes "lock_backs c ids v s p" and "string_at w = string_at (a_acquire i (milliseconds (LeaderLockTTL c)) v)"
  shows "lock_backs c ids w s p"
  using assms by (auto simp: lock_backs_def a_acquire_def)

lemma lock_backs_renew:
  assumes "lock_backs c ids v s p" and "0 \<le> c_granted s p"
    and "string_at w = string_at (a_renew_lock i (milliseconds (LeaderLockTTL c)) v)"
  shows "lock_backs c ids w s p"
  using assms by (auto simp: lock_backs_def a_renew_lock_def a_holds_def)

lemma lock_backs_release:
  assumes "lock_backs c ids v s p" and "i \<noteq> ids p" and "string_at w = string_at (a_release i v)"
  shows "lock_backs c ids w s p"
  using assms by (auto simp: lock_backs_def a_release_def a_holds_def)

lemma lock_backs_cong:
  "lock_backs c ids v s p \<Longrightarrow> c_granted t p = c_granted s p \<Longrightarrow> lock_backs c ids v t p"
  by (simp add: lock_backs_def)

context redis_db
begin

lemma inv_try:
  assumes inv: "cluster_inv R c ids s"
    and tried: "tryAcquire R c net \<lparr>leader_id = ids p, held = c_held s p\<rparr> (c_db s) = (l, d')"
  shows "cluster_inv R c ids \<lparr>c_db = d', c_held = (c_held s)(p := held l),
    c_granted = (if net = Delivered \<and> held l then (c_granted s)(p := 0) else c_granted s)\<rparr>"
    (is "cluster_inv R c ids ?t")
proof -
  let ?v = "view R (c_db s)" and ?ms = "milliseconds (LeaderLockTTL c)"
  have ok: "config_ok c" and injd: "inj ids" and ji: "job_inv (MaxRetries c) ?v"
    and g: "\<And>p. 0 \<le> c_granted s p" and b: "\<And>p. fresh_leader c s p \<Longrightarrow> lock_backs c ids ?v s p"
    using inv by (auto simp: cluster_inv_def)
  have v: "view R d' = (if \<exists>e. net = LostRequest e then ?v
      else if c_held s p then a_renew_lock (ids p) ?ms ?v else a_acquire (ids p) ?ms ?v)"
    using tryAcquire_view [OF ok, of net "\<lparr>leader_id = ids p, held = c_held s p\<rparr>" "c_db s"] tried by simp
  have l: "held l = (if net \<noteq> Delivered then c_held s p
      else if c_held s p then a_holds (ids p) ?v else string_at ?v leaderKey = None)"
    using tryAcquire_leader [OF ok, of net "\<lparr>leader_id = ids p, held = c_held s p\<rparr>" "c_db s"] tried by simp
  have ji': "job_inv (MaxRetries c) (view R d')" using ji by (simp add: v inv_lock_ops)
  have backs: "lock_backs c ids (view R d') s r" if "lock_backs c ids ?v s r" for r
    using that g [of r] by (auto simp: v intro: lock_backs_acquire lock_backs_renew)
  have "lock_backs c ids (view R d') ?t r" if fresh: "fresh_leader c ?t r" for r
  proof (cases "r = p \<and> net = Delivered")
    case True
    then have "held l" using fresh by (simp add: fresh_leader_def)
    then have "string_at (view R d') leaderKey = Some (ids p, Some ?ms)"
      using True l v by (auto simp: a_renew_lock_def a_acquire_def split: if_splits)
    then show ?thesis using True \<open>held l\<close> by (simp add: lock_backs_def)
  next
    case False
    then have same: "c_granted ?t r = c_granted s r" by auto
    have "c_held s r" using fresh False l by (auto simp: fresh_leader_def split: if_splits)
    then have "fresh_leader c s r" using fresh same by (simp add: fresh_leader_def)
    then show ?thesis using lock_backs_cong [OF backs [OF b] same] by simp
  qed
  then show ?thesis using ok injd ji' g by (simp add: cluster_inv_def)
qed

lemma inv_release_step:
  assumes inv: "cluster_inv R c ids s"
    and rel: "release R net \<lparr>leader_id = ids p, held = c_held s p\<rparr> (c_db s) = (l, d')"
  shows "cluster_inv R c ids (s\<lparr>c_db := d', c_held := (c_held s)(p := held l)\<rparr>)" (is "cluster_inv R c ids ?t")
proof -
  let ?v = "view R (c_db s)"
  have ok: "config_ok c" and injd: "inj ids" and ji: "job_inv (MaxRetries c) ?v"
    and g: "\<And>p. 0 \<le> c_granted s p" and b: "\<And>p. fresh_leader c s p \<Longrightarrow> lock_backs c ids ?v s p"
    using inv by (auto simp: cluster_inv_def)
  have v: "view R d' = (if \<not> c_held s p \<or> (\<exists>e. net = LostRequest e) then ?v else a_release (ids p) ?v)"
    using release_view [of net "\<lparr>leader_id = ids p, held = c_held s p\<rparr>" "c_db s"] rel by simp
  have l: "\<not> held l" using rel by (auto simp: release_def split: if_splits prod.splits)
  have "lock_backs c ids (view R d') ?t r" if fresh: "fresh_leader c ?t r" for r
  proof -
    have "r \<noteq> p" using fresh l by (auto simp: fresh_leader_def)
    then have "fresh_leader c s r" and "ids p \<noteq> ids r"
      using fresh injd by (auto simp: fresh_leader_def inj_eq)
    then have "lock_backs c ids (view R d') s r"
      using b [of r] by (auto simp: v intro: lock_backs_release)
    then show ?thesis by (rule lock_backs_cong) simp
  qed
  then show ?thesis using ok injd ji g by (simp add: cluster_inv_def v inv_lock_ops)
qed

lemma inv_wait:
  assumes inv: "cluster_inv R c ids s" and t: "0 \<le> t"
  shows "cluster_inv R c ids (s\<lparr>c_db := r_elapse R t (c_db s), c_granted := (\<lambda>p. c_granted s p + t)\<rparr>)"
    (is "cluster_inv R c ids ?t")
proof -
  let ?v = "view R (c_db s)"
  have v: "view R (r_elapse R t (c_db s)) = a_elapse t ?v" using t by (simp add: elapse_view a_elapse_def)
  have "lock_backs c ids (a_elapse t ?v) ?t p" if "fresh_leader c ?t p" for p
  proof -
    have "fresh_leader c s p" and young: "c_granted s p + t < milliseconds (LeaderLockTTL c)"
      using that t by (auto simp: fresh_leader_def)
    then obtain ttl where ttl: "string_at ?v leaderKey = Some (ids p, Some ttl)"
      "milliseconds (LeaderLockTTL c) - c_granted s p \<le> ttl"
      using inv by (auto simp: cluster_inv_def lock_backs_def)
    then have "\<not> ttl \<le> t" using young by simp
    then show ?thesis using ttl by (auto simp: lock_backs_def a_elapse_def age_string_def)
  qed
  then show ?thesis using inv t by (auto simp: cluster_inv_def v inv_lock_ops)
qed

lemma inv_other:
  assumes inv: "cluster_inv R c ids s" and ok: "op_ok x (view R (c_db s))"
    and x: "\<forall>t. x \<noteq> OpElapse t" "\<forall>i. x \<notin> {OpAcquireLock i, OpRenewLock i, OpReleaseLock i}"
  shows "cluster_inv R c ids (s\<lparr>c_db := exec_op R c x (c_db s)\<rparr>)"
proof -
  have v: "view R (exec_op R c x (c_db s)) = a_op c (r_lua_number R) x (view R (c_db s))"
    using inv ok by (intro exec_refines) (auto simp: cluster_inv_def)
  show ?thesis
    using inv inv_op [of c "view R (c_db s)" x] ok
    by (auto simp: cluster_inv_def v fresh_leader_def lock_backs_def leader_op_string [OF x])
qed

lemma cluster_inv_step:
  assumes "cluster_inv R c ids s" and "cluster_step R c ids s x t"
  shows "cluster_inv R c ids t"
  using assms(2)
proof cases
  case (step_try net p l d')
  show ?thesis unfolding step_try by (rule inv_try [OF assms(1) step_try(3)])
next
  case (step_release net p l d')
  show ?thesis unfolding step_release by (rule inv_release_step [OF assms(1) step_release(3)])
next
  case (step_wait t)
  show ?thesis unfolding step_wait by (rule inv_wait [OF assms(1) step_wait(3)])
next
  case (step_other x)
  show ?thesis unfolding step_other by (rule inv_other [OF assms(1) step_other(3-5)])
qed

end

sublocale redis_db \<subseteq> nodes: transition_system "cluster_step R c ids" "cluster_inv R c ids" for c ids
  by unfold_locales (rule cluster_inv_step)

context redis_db
begin

lemma fresh_leader_unique_runs:
  assumes "runs (cluster_step R c ids) s xs t" and "cluster_inv R c ids s"
    and "fresh_leader c t p" and "fresh_leader c t q"
  shows "p = q"
  using fresh_unique [OF nodes.inv_runs [OF assms(1,2)] assms(3,4)] .

end

text \<open>Any database of the program with no process leading is a start.\<close>

definition cluster_start :: "'db \<Rightarrow> 'db cluster" where
  "cluster_start d = \<lparr>c_db = d, c_held = (\<lambda>_. False), c_granted = (\<lambda>_. 0)\<rparr>"

lemma cluster_inv_start:
  "config_ok c \<Longrightarrow> inj ids \<Longrightarrow> job_inv (MaxRetries c) (view R d) \<Longrightarrow> cluster_inv R c ids (cluster_start d)"
  by (simp add: cluster_inv_def fresh_leader_def cluster_start_def)

subsection \<open>Failover\<close>

context redis_db
begin

text \<open>
  When the holder stops renewing, the lock is gone after its time-to-live and the next attempt of
  any process that is delivered takes it; a release hands over at once.
\<close>

lemma failover:
  assumes "config_ok c" and "string_at (view R d) leaderKey = Some (x, Some ttl)" and "ttl \<le> t" and "0 \<le> t"
    and "\<not> held l"
  shows "held (fst (tryAcquire R c Delivered l (r_elapse R t d)))"
  using assms by (simp add: tryAcquire_leader elapse_view age_string_def)

lemma handover:
  assumes "config_ok c" and "held l" and "a_holds (leader_id l) (view R d)" and "\<not> held l2"
  shows "held (fst (tryAcquire R c Delivered l2 (snd (release R Delivered l d))))"
  using assms by (simp add: tryAcquire_leader release_view a_release_def)

end

end
