(* ===== verification/Cogs_Server.thy ===== *)
theory Cogs_Server
  imports Cogs_Api Cogs_Leader
begin

section \<open>The server process (cmd/cogs/main.go and Runtime.Start of loops.go)\<close>

text \<open>
  What \<open>main\<close> decides: whether it serves at all, the timeouts of its HTTP server, and the four
  goroutines \<open>Runtime.Start\<close> launches, each driven by a \<open>time.NewTicker\<close>, which panics for an
  interval that is not positive. A panic in a goroutine ends the process.
\<close>

subsection \<open>The background loops it starts\<close>

definition NewTicker :: "int \<Rightarrow> unit outcome" where
  "NewTicker tick = (if tick \<le> 0 then Panic ''non-positive interval for NewTicker'' else Return ())"

definition loop_ticks :: "config \<Rightarrow> (string \<times> int) list" where
  "loop_ticks c =
     [(''leader'', leader_tick c), (''reaper'', ReaperInterval c), (''retry'', RetryInterval c),
      (''scheduler'', SchedulerInterval c)]"

text \<open>The loops whose goroutine panics when it makes its ticker.\<close>

definition Start_panics :: "config \<Rightarrow> string list" where
  "Start_panics c = map fst (filter (\<lambda>(name, tick). NewTicker tick \<noteq> Return ()) (loop_ticks c))"

lemma leader_tick_pos: "100 * Millisecond \<le> leader_tick c"
  by (simp add: leader_tick_def Let_def)

lemma Start_panics_iff:
  "Start_panics c = filter (\<lambda>name. (name = ''reaper'' \<and> ReaperInterval c \<le> 0) \<or> (name = ''retry'' \<and> RetryInterval c \<le> 0)
     \<or> (name = ''scheduler'' \<and> SchedulerInterval c \<le> 0)) [''leader'', ''reaper'', ''retry'', ''scheduler'']"
  using leader_tick_pos [of c] by (simp add: Start_panics_def loop_ticks_def NewTicker_def)

subsection \<open>Start-up\<close>

record http_server =
  Srv_Addr :: string
  Srv_ReadHeaderTimeout :: int
  Srv_ReadTimeout :: int
  Srv_WriteTimeout :: int
  Srv_IdleTimeout :: int

definition http_server_of :: "config \<Rightarrow> http_server" where
  "http_server_of c = \<lparr>Srv_Addr = '':'' @ Port c, Srv_ReadHeaderTimeout = 5 * Second,
     Srv_ReadTimeout = 30 * Second, Srv_WriteTimeout = i64 (MaxClaimWait c + 30 * Second),
     Srv_IdleTimeout = 120 * Second\<rparr>"

text \<open>
  The process exits with a log message before it serves, panics in a loop, or serves. \<open>ping\<close>
  and \<open>load\<close> are the errors of \<open>Ping\<close> and \<open>LoadScripts\<close>, if any.
\<close>

datatype startup = Exits int string | Crashes "string list" | Serves http_server

definition server_main :: "config \<Rightarrow> string option \<Rightarrow> string option \<Rightarrow> startup" where
  "server_main c ping load =
     (case ping of
        Some e \<Rightarrow> Exits 1 ''cannot reach redis''
      | None \<Rightarrow>
          (case load of
             Some e \<Rightarrow> Exits 1 ''cannot load lua scripts''
           | None \<Rightarrow> if Start_panics c \<noteq> [] then Crashes (Start_panics c) else Serves (http_server_of c)))"

text \<open>
  \<open>LoadScripts\<close> over the result of each SCRIPT LOAD. Go's order over the map of scripts is any, an
  argument; the first failure ends it.
\<close>

definition script_names :: "string list" where
  "script_names = [''enqueue'', ''claim'', ''renew'', ''ack'', ''fail'', ''drain'', ''releaseLock'', ''renewLock'', ''schedule'']"

fun LoadScripts :: "string list \<Rightarrow> (string \<Rightarrow> string option) \<Rightarrow> string option" where
  "LoadScripts [] result = None"
| "LoadScripts (name # names) result =
     (case result name of
        Some e \<Rightarrow> Some (''load '' @ name @ '' script: '' @ e)
      | None \<Rightarrow> LoadScripts names result)"

lemma LoadScripts_ok: "LoadScripts names result = None \<longleftrightarrow> (\<forall>name \<in> set names. result name = None)"
  by (induction names) (auto split: option.splits)

text \<open>
  What a serving process waits for: its listener fails, which ends it with status 1, or is closed;
  a signal, after which it drains its requests within 15 s and ends with status 0, also when that
  takes too long. \<open>None\<close>: it still serves.
\<close>

datatype server_event = ListenFailed string | ListenClosed | Signalled "string option"

fun server_exit :: "server_event list \<Rightarrow> int option" where
  "server_exit [] = None"
| "server_exit (ListenFailed e # evs) = Some 1"
| "server_exit (ListenClosed # evs) = server_exit evs"
| "server_exit (Signalled drain_error # evs) = Some 0"

lemma server_exit_zero:
  "server_exit evs = Some 0 \<longleftrightarrow> (\<exists>pre err post. evs = pre @ Signalled err # post \<and> (\<forall>e \<in> set pre. e = ListenClosed))"
proof (induction evs)
  case (Cons e evs)
  show ?case
  proof (cases e)
    case (ListenFailed x)
    then show ?thesis by (auto simp: Cons_eq_append_conv)
  next
    case ListenClosed
    then show ?thesis using Cons by (fastforce simp: Cons_eq_append_conv)
  next
    case (Signalled err)
    then have "\<exists>pre err post. e # evs = pre @ Signalled err # post \<and> (\<forall>e \<in> set pre. e = ListenClosed)"
      by (intro exI [of _ "[]"]) simp
    then show ?thesis using Signalled by simp
  qed
qed simp

text \<open>The server serves exactly when Redis answers and the three intervals are positive.\<close>

lemma server_serves_iff:
  "(\<exists>srv. server_main c ping load = Serves srv) \<longleftrightarrow>
     ping = None \<and> load = None \<and> 0 < ReaperInterval c \<and> 0 < RetryInterval c \<and> 0 < SchedulerInterval c"
  by (auto simp: server_main_def Start_panics_iff not_le split: option.splits)

text \<open>
  The write timeout leaves 30 s beyond the longest claim poll, as long as the sum does not
  overflow.
\<close>

lemma write_timeout_exceeds_poll:
  assumes "server_main c ping load = Serves srv" and "0 \<le> MaxClaimWait c"
    and "MaxClaimWait c + 30 * Second < 2 ^ 63"
  shows "claim_wait c w + 30 * Second \<le> Srv_WriteTimeout srv"
proof -
  have "srv = http_server_of c" using assms(1) by (auto simp: server_main_def split: option.splits if_splits)
  moreover have "claim_wait c w \<le> MaxClaimWait c" by (simp add: claim_wait_def Let_def)
  ultimately show ?thesis using assms(2,3) i64_id [of "MaxClaimWait c + 30 * Second"]
    by (simp add: http_server_of_def)
qed

end
