(* ===== verification/Payload_Inv.thy ===== *)
theory Payload_Inv
  imports Cogs_Scheduler
begin

section \<open>The payloads the store holds\<close>

text \<open>
  A predicate on payloads that every write respects holds of every payload stored, of jobs and of
  schedules, and so of every payload that is read back: by a claim, by the reads of the API, and
  by the scheduler's pass, whose jobs get the payload of their schedule. Other processes may act
  between any two round trips, as long as their writes respect the predicate, too.
\<close>

definition payload_of :: "(string \<rightharpoonup> string) \<Rightarrow> string" where
  "payload_of h = (case h ''payload'' of None \<Rightarrow> '''' | Some p \<Rightarrow> p)"

definition payloads_ok :: "(string \<Rightarrow> bool) \<Rightarrow> rview \<Rightarrow> bool" where
  "payloads_ok ok v \<longleftrightarrow>
     (\<forall>i. hash_at v (jobKey i) \<noteq> Map.empty \<longrightarrow> ok (payload_of (hash_at v (jobKey i))))
     \<and> (\<forall>sid. hash_at v (scheduleKey sid) \<noteq> Map.empty \<longrightarrow> ok (payload_of (hash_at v (scheduleKey sid))))"

lemma payloads_ok_empty [simp]: "payloads_ok ok view_empty"
  by (simp add: payloads_ok_def view_empty_def)

lemma payloads_ok_any [simp]: "payloads_ok (\<lambda>_. True) v"
  by (simp add: payloads_ok_def)

lemma payloads_ok_hashes: "hash_at w = hash_at v \<Longrightarrow> payloads_ok ok w = payloads_ok ok v"
  by (simp add: payloads_ok_def)

lemma payload_of_simps [simp]:
  "payload_of (job_hash p q n i t) = p" "payload_of (h(f \<mapsto> x)) = (if f = ''payload'' then x else payload_of h)"
  "payload_of (h ++ map_of (schedule_fields q spec p t)) = p"
  by (simp_all add: payload_of_def schedule_fields_def)

subsection \<open>One step\<close>

lemma payloads_enqueue: "payloads_ok ok v \<Longrightarrow> ok p \<Longrightarrow> payloads_ok ok (a_enqueue j p q t i v)"
  by (simp add: payloads_ok_def a_enqueue_def)

lemma payloads_fire1:
  assumes "payloads_ok ok v" and "ok p"
  shows "payloads_ok ok (a_fire1 nows now (sid, j, p, nx) v)"
proof (cases "\<exists>s q. zset_at v schedulesKey sid = Some s \<and> s \<le> now \<and> hash_at v (scheduleKey sid) ''queue'' = Some q")
  case True
  then obtain s q where sq: "zset_at v schedulesKey sid = Some s" "s \<le> now" "hash_at v (scheduleKey sid) ''queue'' = Some q"
    by blast
  then have "hash_at v (scheduleKey sid) \<noteq> Map.empty" by auto
  with payloads_enqueue [OF assms, of j q nows "''''"] assms(1) show ?thesis
    using sq by (simp add: a_fire1_def payloads_ok_def a_enqueue_def)
next
  case False
  then have "a_fire1 nows now (sid, j, p, nx) v = v" by (auto simp: a_fire1_def split: option.splits)
  then show ?thesis using assms(1) by simp
qed

lemma payloads_fire:
  "payloads_ok ok v \<Longrightarrow> \<forall>(sid, j, p, nx) \<in> set xs. ok p \<Longrightarrow> payloads_ok ok (snd (a_fire nows now xs v))"
proof (induction xs arbitrary: v)
  case (Cons x xs)
  obtain sid j p nx where x: "x = (sid, j, p, nx)" by (cases x)
  then show ?case using Cons payloads_fire1 [of ok v p nows now sid j nx] by (simp add: split_beta)
qed simp

lemma schedule_hash_folds:
  "hash_at (fold (a_reap1 mr q) js v) (scheduleKey sid) = hash_at v (scheduleKey sid)"
  "hash_at (fold (a_ack1 q) js v) (scheduleKey sid) = hash_at v (scheduleKey sid)"
proof -
  have "hash_at (a_reap1 mr q j w) (scheduleKey sid) = hash_at w (scheduleKey sid)"
    "hash_at (a_ack1 q j w) (scheduleKey sid) = hash_at w (scheduleKey sid)" for j w
    by (simp_all add: a_reap1_def a_bump_def a_ack1_def Let_def)
  then show "hash_at (fold (a_reap1 mr q) js v) (scheduleKey sid) = hash_at v (scheduleKey sid)"
    "hash_at (fold (a_ack1 q) js v) (scheduleKey sid) = hash_at v (scheduleKey sid)"
    by (induction js arbitrary: v) simp_all
qed

lemma schedule_hash_op:
  assumes "new_ids x = {}" and "\<forall>sid q spec p t nxt. x \<noteq> OpCreateSchedule sid q spec p t nxt"
    and "\<forall>sid. x \<noteq> OpDeleteSchedule sid"
  shows "hash_at (a_op c num x v) (scheduleKey sid) = hash_at v (scheduleKey sid)"
proof (cases x)
  case (OpFire now xs)
  then show ?thesis using assms(1) by (simp add: ids_of_quads_def)
qed (use assms in \<open>simp_all add: a_claim_def a_renew_def a_fail_def a_bump_def a_reap_def a_retry_def Let_def
  schedule_hash_folds hash_retries a_acquire_def a_renew_lock_def a_release_def a_elapse_def\<close>)

text \<open>The steps that bring no payload leave those of the jobs and schedules that stay.\<close>

lemma payloads_old:
  assumes inv: "job_inv mr v" and ok: "payloads_ok ok v" and new: "new_ids x = {}"
    and sched: "\<And>sid. hash_at (a_op c num x v) (scheduleKey sid) = hash_at v (scheduleKey sid)"
  shows "payloads_ok ok (a_op c num x v)"
proof -
  have "ok (payload_of (hash_at (a_op c num x v) (jobKey i)))" if "hash_at (a_op c num x v) (jobKey i) \<noteq> Map.empty" for i
  proof (cases "bumps c x v i")
    case True
    then have "hash_at v (jobKey i) \<noteq> Map.empty"
      using bumps_leased [OF inv True] live_state_not_None by (force simp: live_def)
    then have "ok (payload_of (hash_at v (jobKey i)))" using ok by (simp add: payloads_ok_def)
    then show ?thesis using True new by (simp add: hash_op bumped_def)
  next
    case False
    then show ?thesis using that new ok by (auto simp: hash_op payloads_ok_def split: if_splits)
  qed
  then show ?thesis using ok sched by (simp add: payloads_ok_def)
qed

lemma payloads_op:
  assumes inv: "job_inv mr v" and ok: "payloads_ok ok v" and new: "carries ok x"
  shows "payloads_ok ok (a_op c num x v)"
proof -
  note old = payloads_old [OF inv ok]
  show ?thesis
  proof (cases x)
    case (OpEnqueue j p q t i ttl)
    have "payloads_ok ok (upd_string k s v)" for k s using ok by (simp add: payloads_ok_def)
    then show ?thesis using OpEnqueue ok new payloads_enqueue
      by (auto simp: a_enqueue_req_def split: option.splits)
  next
    case (OpFire now xs)
    then show ?thesis using payloads_fire [OF ok] new by simp
  next
    case (OpCreateSchedule sid q spec p t nxt)
    then show ?thesis using ok new by (simp add: payloads_ok_def)
  next
    case (OpDeleteSchedule sid)
    then show ?thesis using ok by (simp add: payloads_ok_def)
  qed ((rule old, simp, rule schedule_hash_op, simp, simp, simp)+)
qed

subsection \<open>Any path of the system\<close>

text \<open>What the reads of an operation may rely on at each of its moments.\<close>

definition sound :: "(string \<Rightarrow> bool) \<Rightarrow> 'db redis \<Rightarrow> config \<Rightarrow> 'db \<Rightarrow> bool" where
  "sound ok R c d \<longleftrightarrow> job_inv (MaxRetries c) (view R d) \<and> payloads_ok ok (view R d)"

context redis_db
begin

lemma sound_step:
  assumes "config_ok c" and "sound ok R c d" and "cogs_step R c d x d'" and "carries ok x"
  shows "sound ok R c d'"
proof -
  have inv: "job_inv (MaxRetries c) (view R d)" and pay: "payloads_ok ok (view R d)"
    using assms(2) by (simp_all add: sound_def)
  have step: "astep c (r_lua_number R) (view R d) x (view R d')" by (rule step_refines [OF assms(3) inv assms(1)])
  have "job_inv (MaxRetries c) (view R d')" by (rule step_inv [OF assms(3) inv assms(1)])
  then show ?thesis using step payloads_op [OF inv pay assms(4)] by (simp add: sound_def astep_def)
qed

lemma sound_runs:
  "runs (cogs_step R c) d xs d' \<Longrightarrow> list_all (carries ok) xs \<Longrightarrow> config_ok c \<Longrightarrow> sound ok R c d \<Longrightarrow> sound ok R c d'"
  by (induction rule: runs.induct) (auto dest: sound_step)

lemma sound_reaches: "reaches_by ok R c d d' \<Longrightarrow> config_ok c \<Longrightarrow> sound ok R c d \<Longrightarrow> sound ok R c d'"
  using sound_runs by (auto simp: reaches_by_def)

end

subsection \<open>What is read back\<close>

context redis_db
begin

lemma hgetall_payload: "key_kind k = KHash \<Longrightarrow> field (r_hgetall R k d) ''payload'' = payload_of (hash_at (view R d) k)"
  by (simp add: field_def payload_of_def hgetall)

lemma sound_read:
  assumes "sound ok R c d" and "r_hgetall R k d \<noteq> []" and "k = jobKey i \<or> k = scheduleKey i"
  shows "ok (field (r_hgetall R k d) ''payload'')"
  using assms by (auto simp: hgetall_payload hgetall_empty sound_def payloads_ok_def)

lemma sound_claimed:
  assumes "sound ok R c d" and "j \<in> set (list_at (view R d) (pendingKey q))"
  shows "ok (Job_Payload (claimed_job (view R d) dl q j))"
proof -
  have "job_state (view R d) j = Some StatePending"
    using assms by (intro job_state_pending [of "MaxRetries c"]) (simp_all add: sound_def)
  then have "hash_at (view R d) (jobKey j) \<noteq> Map.empty" using live_state_not_None by (force simp: live_def)
  then show ?thesis using assms(1) by (simp add: sound_def payloads_ok_def claimed_job_def payload_of_def)
qed

lemma claim_queues_sound:
  "lawful_by ok R c turns \<Longrightarrow> config_ok c \<Longrightarrow> sound ok R c d \<Longrightarrow> \<forall>j \<in> set jobs. ok (Job_Payload j) \<Longrightarrow>
   claim_queues R batch dl qs jobs turns d = (Inr js, d') \<Longrightarrow> \<forall>j \<in> set js. ok (Job_Payload j)"
proof (induction qs arbitrary: jobs turns d)
  case (Cons q qs)
  let ?d0 = "snd (turns 0) d" and ?room = "batch - int (length jobs)"
  show ?case
  proof (cases "int (length jobs) \<ge> batch")
    case False
    have s0: "sound ok R c ?d0" by (rule sound_reaches [OF lawful_turn [OF Cons.prems(1)] Cons.prems(2,3)])
    obtain d1 where d1: "claimScript R (pendingKey q) (leasedKey q) ?room dl ?d0
        = (Inr (concat (map (claim_triple (view R ?d0)) (take (nat ?room) (rev (list_at (view R ?d0) (pendingKey q)))))), d1)"
      using claimScript_refines by blast
    have "reaches_by ok R c ?d0 d1"
      using reaches_op [of "OpClaim q ?room dl" R ?d0 ok c] d1 by simp
    then have s1: "sound ok R c d1" by (rule sound_reaches [OF _ Cons.prems(2) s0])
    let ?new = "map (claimed_job (view R ?d0) dl q) (take (nat ?room) (rev (list_at (view R ?d0) (pendingKey q))))"
    have new: "\<forall>j \<in> set (jobs @ ?new). ok (Job_Payload j)"
      using Cons.prems(4) sound_claimed [OF s0] by (auto dest!: in_set_takeD)
    have "fst (turns 0) = Delivered" using Cons.prems(5) False
      by (cases "fst (turns 0)") (simp_all add: split_beta split: sum.splits)
    then have "claim_queues R batch dl qs (jobs @ ?new) (next_turns turns) d1 = (Inr js, d')"
      using Cons.prems(5) False d1 by (simp add: parse_triples_claim)
    then show ?thesis by (rule Cons.IH [OF lawful_next [OF Cons.prems(1)] Cons.prems(2) s1 new])
  qed (use Cons.prems in simp)
qed simp

lemma Claim_sound:
  assumes "lawful_by ok R c turns" and "config_ok c" and "sound ok R c d"
    and "Claim R c now turns qs batch d = (Return (Inr js), d')"
  shows "\<forall>j \<in> set js. ok (Job_Payload j)"
  using claim_queues_sound [OF assms(1-3), of "[]"] assms(4)
  by (auto simp: Claim_def Let_def split: prod.splits if_splits)

lemma Job_sound: "sound ok R c d \<Longrightarrow> Job R net jid d = Inr j \<Longrightarrow> ok (Job_Payload j)"
  using sound_read [of ok c d "jobKey jid" jid]
  by (cases net) (auto simp: Job_def readtrip_def split: if_splits)

lemma list_entries_sound:
  "lawful_by ok R c turns \<Longrightarrow> config_ok c \<Longrightarrow> sound ok R c d \<Longrightarrow>
   \<forall>s \<in> set (fst (list_entries R turns es d)). ok (Sched_Payload s)"
proof (induction es arbitrary: turns d)
  case (Cons e es)
  obtain sid score where e: "e = (sid, score)" by (cases e)
  let ?d0 = "snd (turns 0) d"
  have s0: "sound ok R c ?d0" by (rule sound_reaches [OF lawful_turn [OF Cons.prems(1)] Cons.prems(2,3)])
  have rest: "\<forall>s \<in> set (fst (list_entries R (next_turns turns) es ?d0)). ok (Sched_Payload s)"
    by (rule Cons.IH [OF lawful_next [OF Cons.prems(1)] Cons.prems(2) s0])
  show ?case
  proof (cases "fst (turns 0)")
    case Delivered
    then show ?thesis using rest sound_read [OF s0, of "scheduleKey sid" sid]
      by (simp add: e Let_def split_beta readtrip_def)
  qed (use rest in \<open>simp_all add: e Let_def split_beta readtrip_def\<close>)
qed simp

lemma List_sound:
  assumes "lawful_by ok R c turns" and "config_ok c" and "sound ok R c d" and "List R net turns d = (Inr ss, d')"
  shows "\<forall>s \<in> set ss. ok (Sched_Payload s)"
  using list_entries_sound [OF assms(1-3)] assms(4) by (auto simp: List_def split: sum.splits prod.splits)
    (metis fst_conv)

end

lemma Create_payload: "Create R cron rnd now created net q spec p d = (Inr s, d') \<Longrightarrow> Sched_Payload s = (if p = '''' then ''null'' else p)"
  by (auto simp: Create_def Let_def split: sum.splits prod.splits)

subsection \<open>The scheduler's pass\<close>

text \<open>
  The turns between a pass's round trips are steps of the system, and the identifiers it draws are
  distinct and not in use when its script runs.
\<close>

definition lawful_pass ::
  "(string \<Rightarrow> bool) \<Rightarrow> 'db redis \<Rightarrow> config \<Rightarrow> cron \<Rightarrow> int \<Rightarrow> (nat \<Rightarrow> 'db fire_input) \<Rightarrow> net \<times> ('db \<Rightarrow> 'db) \<Rightarrow> 'db \<Rightarrow> bool" where
  "lawful_pass ok R c cron now inp turn d \<longleftrightarrow>
     lawful_by ok R c (\<lambda>i. fi_read (inp i)) \<and> lawful_by ok R c (\<lambda>i. fi_drop (inp i)) \<and> lawful_by ok R c (\<lambda>_. turn)
     \<and> (\<forall>args d1. pass_args R cron inp (r_zrangebyscore R schedulesKey now (due_limit c) d) [] d = (Inr args, d1) \<longrightarrow>
          distinct (map (fst \<circ> snd) args) \<and> ids_of_quads args \<inter> live (view R (snd turn d1)) = {})"

lemma drop_entry_reaches:
  assumes "\<And>d. reaches_by ok R c d (snd turn d)"
  shows "reaches_by ok R c d (drop_entry R turn sid d)"
proof -
  have "reaches_by ok R c (snd turn d)
      (snd (roundtrip (fst turn) (\<lambda>d. case r_zrem R schedulesKey sid d of (n, d') \<Rightarrow> (Inr n :: string + int, d')) (snd turn d)))"
    by (rule roundtrip_reaches [where x = "OpDropSchedule sid"]) (simp_all add: split_beta)
  then show ?thesis using assms [of d] unfolding drop_entry_def by (rule reaches_trans [rotated])
qed

context redis_db
begin

lemma pass_args_reaches:
  assumes "lawful_by ok R c (\<lambda>i. fi_read (inp i))" and "lawful_by ok R c (\<lambda>i. fi_drop (inp i))" and "config_ok c"
    and "sound ok R c d" and "\<forall>(sid, j, p, nx) \<in> set args. ok p"
    and "pass_args R cron inp due args d = (r, d')"
  shows "reaches_by ok R c d d' \<and> (\<forall>xs. r = Inr xs \<longrightarrow> (\<forall>(sid, j, p, nx) \<in> set xs. ok p))"
  using assms(1,2,4-6)
proof (induction due arbitrary: inp args d)
  case Nil
  then show ?case by auto
next
  case (Cons sid due)
  let ?d0 = "snd (fi_read (inp 0)) d" and ?drop = "drop_entry R (fi_drop (inp 0)) sid"
  have t: "reaches_by ok R c d ?d0" using lawful_turn [OF Cons.prems(1), of d 0] by simp
  have s0: "sound ok R c ?d0" by (rule sound_reaches [OF t assms(3) Cons.prems(3)])
  have "reaches_by ok R c ?d0 (?drop ?d0)"
    by (rule drop_entry_reaches) (use lawful_turn [OF Cons.prems(2), of _ 0] in simp)
  then have td: "reaches_by ok R c d (?drop ?d0)" by (rule reaches_trans [OF t])
  have sd: "sound ok R c (?drop ?d0)" by (rule sound_reaches [OF td assms(3) Cons.prems(3)])
  have nxt: "lawful_by ok R c (\<lambda>i. fi_read (inp (Suc i)))" "lawful_by ok R c (\<lambda>i. fi_drop (inp (Suc i)))"
    using lawful_next [OF Cons.prems(1)] lawful_next [OF Cons.prems(2)] by (simp_all add: next_turns_def)
  note IH = Cons.IH [OF nxt]
  let ?m = "r_hgetall R (scheduleKey sid) ?d0"
  consider (dropped) "pass_args R cron (\<lambda>i. inp (Suc i)) due args (?drop ?d0) = (r, d')"
    | (failed) e where "r = Inl e" "d' = ?d0"
    | (fires) jid nx where "?m \<noteq> []"
        "pass_args R cron (\<lambda>i. inp (Suc i)) due (args @ [(sid, jid, field ?m ''payload'', nx)]) ?d0 = (r, d')"
    using Cons.prems(5)
    by (cases "fst (fi_read (inp 0))") (auto simp: Let_def readtrip_def split: if_splits sum.splits)
  then show ?case
  proof cases
    case dropped
    then show ?thesis using IH [OF sd Cons.prems(4)] reaches_trans [OF td] by blast
  next
    case failed
    then show ?thesis using t by simp
  next
    case fires
    have "ok (field ?m ''payload'')" by (rule sound_read [OF s0 fires(1)]) simp
    then have "\<forall>(s, j, p, nx) \<in> set (args @ [(sid, jid, field ?m ''payload'', nx)]). ok p" using Cons.prems(4) by auto
    from IH [OF s0 this fires(2)] show ?thesis using reaches_trans [OF t] by blast
  qed
qed

lemma Pass_reaches:
  assumes "lawful_pass ok R c cron now inp turn d" and "config_ok c" and "sound ok R c d"
    and "Pass R c cron now net inp turn d = (err, reports, d')"
  shows "reaches_by ok R c d d'"
proof -
  let ?due = "r_zrangebyscore R schedulesKey now (due_limit c) d"
  obtain r d1 where r: "pass_args R cron inp ?due [] d = (r, d1)" by (rule prod.exhaust)
  have a: "reaches_by ok R c d d1" "\<And>xs. r = Inr xs \<Longrightarrow> \<forall>(sid, j, p, nx) \<in> set xs. ok p"
    using pass_args_reaches [OF _ _ assms(2,3) _ r] assms(1) by (auto simp: lawful_pass_def)
  have t: "reaches_by ok R c d (snd turn d1)"
    using assms(1) lawful_turn [of ok R c "\<lambda>_. turn" d1 0] by (auto simp: lawful_pass_def intro: reaches_trans [OF a(1)])
  have fired: "reaches_by ok R c d (snd (roundtrip (fst turn) (scheduleDrainScript R schedulesKey now xs) (snd turn d1)))"
    if "r = Inr xs" for xs
  proof (rule reaches_trans [OF t], rule roundtrip_reaches [where x = "OpFire now xs"])
    show "op_ok (OpFire now xs) (view R (snd turn d1))" using assms(1) r that by (simp add: lawful_pass_def)
    show "carries ok (OpFire now xs)" using a(2) [OF that] by simp
  qed simp
  show ?thesis using assms(4) r a(1) fired
    by (cases net; cases r) (auto simp: Pass_def readtrip_def split: if_splits sum.splits prod.splits)
qed

end

end
