(* ===== verification/Go_Json.thy ===== *)
theory Go_Json
  imports Go_Lib
begin

section \<open>JSON as encoding/json reads and writes it\<close>

text \<open>
  What the program uses of \<open>encoding/json\<close>, over texts (a \<open>string\<close> is a list of bytes). A value is
  scanned, not parsed into a tree: \<open>json_value\<close> returns what follows the value, as the library's
  scanner does, with the nesting it allows as a first argument; \<open>json_object\<close> and \<open>json_array\<close>
  give the texts of the members, from which the decoder of a struct takes its fields.
  \<open>json_string\<close> is the body of a string literal, unquoted, and \<open>enc_string\<close> the encoder, both with
  the library's treatment of bytes that are not UTF-8.
\<close>

abbreviation code :: "char \<Rightarrow> nat" where "code c \<equiv> of_char c"

subsection \<open>UTF-8\<close>

definition continuation :: "char \<Rightarrow> bool" where
  "continuation c \<longleftrightarrow> 128 \<le> code c \<and> code c \<le> 191"

text \<open>
  \<open>utf8.DecodeRune\<close>: the length of the sequence a first byte asks for, the range its second byte
  is in, and the length of the sequence at the front of a text, 0 when it is invalid.
\<close>

definition rune_need :: "char \<Rightarrow> nat" where
  "rune_need b =
     (if code b < 128 then 1
      else if 194 \<le> code b \<and> code b \<le> 223 then 2
      else if 224 \<le> code b \<and> code b \<le> 239 then 3
      else if 240 \<le> code b \<and> code b \<le> 244 then 4 else 0)"

definition second_ok :: "char \<Rightarrow> char \<Rightarrow> bool" where
  "second_ok b c \<longleftrightarrow> (code b = 224 \<longrightarrow> 160 \<le> code c) \<and> (code b = 237 \<longrightarrow> code c \<le> 159)
     \<and> (code b = 240 \<longrightarrow> 144 \<le> code c) \<and> (code b = 244 \<longrightarrow> code c \<le> 143)"

fun rune_len :: "string \<Rightarrow> nat" where
  "rune_len [] = 0"
| "rune_len (b # r) =
     (let n = rune_need b in
      if 0 < n \<and> n - 1 \<le> length r \<and> list_all continuation (take (n - 1) r) \<and> (1 < n \<longrightarrow> second_ok b (hd r))
      then n else 0)"

text \<open>\<open>utf8.AppendRune\<close>, for a rune that is a code point.\<close>

definition rune_bytes :: "nat \<Rightarrow> string" where
  "rune_bytes n =
     (if n < 128 then [char_of n]
      else if n < 2048 then [char_of (192 + n div 64), char_of (128 + n mod 64)]
      else if n < 65536 then [char_of (224 + n div 4096), char_of (128 + n div 64 mod 64), char_of (128 + n mod 64)]
      else [char_of (240 + n div 262144), char_of (128 + n div 4096 mod 64), char_of (128 + n div 64 mod 64),
            char_of (128 + n mod 64)])"

definition replacement :: string where
  "replacement = [CHR 0xEF, CHR 0xBF, CHR 0xBD]"

lemma rune_len_take:
  assumes "rune_len s = n" and "n \<noteq> 0"
  shows "rune_len (take n s @ t) = n"
proof (cases s)
  case (Cons b r)
  then have n: "n = rune_need b" "n - 1 \<le> length r" "list_all continuation (take (n - 1) r)"
    and ok: "1 < n \<longrightarrow> second_ok b (hd r)" using assms by (auto simp: Let_def split: if_splits)
  have "take n s = b # take (n - 1) r" using Cons assms(2) by (cases n) simp_all
  moreover have "take (n - 1) (take (n - 1) r @ t) = take (n - 1) r" using n(2) by simp
  moreover have "1 < n \<longrightarrow> hd (take (n - 1) r @ t) = hd r" using n(2) by (cases r) (auto simp: take_Cons')
  ultimately show ?thesis using n ok assms(2) by (simp add: Let_def)
qed (use assms in simp)

lemma rune_len_pos: "rune_len s \<noteq> 0 \<Longrightarrow> s \<noteq> []"
  by auto

lemma rune_len_ascii: "code c < 128 \<Longrightarrow> rune_len (c # s) = 1"
  by (simp add: rune_need_def)

declare rune_len.simps(2) [simp del]

function utf8 :: "string \<Rightarrow> bool" where
  "utf8 s \<longleftrightarrow> (if s = [] then True else if rune_len s = 0 then False else utf8 (drop (rune_len s) s))"
  by auto
termination by (relation "measure length") auto

declare utf8.simps [simp del]

lemma utf8_Nil [simp]: "utf8 []"
  by (simp add: utf8.simps)

text \<open>A text without a byte above 127 is UTF-8.\<close>

lemma utf8_ascii: "\<forall>c \<in> set s. code c < 128 \<Longrightarrow> utf8 s"
proof (induction s)
  case (Cons c s)
  then have "rune_len (c # s) = 1" by (simp add: rune_len_ascii)
  then show ?case using Cons by (subst utf8.simps) simp
qed simp

subsection \<open>String literals\<close>

definition hex_value :: "char \<Rightarrow> nat option" where
  "hex_value c =
     (let k = code c in
      if 48 \<le> k \<and> k \<le> 57 then Some (k - 48)
      else if 97 \<le> k \<and> k \<le> 102 then Some (k - 87)
      else if 65 \<le> k \<and> k \<le> 70 then Some (k - 55) else None)"

text \<open>The four hexadecimal digits after \<open>\u\<close>.\<close>

definition hex4 :: "string \<Rightarrow> (nat \<times> string) option" where
  "hex4 s =
     (case s of a # b # c # d # r \<Rightarrow>
        (case (hex_value a, hex_value b, hex_value c, hex_value d) of
           (Some w, Some x, Some y, Some z) \<Rightarrow> Some (w * 4096 + x * 256 + y * 16 + z, r)
         | _ \<Rightarrow> None)
      | _ \<Rightarrow> None)"

text \<open>
  The rune of a \<open>\u\<close> escape: a high surrogate takes the low one of the escape after it along, and
  a surrogate on its own is the replacement character.
\<close>

definition unicode_escape :: "string \<Rightarrow> (string \<times> string) option" where
  "unicode_escape s =
     (case hex4 s of
        None \<Rightarrow> None
      | Some (n, r) \<Rightarrow>
          if \<not> (55296 \<le> n \<and> n \<le> 57343) then Some (rune_bytes n, r)
          else (case (if take 2 r = [CHR 0x5C, CHR ''u''] then hex4 (drop 2 r) else None) of
              Some (m, r') \<Rightarrow>
                if n \<le> 56319 \<and> 56320 \<le> m \<and> m \<le> 57343
                then Some (rune_bytes ((n - 55296) * 1024 + (m - 56320) + 65536), r')
                else Some (replacement, r)
            | None \<Rightarrow> Some (replacement, r)))"

text \<open>What follows a backslash.\<close>

definition unescape :: "string \<Rightarrow> (string \<times> string) option" where
  "unescape s =
     (case s of [] \<Rightarrow> None
      | c # r \<Rightarrow>
          if c = CHR 0x22 \<or> c = CHR 0x5C \<or> c = CHR ''/'' then Some ([c], r)
          else if c = CHR ''b'' then Some ([CHR 0x08], r)
          else if c = CHR ''f'' then Some ([CHR 0x0C], r)
          else if c = CHR ''n'' then Some ([CHR 0x0A], r)
          else if c = CHR ''r'' then Some ([CHR 0x0D], r)
          else if c = CHR ''t'' then Some ([CHR 0x09], r)
          else if c = CHR ''u'' then unicode_escape r
          else None)"

lemma hex4_length: "hex4 s = Some (n, r) \<Longrightarrow> length r < length s"
  by (auto simp: hex4_def split: list.splits option.splits)

lemma unicode_escape_length: "unicode_escape s = Some (out, r) \<Longrightarrow> length r < length s"
  by (auto simp: unicode_escape_def split: option.splits if_splits dest!: hex4_length)

lemma unescape_length: "unescape s = Some (out, r) \<Longrightarrow> length r < length s"
  by (auto simp: unescape_def split: list.splits if_splits dest!: unicode_escape_length)

text \<open>
  The text after the opening quote: the string it denotes and what follows the closing quote. A
  control character is an error, a byte that is not UTF-8 the replacement character.
\<close>

function json_string :: "string \<Rightarrow> (string \<times> string) option" where
  "json_string s =
     (case s of [] \<Rightarrow> None
      | c # r \<Rightarrow>
          if c = CHR 0x22 then Some ([], r)
          else if c = CHR 0x5C then
            (case unescape r of
               None \<Rightarrow> None
             | Some (out, r') \<Rightarrow> map_option (\<lambda>(x, y). (out @ x, y)) (json_string r'))
          else if code c < 32 then None
          else if rune_len s = 0 then map_option (\<lambda>(x, y). (replacement @ x, y)) (json_string r)
          else map_option (\<lambda>(x, y). (take (rune_len s) s @ x, y)) (json_string (drop (rune_len s) s)))"
  by auto
termination by (relation "measure length") (auto dest: unescape_length)

declare json_string.simps [simp del]

text \<open>\<open>appendString\<close> with HTML escaping, which \<open>json.Marshal\<close> and a new \<open>Encoder\<close> have.\<close>

definition enc_char :: "char \<Rightarrow> string" where
  "enc_char c =
     (if c = CHR 0x22 \<or> c = CHR 0x5C then [CHR 0x5C, c]
      else if c = CHR 0x08 then [CHR 0x5C, CHR ''b'']
      else if c = CHR 0x0C then [CHR 0x5C, CHR ''f'']
      else if c = CHR 0x0A then [CHR 0x5C, CHR ''n'']
      else if c = CHR 0x0D then [CHR 0x5C, CHR ''r'']
      else if c = CHR 0x09 then [CHR 0x5C, CHR ''t'']
      else if code c < 32 \<or> c = CHR ''<'' \<or> c = CHR ''>'' \<or> c = CHR ''&''
      then [CHR 0x5C, CHR ''u'', CHR ''0'', CHR ''0'', hex_digit (code c div 16), hex_digit (code c mod 16)]
      else [c])"

definition line_separator :: "string \<Rightarrow> bool" where
  "line_separator s \<longleftrightarrow> take 3 s = [CHR 0xE2, CHR 0x80, CHR 0xA8] \<or> take 3 s = [CHR 0xE2, CHR 0x80, CHR 0xA9]"

definition enc_line_separator :: "string \<Rightarrow> string" where
  "enc_line_separator s = [CHR 0x5C] @ ''u202'' @ [hex_digit (code (s ! 2) mod 16)]"

function enc_chars :: "string \<Rightarrow> string" where
  "enc_chars s =
     (case s of [] \<Rightarrow> []
      | c # r \<Rightarrow>
          if code c < 128 then enc_char c @ enc_chars r
          else if rune_len s = 0 then [CHR 0x5C] @ ''ufffd'' @ enc_chars r
          else if line_separator s then enc_line_separator s @ enc_chars (drop 3 s)
          else take (rune_len s) s @ enc_chars (drop (rune_len s) s))"
  by auto
termination by (relation "measure length") auto

declare enc_chars.simps [simp del]

definition enc_string :: "string \<Rightarrow> string" where
  "enc_string s = CHR 0x22 # enc_chars s @ [CHR 0x22]"

subsection \<open>A string read back\<close>

lemma hex_value_digit: "n < 16 \<Longrightarrow> hex_value (hex_digit n) = Some n"
  by (auto simp: hex_value_def hex_digit_code Let_def)

lemma json_string_escape:
  "unescape (t @ u) = Some (out, u) \<Longrightarrow>
   json_string ((CHR 0x5C # t) @ u) = map_option (\<lambda>(x, y). (out @ x, y)) (json_string u)"
  by (subst json_string.simps) simp

lemma json_string_copy:
  assumes "rune_len s = n" and "n \<noteq> 0" and "\<forall>c \<in> {CHR 0x22, CHR 0x5C}. hd s \<noteq> c" and "32 \<le> code (hd s)"
  shows "json_string (take n s @ t) = map_option (\<lambda>(x, y). (take n s @ x, y)) (json_string t)"
proof -
  obtain c r where s: "s = c # r" using assms(1,2) by (cases s) auto
  have len: "rune_len (take n s @ t) = n" by (rule rune_len_take [OF assms(1,2)])
  have "n \<le> length s" using assms(1,2) s by (auto simp: rune_len.simps Let_def split: if_splits)
  then have td: "take n (take n s @ t) = take n s" "drop n (take n s @ t) = t" by simp_all
  obtain r' where cr: "take n s @ t = c # r'" using s assms(2) by (cases n) auto
  have "json_string (c # r') = map_option (\<lambda>(x, y). (take n (c # r') @ x, y)) (json_string (drop n (c # r')))"
    using len assms(2-4) s unfolding cr by (subst json_string.simps) simp
  then show ?thesis using td by (simp only: cr [symmetric])
qed

lemma json_string_enc_char:
  assumes "code c < 128"
  shows "json_string (enc_char c @ t) = map_option (\<lambda>(x, y). (c # x, y)) (json_string t)"
proof -
  have u: "unescape ([CHR ''u'', CHR ''0'', CHR ''0'', hex_digit (code c div 16), hex_digit (code c mod 16)] @ t) = Some ([c], t)"
  proof -
    have "hex_value CHR ''0'' = Some 0" by (simp add: hex_value_def)
    moreover have "code c div 16 < 16" using assms by simp
    moreover have "rune_bytes (code c) = [c]" using assms by (simp add: rune_bytes_def)
    ultimately show ?thesis using assms
      by (simp add: unescape_def unicode_escape_def hex4_def hex_value_digit)
  qed
  consider (esc) x where "enc_char c = [CHR 0x5C, x]" "\<And>t. unescape (x # t) = Some ([c], t)"
    | (uni) "enc_char c = [CHR 0x5C, CHR ''u'', CHR ''0'', CHR ''0'', hex_digit (code c div 16), hex_digit (code c mod 16)]"
    | (raw) "enc_char c = [c]" "c \<noteq> CHR 0x22" "c \<noteq> CHR 0x5C" "32 \<le> code c"
  proof (cases "c \<in> set [CHR 0x22, CHR 0x5C, CHR 0x08, CHR 0x0C, CHR 0x0A, CHR 0x0D, CHR 0x09]")
    case True
    then have "\<exists>x. enc_char c = [CHR 0x5C, x] \<and> (\<forall>t. unescape (x # t) = Some ([c], t))"
      by (auto simp: enc_char_def unescape_def)
    then show ?thesis using esc by blast
  next
    case False
    then show ?thesis using uni raw
      by (cases "code c < 32 \<or> c = CHR ''<'' \<or> c = CHR ''>'' \<or> c = CHR ''&''") (auto simp: enc_char_def)
  qed
  then show ?thesis
  proof cases
    case esc
    then show ?thesis using json_string_escape [of "[x]" t "[c]"] by simp
  next
    case uni
    then show ?thesis using json_string_escape [OF u] by simp
  next
    case raw
    then show ?thesis using json_string_copy [of "[c]" 1 t] assms by (simp add: rune_len_ascii)
  qed
qed

lemma line_separator_rune:
  assumes "line_separator s"
  shows "rune_len s = 3" and "json_string (enc_line_separator s @ t) = map_option (\<lambda>(x, y). (take 3 s @ x, y)) (json_string t)"
proof -
  obtain e r where s: "s = CHR 0xE2 # CHR 0x80 # e # r" and e: "e = CHR 0xA8 \<or> e = CHR 0xA9"
    using assms by (cases s; cases "tl s"; cases "tl (tl s)") (auto simp: line_separator_def)
  show "rune_len s = 3" using e unfolding s
    by (auto simp: rune_len.simps Let_def rune_need_def continuation_def second_ok_def)
  have two: "hex_value CHR ''2'' = Some 2" and zero: "hex_value CHR ''0'' = Some 0"
    by (simp_all add: hex_value_def)
  have "unescape ((''u202'' @ [hex_digit (code e mod 16)]) @ t) = Some ([CHR 0xE2, CHR 0x80, e], t)"
    using e by (auto simp: unescape_def unicode_escape_def hex4_def hex_value_digit two zero rune_bytes_def char_of_def bit_Suc_0_iff)
  from json_string_escape [OF this]
  show "json_string (enc_line_separator s @ t) = map_option (\<lambda>(x, y). (take 3 s @ x, y)) (json_string t)"
    using s by (simp add: enc_line_separator_def)
qed

lemma map_pair_option: "map_option (\<lambda>(x, y). (a @ x, y)) (Some (b, r)) = Some (a @ b, r)"
  by simp

lemma json_string_enc_chars: "utf8 s \<Longrightarrow> json_string (enc_chars s @ CHR 0x22 # rest) = Some (s, rest)"
proof (induction s rule: enc_chars.induct)
  case (1 s)
  show ?case
  proof (cases s)
    case Nil
    then show ?thesis by (simp add: enc_chars.simps json_string.simps)
  next
    case (Cons c r)
    let ?n = "rune_len s"
    have n: "?n \<noteq> 0" and rest: "utf8 (drop ?n s)"
      using 1(5) Cons unfolding utf8.simps [of s] by (simp_all split: if_splits)
    show ?thesis
    proof (cases "code c < 128")
      case True
      then have "utf8 r" using rest Cons by (simp add: rune_len_ascii)
      moreover have "enc_chars s = enc_char c @ enc_chars r" using True Cons by (subst enc_chars.simps) simp
      ultimately show ?thesis using 1(1) [OF Cons True] True Cons by (simp add: json_string_enc_char)
    next
      case False
      show ?thesis
      proof (cases "line_separator s")
        case True
        then have "json_string (enc_chars (drop 3 s) @ CHR 0x22 # rest) = Some (drop 3 s, rest)"
          using 1(3) [OF Cons False n] rest line_separator_rune(1) by simp
        moreover have "enc_chars s = enc_line_separator s @ enc_chars (drop 3 s)"
          using True False n Cons by (subst enc_chars.simps) simp
        ultimately show ?thesis using line_separator_rune(2) [OF True] by simp
      next
        case sep: False
        have "json_string (enc_chars (drop ?n s) @ CHR 0x22 # rest) = Some (drop ?n s, rest)"
          using 1(4) [OF Cons False n sep] rest by simp
        moreover have "hd s \<noteq> CHR 0x22 \<and> hd s \<noteq> CHR 0x5C \<and> 32 \<le> code (hd s)" using False Cons by auto
        moreover have "enc_chars s = take ?n s @ enc_chars (drop ?n s)"
          using sep False n Cons by (subst enc_chars.simps) simp
        ultimately show ?thesis using json_string_copy [OF refl n, of "enc_chars (drop ?n s) @ CHR 0x22 # rest"]
          by simp
      qed
    qed
  qed
qed

subsection \<open>Values\<close>

definition json_space :: "char \<Rightarrow> bool" where
  "json_space c \<longleftrightarrow> c = CHR 0x20 \<or> c = CHR 0x09 \<or> c = CHR 0x0A \<or> c = CHR 0x0D"

definition skip_space :: "string \<Rightarrow> string" where
  "skip_space s = dropWhile json_space s"

definition json_digit :: "char \<Rightarrow> bool" where
  "json_digit c \<longleftrightarrow> 48 \<le> code c \<and> code c \<le> 57"

text \<open>The grammar of numbers, a piece at a time: what follows the longest number at the front.\<close>

definition some_digits :: "string \<Rightarrow> string option" where
  "some_digits s = (case s of [] \<Rightarrow> None | c # r \<Rightarrow> if json_digit c then Some (dropWhile json_digit r) else None)"

definition json_fraction :: "string \<Rightarrow> string option" where
  "json_fraction s = (case s of [] \<Rightarrow> Some [] | c # r \<Rightarrow> if c = CHR ''.'' then some_digits r else Some s)"

definition json_exponent :: "string \<Rightarrow> string option" where
  "json_exponent s =
     (case s of [] \<Rightarrow> Some []
      | c # r \<Rightarrow>
          if c = CHR ''e'' \<or> c = CHR ''E''
          then some_digits (if r \<noteq> [] \<and> (hd r = CHR ''+'' \<or> hd r = CHR ''-'') then tl r else r)
          else Some s)"

definition json_number :: "string \<Rightarrow> string option" where
  "json_number s =
     (case (if s \<noteq> [] \<and> hd s = CHR ''-'' then tl s else s) of [] \<Rightarrow> None
      | c # r \<Rightarrow>
          if \<not> json_digit c then None
          else (case json_fraction (if c = CHR ''0'' then r else dropWhile json_digit r) of
              None \<Rightarrow> None
            | Some s' \<Rightarrow> json_exponent s'))"

definition json_scalar :: "string \<Rightarrow> string option" where
  "json_scalar s =
     (case s of [] \<Rightarrow> None
      | c # r \<Rightarrow>
          if c = CHR 0x22 then map_option snd (json_string r)
          else if c = CHR ''-'' \<or> json_digit c then json_number s
          else if take 4 s = ''true'' \<or> take 4 s = ''null'' then Some (drop 4 s)
          else if take 5 s = ''false'' then Some (drop 5 s)
          else None)"

text \<open>
  The members of an object after its brace or a comma, each with the text of its value, and the
  elements of an array. \<open>p\<close> scans a value. (A member's end lies behind its start, so the guard of
  the recursion always holds.)
\<close>

definition before :: "string \<Rightarrow> string \<Rightarrow> string" where
  "before s rest = take (length s - length rest) s"

function json_members :: "(string \<Rightarrow> string option) \<Rightarrow> string \<Rightarrow> ((string \<times> string) list \<times> string) option" where
  "json_members p s =
     (case skip_space s of [] \<Rightarrow> None
      | c # r \<Rightarrow>
          if c \<noteq> CHR 0x22 then None
          else (case json_string r of
              None \<Rightarrow> None
            | Some (k, s2) \<Rightarrow>
                if skip_space s2 = [] \<or> hd (skip_space s2) \<noteq> CHR '':'' then None
                else let s4 = skip_space (tl (skip_space s2)) in
                  (case p s4 of
                     None \<Rightarrow> None
                   | Some s5 \<Rightarrow>
                       (case skip_space s5 of [] \<Rightarrow> None
                        | e # s6 \<Rightarrow>
                            if e = CHR ''}'' then Some ([(k, before s4 s5)], s6)
                            else if e = CHR '','' \<and> length s6 < length s
                            then map_option (\<lambda>(ms, y). ((k, before s4 s5) # ms, y)) (json_members p s6)
                            else None))))"
  by auto
termination by (relation "measure (length \<circ> snd)") auto

function json_elements :: "(string \<Rightarrow> string option) \<Rightarrow> string \<Rightarrow> (string list \<times> string) option" where
  "json_elements p s =
     (case p (skip_space s) of
        None \<Rightarrow> None
      | Some s5 \<Rightarrow>
          (case skip_space s5 of [] \<Rightarrow> None
           | e # s6 \<Rightarrow>
               if e = CHR '']'' then Some ([before (skip_space s) s5], s6)
               else if e = CHR '','' \<and> length s6 < length s
               then map_option (\<lambda>(ts, y). (before (skip_space s) s5 # ts, y)) (json_elements p s6)
               else None))"
  by auto
termination by (relation "measure (length \<circ> snd)") auto

declare json_members.simps [simp del] json_elements.simps [simp del]

definition json_object :: "(string \<Rightarrow> string option) \<Rightarrow> string \<Rightarrow> ((string \<times> string) list \<times> string) option" where
  "json_object p s =
     (if skip_space s \<noteq> [] \<and> hd (skip_space s) = CHR ''}'' then Some ([], tl (skip_space s)) else json_members p s)"

definition json_array :: "(string \<Rightarrow> string option) \<Rightarrow> string \<Rightarrow> (string list \<times> string) option" where
  "json_array p s =
     (if skip_space s \<noteq> [] \<and> hd (skip_space s) = CHR '']'' then Some ([], tl (skip_space s)) else json_elements p s)"

primrec json_value :: "nat \<Rightarrow> string \<Rightarrow> string option" where
  "json_value 0 s = json_scalar s"
| "json_value (Suc n) s =
     (if s \<noteq> [] \<and> hd s = CHR ''{'' then map_option snd (json_object (json_value n) (tl s))
      else if s \<noteq> [] \<and> hd s = CHR ''['' then map_option snd (json_array (json_value n) (tl s))
      else json_scalar s)"

text \<open>The nesting the library's scanner allows.\<close>

definition maxNestingDepth :: nat where
  "maxNestingDepth = 10000"

subsection \<open>The encoder's values, read back\<close>

fun join_commas :: "string list \<Rightarrow> string" where
  "join_commas [] = []"
| "join_commas [t] = t"
| "join_commas (t # ts) = t @ CHR '','' # join_commas ts"

definition enc_array :: "string list \<Rightarrow> string" where
  "enc_array ts = CHR ''['' # join_commas ts @ [CHR '']'']"

definition enc_member :: "string \<times> string \<Rightarrow> string" where
  "enc_member m = enc_string (fst m) @ CHR '':'' # snd m"

definition enc_object :: "(string \<times> string) list \<Rightarrow> string" where
  "enc_object ms = CHR ''{'' # join_commas (map enc_member ms) @ [CHR ''}'']"

text \<open>
  A text that scans as one value wherever a comma or a closing bracket follows, within a nesting of
  \<open>n\<close>.
\<close>

definition closes :: "string \<Rightarrow> bool" where
  "closes rest \<longleftrightarrow> rest \<noteq> [] \<and> hd rest \<in> {CHR '','', CHR ''}'', CHR '']''}"

definition json_token :: "nat \<Rightarrow> string \<Rightarrow> bool" where
  "json_token n t \<longleftrightarrow> t \<noteq> [] \<and> \<not> json_space (hd t) \<and> hd t \<noteq> CHR '']''
     \<and> (\<forall>rest. closes rest \<longrightarrow> json_value n (t @ rest) = Some rest)"

lemma json_tokenD: "json_token n t \<Longrightarrow> closes rest \<Longrightarrow> json_value n (t @ rest) = Some rest"
  by (simp add: json_token_def)

lemma skip_space_id: "s = [] \<or> \<not> json_space (hd s) \<Longrightarrow> skip_space s = s"
  by (cases s) (auto simp: skip_space_def)

lemma skip_space_token: "json_token n t \<Longrightarrow> skip_space (t @ rest) = t @ rest"
  by (rule skip_space_id) (simp add: json_token_def)

lemma closes_no_space: "closes rest \<Longrightarrow> skip_space rest = rest"
  by (rule skip_space_id) (auto simp: closes_def json_space_def)

lemma before_append [simp]: "before (t @ rest) rest = t"
  by (simp add: before_def)

lemma json_value_scalar: "hd s \<noteq> CHR ''{'' \<Longrightarrow> hd s \<noteq> CHR ''['' \<Longrightarrow> json_value n s = json_scalar s"
  by (cases n) simp_all

lemma token_string: "utf8 s \<Longrightarrow> json_token n (enc_string s)"
  by (simp add: json_token_def enc_string_def json_value_scalar json_scalar_def json_string_enc_chars json_space_def)

lemma token_null: "json_token n ''null''"
  by (simp add: json_token_def json_value_scalar json_scalar_def json_space_def json_digit_def)

lemma token_true: "json_token n ''true''"
  by (simp add: json_token_def json_value_scalar json_scalar_def json_space_def json_digit_def)

lemma token_false: "json_token n ''false''"
  by (simp add: json_token_def json_value_scalar json_scalar_def json_space_def json_digit_def)

text \<open>Numbers: \<open>itoa\<close> writes no leading zero.\<close>

lemma digit_char: "d < 10 \<Longrightarrow> json_digit (char_of (48 + d :: nat))"
  by (simp add: json_digit_def)

lemma nat_digits_json: "list_all json_digit (nat_digits n)"
proof (induction n rule: nat_digits.induct)
  case (1 n)
  then show ?case by (simp add: nat_digits.simps [of n] digit_char)
qed

lemma nat_digits_nonzero: "0 < n \<Longrightarrow> \<exists>c r. nat_digits n = c # r \<and> c \<noteq> CHR ''0''"
proof (induction n rule: nat_digits.induct)
  case (1 n)
  show ?case
  proof (cases "n < 10")
    case True
    have "code (char_of (48 + n) :: char) = 48 + n" using True by (rule of_char_digit)
    then have "(char_of (48 + n) :: char) \<noteq> CHR ''0''" using "1.prems" by force
    then show ?thesis using True by (simp add: nat_digits.simps [of n])
  next
    case False
    then have "0 < n div 10" by (simp add: div_greater_zero_iff)
    then show ?thesis using False "1.IH" by (auto simp: nat_digits.simps [of n])
  qed
qed

lemma no_digit_after: "closes rest \<Longrightarrow> dropWhile json_digit rest = rest"
  by (cases rest) (auto simp: closes_def json_digit_def)

lemma number_end: "closes rest \<Longrightarrow> json_fraction rest = Some rest" "closes rest \<Longrightarrow> json_exponent rest = Some rest"
  by (auto simp: json_fraction_def json_exponent_def closes_def split: list.splits)

lemma json_number_nat:
  assumes "closes rest"
  shows "json_number (nat_digits n @ rest) = Some rest" and "json_number (CHR ''-'' # nat_digits n @ rest) = Some rest"
proof -
  obtain d cs where d: "d < 10" "nat_digits n = char_of (48 + d :: nat) # cs" using nat_digits_hd by blast
  have all: "\<forall>c \<in> set cs. json_digit c" using nat_digits_json [of n] d by (simp add: list_all_iff)
  have zero: "cs = []" if "char_of (48 + d) = CHR ''0''"
  proof (cases "n = 0")
    case True
    then show ?thesis using d by (simp add: nat_digits.simps [of 0])
  next
    case False
    then show ?thesis using nat_digits_nonzero [of n] d that by auto
  qed
  have drop: "dropWhile json_digit (cs @ rest) = rest" using all no_digit_after [OF assms]
    by (simp add: dropWhile_append2)
  show "json_number (nat_digits n @ rest) = Some rest" "json_number (CHR ''-'' # nat_digits n @ rest) = Some rest"
    using d digit_not_sign [OF d(1)] digit_char [OF d(1)] drop zero number_end [OF assms]
    by (auto simp: json_number_def)
qed

lemma token_int: "json_token n (itoa i)"
proof -
  obtain d cs where d: "d < 10" "nat_digits (nat i) = char_of (48 + d :: nat) # cs" using nat_digits_hd by blast
  have dig: "json_digit (char_of (48 + d))" by (rule digit_char [OF d(1)])
  have other: "\<not> json_space c \<and> c \<noteq> CHR ''{'' \<and> c \<noteq> CHR ''['' \<and> c \<noteq> CHR '']'' \<and> c \<noteq> CHR 0x22" if "json_digit c" for c
    using that by (auto simp: json_digit_def json_space_def)
  show ?thesis
  proof (cases "i < 0")
    case True
    then show ?thesis using json_number_nat(2)
      by (simp add: json_token_def itoa_def json_space_def json_value_scalar json_scalar_def)
  next
    case False
    have "json_value n (itoa i @ rest) = Some rest" if "closes rest" for rest
      using json_number_nat(1) [OF that, of "nat i"] False d dig other [OF dig]
      by (simp add: itoa_def json_value_scalar json_scalar_def)
    then show ?thesis using False d other [OF dig] by (simp add: json_token_def itoa_def)
  qed
qed

text \<open>Arrays and objects of tokens.\<close>

lemma json_elements_enc:
  "ts \<noteq> [] \<Longrightarrow> \<forall>t \<in> set ts. json_token n t \<Longrightarrow>
   json_elements (json_value n) (join_commas ts @ CHR '']'' # rest) = Some (ts, rest)"
proof (induction ts rule: join_commas.induct)
  case (2 t)
  have c: "closes (CHR '']'' # rest)" by (simp add: closes_def)
  show ?case using 2 json_tokenD [OF _ c] skip_space_token closes_no_space [OF c]
    by (subst json_elements.simps) simp
next
  case (3 t t' ts)
  let ?rest = "CHR '','' # join_commas (t' # ts) @ CHR '']'' # rest"
  have c: "closes ?rest" by (simp add: closes_def)
  have t: "json_token n t" using 3 by simp
  show ?case using 3 json_tokenD [OF t c] skip_space_token [OF t] closes_no_space [OF c]
    by (subst json_elements.simps) simp
qed simp

lemma json_members_enc:
  "ms \<noteq> [] \<Longrightarrow> \<forall>m \<in> set ms. utf8 (fst m) \<and> json_token n (snd m) \<Longrightarrow>
   json_members (json_value n) (join_commas (map enc_member ms) @ CHR ''}'' # rest) = Some (ms, rest)"
proof (induction ms)
  case (Cons m ms)
  obtain k t where m: "m = (k, t)" by (cases m)
  have k: "utf8 k" and t: "json_token n t" using Cons.prems m by simp_all
  define tail where "tail = (if ms = [] then CHR ''}'' # rest else CHR '','' # join_commas (map enc_member ms) @ CHR ''}'' # rest)"
  have c: "closes tail" by (simp add: tail_def closes_def)
  have split: "join_commas (map enc_member (m # ms)) @ CHR ''}'' # rest
      = CHR 0x22 # enc_chars k @ CHR 0x22 # CHR '':'' # t @ tail"
    using m by (cases ms) (simp_all add: tail_def enc_member_def enc_string_def)
  have quote: "skip_space (CHR 0x22 # s) = CHR 0x22 # s" "skip_space (CHR '':'' # s) = CHR '':'' # s" for s
    by (simp_all add: skip_space_def json_space_def)
  show ?case
  proof (cases "ms = []")
    case True
    then show ?thesis unfolding split
      by (subst json_members.simps)
        (simp add: quote json_string_enc_chars [OF k] skip_space_token [OF t] json_tokenD [OF t c] closes_no_space [OF c] m,
         simp add: tail_def)
  next
    case False
    then have IH: "json_members (json_value n) (join_commas (map enc_member ms) @ CHR ''}'' # rest) = Some (ms, rest)"
      using Cons by simp
    show ?thesis using False unfolding split
      by (subst json_members.simps)
        (simp add: quote json_string_enc_chars [OF k] skip_space_token [OF t] json_tokenD [OF t c] closes_no_space [OF c] m,
         simp add: tail_def IH)
  qed
qed simp

lemma skip_space_bracket: "skip_space (CHR '']'' # s) = CHR '']'' # s" "skip_space (CHR ''}'' # s) = CHR ''}'' # s"
  by (simp_all add: skip_space_def json_space_def)

lemma json_array_enc:
  assumes "\<forall>t \<in> set ts. json_token n t"
  shows "json_array (json_value n) (join_commas ts @ CHR '']'' # rest) = Some (ts, rest)"
proof (cases "ts = []")
  case False
  then obtain t where "t \<in> set ts" and t: "\<exists>x. join_commas ts = t @ x"
    by (cases ts rule: join_commas.cases) auto
  then have "json_token n t" using assms by simp
  then have "skip_space (join_commas ts @ CHR '']'' # rest) = join_commas ts @ CHR '']'' # rest"
    and "hd (join_commas ts @ CHR '']'' # rest) \<noteq> CHR '']''"
    using t skip_space_token by (auto simp: json_token_def)
  then show ?thesis using json_elements_enc [OF False assms] by (simp add: json_array_def)
qed (simp add: json_array_def skip_space_bracket)

lemma json_object_enc:
  assumes "\<forall>m \<in> set ms. utf8 (fst m) \<and> json_token n (snd m)"
  shows "json_object (json_value n) (join_commas (map enc_member ms) @ CHR ''}'' # rest) = Some (ms, rest)"
proof (cases ms)
  case (Cons m ms')
  then obtain x where x: "join_commas (map enc_member ms) = CHR 0x22 # x"
    by (cases ms') (simp_all add: enc_member_def enc_string_def)
  have "ms \<noteq> []" using Cons by simp
  then show ?thesis using json_members_enc [OF _ assms, of rest] unfolding x
    by (simp add: json_object_def skip_space_def json_space_def)
qed (simp add: json_object_def skip_space_bracket)

lemma token_array: "\<forall>t \<in> set ts. json_token n t \<Longrightarrow> json_token (Suc n) (enc_array ts)"
  by (simp add: json_token_def enc_array_def json_array_enc json_space_def)

lemma token_object:
  "\<forall>m \<in> set ms. utf8 (fst m) \<and> json_token n (snd m) \<Longrightarrow> json_token (Suc n) (enc_object ms)"
  by (simp add: json_token_def enc_object_def json_object_enc json_space_def)

text \<open>Brackets nested \<open>n\<close> deep are a value exactly within that nesting.\<close>

definition deep :: "nat \<Rightarrow> string" where
  "deep n = replicate n (CHR ''['') @ replicate n (CHR '']'')"

lemma deep_Suc: "deep (Suc n) = CHR ''['' # deep n @ [CHR '']'']"
  by (simp add: deep_def replicate_append_same)

lemma json_value_deep:
  assumes "0 < n"
  shows "json_value d (deep n @ rest) = (if n \<le> d then Some rest else None)"
  using assms
proof (induction d arbitrary: n rest)
  case 0
  then show ?case by (cases n) (simp_all add: deep_def json_scalar_def json_digit_def)
next
  case (Suc d)
  obtain m where n: "n = Suc m" using Suc.prems by (cases n) auto
  show ?case
  proof (cases m)
    case 0
    then show ?thesis using n by (simp add: deep_def json_array_def skip_space_bracket)
  next
    case (Suc k)
    then have m: "0 < m" by simp
    have sp: "skip_space (deep m @ x) = deep m @ x" for x
      using Suc by (simp add: deep_def skip_space_def json_space_def)
    have hd: "hd (deep m @ x) = CHR ''[''" for x using Suc by (simp add: deep_def)
    have "json_array (json_value d) (deep m @ CHR '']'' # rest) = json_elements (json_value d) (deep m @ CHR '']'' # rest)"
      by (simp add: json_array_def sp hd)
    also have "\<dots> = (if m \<le> d then Some ([deep m], rest) else None)"
      using Suc.IH [OF m, of "CHR '']'' # rest"] by (subst json_elements.simps) (simp add: sp skip_space_bracket)
    finally show ?thesis using n by (simp add: deep_Suc)
  qed
qed

lemma token_deep: "0 < n \<Longrightarrow> json_token n (deep n)"
proof -
  assume n: "0 < n"
  then have "deep n \<noteq> [] \<and> hd (deep n) = CHR ''[''" by (simp add: deep_def)
  then show ?thesis using json_value_deep [OF n, of n] by (simp add: json_token_def json_space_def)
qed

text \<open>
  Scanning leaves less than it was given, so the guard of \<open>json_members\<close> and \<open>json_elements\<close>
  never stops them.
\<close>

lemma skip_space_length: "length (skip_space s) \<le> length s"
  by (simp add: skip_space_def length_dropWhile_le)

lemma json_string_shorter: "json_string s = Some (x, y) \<Longrightarrow> length y < length s"
proof (induction s arbitrary: x rule: json_string.induct)
  case (1 s)
  show ?case
  proof (cases s)
    case (Cons c r)
    consider "c = CHR 0x22" | "c = CHR 0x5C" | "c \<noteq> CHR 0x22" "c \<noteq> CHR 0x5C" by blast
    then show ?thesis
    proof cases
      case 1
      then have "json_string s = Some ([], r)" using Cons by (subst json_string.simps) simp
      then show ?thesis using "1.prems" Cons by simp
    next
      case 2
      then obtain out r' x' where u: "unescape r = Some (out, r')" and j: "json_string r' = Some (x', y)"
        using "1.prems" [unfolded json_string.simps [of s]] Cons by (auto split: option.splits)
      have "length y < length r'" using "1.IH"(1) [OF Cons _ _ u refl j] 2 by simp
      then show ?thesis using unescape_length [OF u] Cons by simp
    next
      case 3
      then show ?thesis
        using "1.prems" [unfolded json_string.simps [of s]] Cons "1.IH"(2) [OF Cons 3] "1.IH"(3) [OF Cons 3]
        by (auto split: if_splits)
    qed
  qed (use "1.prems" in \<open>simp add: json_string.simps\<close>)
qed

lemma dropWhile_shorter: "length (dropWhile P s) < Suc (length s)"
  by (simp add: length_dropWhile_le le_imp_less_Suc)

lemma some_digits_shorter: "some_digits s = Some r \<Longrightarrow> length r < length s"
  by (auto simp: some_digits_def dropWhile_shorter split: list.splits if_splits)

lemma json_fraction_length: "json_fraction s = Some r \<Longrightarrow> length r \<le> length s"
  by (auto simp: json_fraction_def split: list.splits if_splits dest!: some_digits_shorter)

lemma json_exponent_length: "json_exponent s = Some r \<Longrightarrow> length r \<le> length s"
  by (auto simp: json_exponent_def split: list.splits if_splits dest!: some_digits_shorter)

lemma json_number_shorter: "json_number s = Some r \<Longrightarrow> length r < length s"
proof -
  assume "json_number s = Some r"
  then obtain c t u where s: "(if s \<noteq> [] \<and> hd s = CHR ''-'' then tl s else s) = c # t"
    and f: "json_fraction (if c = CHR ''0'' then t else dropWhile json_digit t) = Some u" and e: "json_exponent u = Some r"
    by (auto simp: json_number_def split: list.splits if_splits option.splits)
  have "length (c # t) \<le> length s" using s by (cases s) (auto split: if_splits)
  moreover have "length u \<le> length t"
    using json_fraction_length [OF f] length_dropWhile_le [of json_digit t] by (auto split: if_splits)
  ultimately show ?thesis using json_exponent_length [OF e] by simp
qed

lemma json_scalar_shorter: "json_scalar s = Some r \<Longrightarrow> length r < length s"
  by (auto simp: json_scalar_def split: list.splits if_splits dest: json_string_shorter json_number_shorter)

lemma skip_space_Cons: "skip_space s = c # r \<Longrightarrow> length r < length s"
  using skip_space_length [of s] by simp

lemma json_members_shorter:
  assumes p: "\<And>s r. p s = Some r \<Longrightarrow> length r < length s"
  shows "json_members p s = Some (ms, r) \<Longrightarrow> length r < length s"
proof (induction "length s" arbitrary: s ms rule: less_induct)
  case less
  from less.prems [unfolded json_members.simps [of p s]]
  obtain c t k s2 s5 e s6 where s: "skip_space s = c # t" "json_string t = Some (k, s2)"
    "skip_space s2 \<noteq> []" "p (skip_space (tl (skip_space s2))) = Some s5" "skip_space s5 = e # s6"
    and rest: "r = s6 \<or> length s6 < length s \<and> (\<exists>ms'. json_members p s6 = Some (ms', r))"
    by (auto simp: Let_def split: list.splits if_splits option.splits prod.splits)
  have "length s6 < length s5" by (rule skip_space_Cons [OF s(5)])
  also have "length s5 < length (skip_space (tl (skip_space s2)))" by (rule p [OF s(4)])
  also have "\<dots> \<le> length (tl (skip_space s2))" by (rule skip_space_length)
  also have "\<dots> \<le> length s2" using skip_space_length [of s2] by simp
  also have "length s2 < length t" by (rule json_string_shorter [OF s(2)])
  also have "length t < length s" by (rule skip_space_Cons [OF s(1)])
  finally show ?case using rest less.hyps by (auto intro: less_trans)
qed

lemma json_elements_shorter:
  assumes p: "\<And>s r. p s = Some r \<Longrightarrow> length r < length s"
  shows "json_elements p s = Some (ts, r) \<Longrightarrow> length r < length s"
proof (induction "length s" arbitrary: s ts rule: less_induct)
  case less
  from less.prems [unfolded json_elements.simps [of p s]]
  obtain s5 e s6 where s: "p (skip_space s) = Some s5" "skip_space s5 = e # s6"
    and rest: "r = s6 \<or> length s6 < length s \<and> (\<exists>ts'. json_elements p s6 = Some (ts', r))"
    by (auto split: list.splits if_splits option.splits prod.splits)
  have "length s6 < length s5" by (rule skip_space_Cons [OF s(2)])
  also have "length s5 < length (skip_space s)" by (rule p [OF s(1)])
  also have "\<dots> \<le> length s" by (rule skip_space_length)
  finally show ?case using rest less.hyps by (auto intro: less_trans)
qed

lemma json_object_length:
  assumes "\<And>s r. p s = Some r \<Longrightarrow> length r < length s" and "json_object p s = Some (ms, r)"
  shows "length r \<le> length s"
  using json_members_shorter [where p = p, OF assms(1), of s ms r] assms(2) skip_space_length [of s]
  by (cases "skip_space s") (auto simp: json_object_def intro: less_imp_le split: if_splits)

lemma json_array_length:
  assumes "\<And>s r. p s = Some r \<Longrightarrow> length r < length s" and "json_array p s = Some (ts, r)"
  shows "length r \<le> length s"
  using json_elements_shorter [where p = p, OF assms(1), of s ts r] assms(2) skip_space_length [of s]
  by (cases "skip_space s") (auto simp: json_array_def intro: less_imp_le split: if_splits)

lemma json_value_shorter: "json_value n s = Some r \<Longrightarrow> length r < length s"
proof (induction n arbitrary: s r)
  case (Suc n)
  have inner: "length y < length s"
    if "s \<noteq> []" and "json_object (json_value n) (tl s) = Some (x, y) \<or> json_array (json_value n) (tl s) = Some (z, y)" for x y z
  proof -
    have "length y \<le> length (tl s)"
      using that(2) json_object_length [where p = "json_value n", OF Suc.IH] json_array_length [where p = "json_value n", OF Suc.IH]
      by blast
    then show ?thesis using that(1) by (cases s) auto
  qed
  consider "s \<noteq> []" "map_option snd (json_object (json_value n) (tl s)) = Some r"
    | "s \<noteq> []" "map_option snd (json_array (json_value n) (tl s)) = Some r" | "json_scalar s = Some r"
    using Suc.prems by (simp split: if_splits)
  then show ?case
  proof cases
    case 1
    then show ?thesis using inner by auto
  next
    case 2
    then show ?thesis using inner by auto
  qed (rule json_scalar_shorter)
qed (simp add: json_scalar_shorter)

subsection \<open>Raw messages\<close>

text \<open>
  A \<open>RawMessage\<close> is marshalled by compacting it: space outside strings goes, and the characters
  that HTML escaping concerns are escaped (\<open>appendCompact\<close>); a text that is not one JSON value is
  an error.
\<close>

function compact :: "bool \<Rightarrow> string \<Rightarrow> string" where
  "compact quoted s =
     (case s of [] \<Rightarrow> []
      | c # r \<Rightarrow>
          if c = CHR ''<'' \<or> c = CHR ''>'' \<or> c = CHR ''&'' then enc_char c @ compact quoted r
          else if line_separator s then enc_line_separator s @ compact quoted (drop 3 s)
          else if \<not> quoted then
            if json_space c then compact False r else c # compact (c = CHR 0x22) r
          else if c = CHR 0x22 then c # compact False r
          else if c = CHR 0x5C \<and> r \<noteq> [] then c # hd r # compact True (tl r)
          else c # compact True r)"
  by auto
termination by (relation "measure (length \<circ> snd)") auto

declare compact.simps [simp del]

definition marshal_raw :: "string \<Rightarrow> string option" where
  "marshal_raw p =
     (case json_value maxNestingDepth (skip_space p) of
        None \<Rightarrow> None
      | Some rest \<Rightarrow> if skip_space rest = [] then Some (compact False p) else None)"

lemma compact_Nil: "compact quoted '''' = ''''"
  by (subst compact.simps) simp

lemma compact_deep: "compact False (deep n) = deep n"
proof -
  have plain: "compact False (c # s) = c # compact False s" if "c \<in> {CHR ''['', CHR '']''}" for c s
  proof -
    have "c \<noteq> CHR ''<'' \<and> c \<noteq> CHR ''>'' \<and> c \<noteq> CHR ''&'' \<and> c \<noteq> CHR 0x22 \<and> \<not> json_space c \<and> \<not> line_separator (c # s)"
      using that by (auto simp: line_separator_def json_space_def)
    then show ?thesis by (subst compact.simps) simp
  qed
  have "compact False (replicate m (CHR '']'')) = replicate m (CHR '']'')" for m
    by (induction m) (simp_all add: plain compact.simps [of _ "[]"])
  then have "compact False (replicate m (CHR ''['') @ replicate n (CHR '']'')) = replicate m (CHR ''['') @ replicate n (CHR '']'')" for m
    by (induction m) (simp_all add: plain)
  then show ?thesis by (simp add: deep_def)
qed

lemma json_value_deep_end: "0 < n \<Longrightarrow> n \<le> d \<Longrightarrow> json_value d (deep n) = Some []"
  using json_value_deep [of n d "[]"] by simp

text \<open>A deeper nesting scans no less.\<close>

lemma json_members_mono:
  assumes p: "\<And>s r. p s = Some r \<Longrightarrow> p' s = Some r"
  shows "json_members p s = Some x \<Longrightarrow> json_members p' s = Some x"
proof (induction "length s" arbitrary: s x rule: less_induct)
  case less
  from less.prems [unfolded json_members.simps [of p s]]
  show ?case unfolding json_members.simps [of p' s]
    by (auto simp: Let_def less.hyps dest!: p split: list.splits if_splits option.splits prod.splits)
qed

lemma json_elements_mono:
  assumes p: "\<And>s r. p s = Some r \<Longrightarrow> p' s = Some r"
  shows "json_elements p s = Some x \<Longrightarrow> json_elements p' s = Some x"
proof (induction "length s" arbitrary: s x rule: less_induct)
  case less
  from less.prems [unfolded json_elements.simps [of p s]]
  show ?case unfolding json_elements.simps [of p' s]
    by (auto simp: less.hyps dest!: p split: list.splits if_splits option.splits prod.splits)
qed

lemma json_value_mono: "json_value n s = Some r \<Longrightarrow> json_value (Suc n) s = Some r"
proof (induction n arbitrary: s r)
  case 0
  then have "hd s \<noteq> CHR ''{'' \<and> hd s \<noteq> CHR ''[''"
    by (cases s) (auto simp: json_scalar_def json_digit_def split: if_splits)
  then show ?case using 0 by simp
next
  case (Suc n)
  have obj: "json_object (json_value (Suc n)) t = Some x" if "json_object (json_value n) t = Some x" for t x
    using that json_members_mono [where p = "json_value n" and p' = "json_value (Suc n)", OF Suc.IH]
    by (auto simp: json_object_def simp del: json_value.simps split: if_splits)
  have arr: "json_array (json_value (Suc n)) t = Some x" if "json_array (json_value n) t = Some x" for t x
    using that json_elements_mono [where p = "json_value n" and p' = "json_value (Suc n)", OF Suc.IH]
    by (auto simp: json_array_def simp del: json_value.simps split: if_splits)
  show ?case using Suc.prems obj arr
    unfolding json_value.simps(2) [of "Suc n"] json_value.simps(2) [of n s]
    by (auto simp del: json_value.simps split: if_splits)
qed

lemma json_token_mono: "json_token m t \<Longrightarrow> m \<le> n \<Longrightarrow> json_token n t"
proof (induction n)
  case (Suc n)
  then show ?case using json_value_mono by (cases "m = Suc n") (auto simp: json_token_def simp del: json_value.simps)
qed (simp add: json_token_def)

end
