(* ===== verification/Cogs_Wire.thy ===== *)
theory Cogs_Wire
  imports Cogs_Client Go_Json
begin

section \<open>Requests and responses on the wire\<close>

text \<open>
  The structs of \<open>api.go\<close>, \<open>scheduler.go\<close> and \<open>client.go\<close> as JSON: the server's \<open>decode\<close> with its
  body limit and unknown fields refused, \<open>writeJSON\<close> for every body, the maps the SDK marshals and
  the structs it decodes. The decoder works as \<open>encoding/json\<close> does: a value is scanned whole before
  a struct is touched, the first error in a member is kept and the other members are still set, a
  member is matched exactly or else under case folding, and null leaves a string or a number as it
  was. The text of an error is the library's, a parameter \<open>et\<close> where it is written out. (A slice
  member given twice, its second array with null elements, would show the first one's elements;
  here these are empty.)
\<close>

subsection \<open>Decoding into a struct\<close>

datatype json_error = JsonSyntax | JsonType string | JsonUnknownField string

text \<open>A struct's members: the name and how the text of a value is stored, \<open>None\<close> a type error.\<close>

type_synonym 'r fields = "(string \<times> (string \<Rightarrow> 'r \<Rightarrow> 'r option)) list"

text \<open>
  \<open>foldName\<close>: upper case, where the Kelvin sign and the long s are the only runes beyond ASCII that
  fold to a letter of a name.
\<close>

definition upper :: "char \<Rightarrow> char" where
  "upper c = (if 97 \<le> code c \<and> code c \<le> 122 then char_of (code c - 32) else c)"

function fold_name :: "string \<Rightarrow> string" where
  "fold_name s =
     (case s of [] \<Rightarrow> []
      | c # r \<Rightarrow>
          if take 3 s = [CHR 0xE2, CHR 0x84, CHR 0xAA] then CHR ''K'' # fold_name (drop 3 s)
          else if take 2 s = [CHR 0xC5, CHR 0xBF] then CHR ''S'' # fold_name (drop 2 s)
          else upper c # fold_name r)"
  by auto
termination by (relation "measure length") auto

declare fold_name.simps [simp del]

definition find_field :: "'r fields \<Rightarrow> string \<Rightarrow> (string \<Rightarrow> 'r \<Rightarrow> 'r option) option" where
  "find_field fs k =
     (case map_of fs k of
        Some f \<Rightarrow> Some f
      | None \<Rightarrow> map_option snd (find (\<lambda>f. fold_name (fst f) = fold_name k) fs))"

definition first_error :: "json_error option \<Rightarrow> json_error \<Rightarrow> json_error option" where
  "first_error err e = (if err = None then Some e else err)"

fun set_members ::
  "bool \<Rightarrow> 'r fields \<Rightarrow> (string \<times> string) list \<Rightarrow> json_error option \<Rightarrow> 'r \<Rightarrow> json_error option \<times> 'r" where
  "set_members strict fs [] err r = (err, r)"
| "set_members strict fs ((k, t) # ms) err r =
     (case find_field fs k of
        None \<Rightarrow> set_members strict fs ms (if strict then first_error err (JsonUnknownField k) else err) r
      | Some f \<Rightarrow>
          (case f t r of
             None \<Rightarrow> set_members strict fs ms (first_error err (JsonType k)) r
           | Some r' \<Rightarrow> set_members strict fs ms err r'))"

text \<open>The text of a value into a struct; \<open>n\<close> is the nesting left for its members.\<close>

definition decode_struct :: "bool \<Rightarrow> nat \<Rightarrow> 'r fields \<Rightarrow> 'r \<Rightarrow> string \<Rightarrow> json_error option \<times> 'r" where
  "decode_struct strict n fs zero t =
     (if t = ''null'' then (None, zero)
      else if t \<noteq> [] \<and> hd t = CHR ''{'' then
        (case json_object (json_value n) (tl t) of
           None \<Rightarrow> (Some JsonSyntax, zero)
         | Some (ms, _) \<Rightarrow> set_members strict fs ms None zero)
      else (Some (JsonType ''''), zero))"

text \<open>\<open>Decoder.Decode\<close>: the first value of a text; what follows it is not read.\<close>

definition decode_doc :: "bool \<Rightarrow> 'r fields \<Rightarrow> 'r \<Rightarrow> string \<Rightarrow> json_error option \<times> 'r" where
  "decode_doc strict fs zero s =
     (case json_value maxNestingDepth (skip_space s) of
        None \<Rightarrow> (Some JsonSyntax, zero)
      | Some rest \<Rightarrow> decode_struct strict (maxNestingDepth - 1) fs zero (before (skip_space s) rest))"

text \<open>The members: strings, numbers, raw texts, and slices of strings.\<close>

definition string_value :: "string \<Rightarrow> string option" where
  "string_value t = (if t \<noteq> [] \<and> hd t = CHR 0x22 then map_option fst (json_string (tl t)) else None)"

definition string_field :: "((string \<Rightarrow> string) \<Rightarrow> 'r \<Rightarrow> 'r) \<Rightarrow> string \<Rightarrow> 'r \<Rightarrow> 'r option" where
  "string_field upd t r =
     (if t = ''null'' then Some r else map_option (\<lambda>s. upd (\<lambda>_. s) r) (string_value t))"

definition int_field :: "((int \<Rightarrow> int) \<Rightarrow> 'r \<Rightarrow> 'r) \<Rightarrow> string \<Rightarrow> 'r \<Rightarrow> 'r option" where
  "int_field upd t r =
     (if t = ''null'' then Some r
      else if t \<noteq> [] \<and> (hd t = CHR ''-'' \<or> json_digit (hd t)) \<and> snd (parse_int t)
      then Some (upd (\<lambda>_. fst (parse_int t)) r) else None)"

definition bool_field :: "((bool \<Rightarrow> bool) \<Rightarrow> 'r \<Rightarrow> 'r) \<Rightarrow> string \<Rightarrow> 'r \<Rightarrow> 'r option" where
  "bool_field upd t r =
     (if t = ''null'' then Some r
      else if t = ''true'' then Some (upd (\<lambda>_. True) r)
      else if t = ''false'' then Some (upd (\<lambda>_. False) r) else None)"

definition raw_field :: "((string \<Rightarrow> string) \<Rightarrow> 'r \<Rightarrow> 'r) \<Rightarrow> string \<Rightarrow> 'r \<Rightarrow> 'r option" where
  "raw_field upd t r = Some (upd (\<lambda>_. t) r)"

definition slice_field ::
  "nat \<Rightarrow> (string \<Rightarrow> 'a option) \<Rightarrow> (('a list \<Rightarrow> 'a list) \<Rightarrow> 'r \<Rightarrow> 'r) \<Rightarrow> string \<Rightarrow> 'r \<Rightarrow> 'r option" where
  "slice_field n elem upd t r =
     (if t = ''null'' then Some (upd (\<lambda>_. []) r)
      else if t \<noteq> [] \<and> hd t = CHR ''['' then
        (case json_array (json_value n) (tl t) of
           None \<Rightarrow> None
         | Some (ts, _) \<Rightarrow> map_option (\<lambda>xs. upd (\<lambda>_. xs) r) (those (map elem ts)))
      else None)"

definition string_element :: "string \<Rightarrow> string option" where
  "string_element t = (if t = ''null'' then Some '''' else string_value t)"

subsection \<open>The server's requests\<close>

definition enqueueRequest_fields :: "enqueueRequest fields" where
  "enqueueRequest_fields =
     [(''queue'', string_field Enq_Queue_update), (''payload'', raw_field Enq_Payload_update),
      (''idempotency_key'', string_field Enq_IdempotencyKey_update)]"

definition claimRequest_fields :: "claimRequest fields" where
  "claimRequest_fields =
     [(''queues'', slice_field (maxNestingDepth - 2) string_element Claim_Queues_update),
      (''batch'', int_field Claim_Batch_update), (''wait_ms'', int_field Claim_WaitMS_update),
      (''worker_id'', string_field Claim_WorkerID_update)]"

definition ackBatchRequest_fields :: "ackBatchRequest fields" where
  "ackBatchRequest_fields =
     [(''queue'', string_field Ack_Queue_update),
      (''ids'', slice_field (maxNestingDepth - 2) string_element Ack_IDs_update)]"

definition failRequest_fields :: "failRequest fields" where
  "failRequest_fields =
     [(''queue'', string_field Fail_Queue_update), (''error'', string_field Fail_Error_update),
      (''attempt'', int_field Fail_Attempt_update)]"

definition createScheduleRequest_fields :: "createScheduleRequest fields" where
  "createScheduleRequest_fields =
     [(''queue'', string_field CS_Queue_update), (''cron'', string_field CS_Cron_update),
      (''payload'', raw_field CS_Payload_update)]"

text \<open>The body of a renewal and of an ack by identifier, a struct of the queue alone.\<close>

definition queue_body_fields :: "queue fields" where
  "queue_body_fields = [(''queue'', string_field (\<lambda>f. f))]"

text \<open>\<open>decode\<close>, on a body that \<open>wrap\<close> has limited.\<close>

definition decode :: "config \<Rightarrow> 'r fields \<Rightarrow> 'r \<Rightarrow> string \<Rightarrow> json_error option \<times> 'r" where
  "decode c fs zero payload = decode_doc True fs zero (take (nat (MaxBodyBytes c)) payload)"

definition read_as :: "(json_error \<Rightarrow> string) \<Rightarrow> json_error option \<times> 'r \<Rightarrow> string + 'r" where
  "read_as et x = (case fst x of Some e \<Rightarrow> Inl (et e) | None \<Rightarrow> Inr (snd x))"

definition zero_enqueue :: enqueueRequest where
  "zero_enqueue = \<lparr>Enq_Queue = '''', Enq_Payload = '''', Enq_IdempotencyKey = ''''\<rparr>"

definition zero_claim :: claimRequest where
  "zero_claim = \<lparr>Claim_Queues = [], Claim_Batch = 0, Claim_WaitMS = 0, Claim_WorkerID = ''''\<rparr>"

definition zero_ackBatch :: ackBatchRequest where
  "zero_ackBatch = \<lparr>Ack_Queue = '''', Ack_IDs = []\<rparr>"

definition zero_fail :: failRequest where
  "zero_fail = \<lparr>Fail_Queue = '''', Fail_Error = '''', Fail_Attempt = 0\<rparr>"

definition zero_createSchedule :: createScheduleRequest where
  "zero_createSchedule = \<lparr>CS_Queue = '''', CS_Cron = '''', CS_Payload = ''''\<rparr>"

subsection \<open>The server's responses\<close>

definition enc_bool :: "bool \<Rightarrow> string" where
  "enc_bool b = (if b then ''true'' else ''false'')"

definition encode_job :: "job \<Rightarrow> string option" where
  "encode_job j = map_option (\<lambda>p. enc_object
     ([(''id'', enc_string (Job_ID j)), (''queue'', enc_string (Job_Queue j)), (''payload'', p),
       (''attempts'', itoa (Job_Attempts j))]
      @ (if Job_IdempotencyKey j = '''' then [] else [(''idempotency_key'', enc_string (Job_IdempotencyKey j))])
      @ [(''created_at_ms'', itoa (Job_CreatedAt j))]
      @ (if Job_LeaseDeadline j = 0 then [] else [(''lease_deadline_ms'', itoa (Job_LeaseDeadline j))])))
     (marshal_raw (Job_Payload j))"

definition encode_schedule :: "schedule \<Rightarrow> string option" where
  "encode_schedule s = map_option (\<lambda>p. enc_object
     ([(''id'', enc_string (Sched_ID s)), (''queue'', enc_string (Sched_Queue s)), (''cron'', enc_string (Sched_Cron s)),
       (''payload'', p), (''next_run_ms'', itoa (Sched_NextRun s))]
      @ (if Sched_LastRun s = 0 then [] else [(''last_run_ms'', itoa (Sched_LastRun s))])
      @ (if Sched_Disabled s then [(''disabled'', ''true'')] else [])))
     (marshal_raw (Sched_Payload s))"

definition errorResponse :: "string \<Rightarrow> string \<Rightarrow> (string \<times> string) list" where
  [simp]: "errorResponse cd msg = [(''error'', enc_object [(''code'', enc_string cd), (''message'', enc_string msg)])]"

definition enqueueResponse :: "job_id \<Rightarrow> queue \<Rightarrow> bool \<Rightarrow> (string \<times> string) list" where
  [simp]: "enqueueResponse jid q created =
     [(''id'', enc_string jid), (''queue'', enc_string q), (''created'', enc_bool created)]"

definition claimResponse :: "string list \<Rightarrow> int \<Rightarrow> int \<Rightarrow> (string \<times> string) list" where
  [simp]: "claimResponse jobs ttl every =
     [(''jobs'', enc_array jobs), (''lease_ttl_ms'', itoa ttl), (''heartbeat_every_ms'', itoa every)]"

definition renewResponse :: "job_id \<Rightarrow> int \<Rightarrow> (string \<times> string) list" where
  [simp]: "renewResponse jid deadline = [(''id'', enc_string jid), (''lease_deadline_ms'', itoa deadline)]"

definition queueStats :: "queue_stats \<Rightarrow> (string \<times> string) list" where
  [simp]: "queueStats s =
     [(''queue'', enc_string (Stats_Queue s)), (''pending'', itoa (Stats_Pending s)),
      (''leased'', itoa (Stats_Leased s)), (''retry'', itoa (Stats_Retry s)), (''dead'', itoa (Stats_Dead s))]"

fun encode_body :: "body \<Rightarrow> string option" where
  "encode_body (ErrBody cd msg) = Some (enc_object (errorResponse cd msg))"
| "encode_body (EnqueueBody jid q created) = Some (enc_object (enqueueResponse jid q created))"
| "encode_body (ClaimBody jobs ttl every) =
     map_option (\<lambda>ts. enc_object (claimResponse ts ttl every)) (those (map encode_job jobs))"
| "encode_body (RenewBody jid deadline) = Some (enc_object (renewResponse jid deadline))"
| "encode_body (AckedBody n) = Some (enc_object [(''acked'', itoa n)])"
| "encode_body (StateBody jid st) = Some (enc_object [(''id'', enc_string jid), (''state'', enc_string st)])"
| "encode_body (JobBody j) = encode_job j"
| "encode_body (StatsBody s) = Some (enc_object (queueStats s))"
| "encode_body (DeadBody q ids) =
     Some (enc_object [(''ids'', enc_array (map enc_string ids)), (''queue'', enc_string q)])"
| "encode_body (ScheduleBody s) = encode_schedule s"
| "encode_body (SchedulesBody ss) =
     map_option (\<lambda>ts. enc_object [(''schedules'', enc_array ts)]) (those (map encode_schedule ss))"
| "encode_body (StatusBody s) = Some (enc_object [(''status'', enc_string s)])"
| "encode_body (ReadyBody leads) = Some (enc_object [(''leader'', enc_bool leads), (''status'', enc_string ''ready'')])"
| "encode_body NoBody = Some ''''"

text \<open>
  What \<open>writeJSON\<close> writes after the status: the encoder's text and a newline, or nothing when a
  stored payload is not JSON, since its error is dropped.
\<close>

definition writeJSON :: "body \<Rightarrow> string" where
  "writeJSON b =
     (if b = NoBody then ''''
      else (case encode_body b of None \<Rightarrow> '''' | Some t \<Rightarrow> t @ [CHR 0x0A]))"

subsection \<open>The SDK's side\<close>

text \<open>The maps it marshals, their keys sorted; \<open>raw\<close> is the payload as \<open>json.Marshal\<close> gave it.\<close>

definition client_enqueue_body :: "queue \<Rightarrow> string \<Rightarrow> string \<Rightarrow> string" where
  "client_enqueue_body q raw key = enc_object
     [(''idempotency_key'', enc_string key), (''payload'', compact False raw), (''queue'', enc_string q)]"

definition client_claim_body :: "claimRequest \<Rightarrow> string" where
  "client_claim_body r = enc_object
     [(''batch'', itoa (Claim_Batch r)), (''queues'', enc_array (map enc_string (Claim_Queues r))),
      (''wait_ms'', itoa (Claim_WaitMS r)), (''worker_id'', enc_string (Claim_WorkerID r))]"

definition client_renew_body :: "queue \<Rightarrow> string" where
  "client_renew_body q = enc_object [(''queue'', enc_string q)]"

definition client_ack_body :: "queue \<Rightarrow> job_id list \<Rightarrow> string" where
  "client_ack_body q ids = enc_object [(''ids'', enc_array (map enc_string ids)), (''queue'', enc_string q)]"

definition client_fail_body :: "queue \<Rightarrow> int \<Rightarrow> string \<Rightarrow> string" where
  "client_fail_body q attempt reason = enc_object
     [(''attempt'', itoa attempt), (''error'', enc_string reason), (''queue'', enc_string q)]"

text \<open>The structs it decodes: unknown members are skipped.\<close>

definition zero_job :: job where
  "zero_job = \<lparr>Job_ID = '''', Job_Queue = '''', Job_Payload = '''', Job_Attempts = 0,
     Job_IdempotencyKey = '''', Job_CreatedAt = 0, Job_LeaseDeadline = 0\<rparr>"

definition client_job_fields :: "job fields" where
  "client_job_fields =
     [(''id'', string_field Job_ID_update), (''queue'', string_field Job_Queue_update),
      (''payload'', raw_field Job_Payload_update), (''attempts'', int_field Job_Attempts_update),
      (''lease_deadline_ms'', int_field Job_LeaseDeadline_update)]"

definition client_job :: "string \<Rightarrow> job option" where
  "client_job t =
     (case decode_struct False (maxNestingDepth - 3) client_job_fields zero_job t of
        (None, j) \<Rightarrow> Some j
      | (Some _, _) \<Rightarrow> None)"

definition claim_result_fields :: "claim_result fields" where
  "claim_result_fields =
     [(''jobs'', slice_field (maxNestingDepth - 2) client_job CR_Jobs_update),
      (''lease_ttl_ms'', int_field CR_LeaseTTLMS_update), (''heartbeat_every_ms'', int_field CR_HeartbeatEveryMS_update)]"

definition zero_claim_result :: claim_result where
  "zero_claim_result = \<lparr>CR_Jobs = [], CR_LeaseTTLMS = 0, CR_HeartbeatEveryMS = 0\<rparr>"

definition enqueue_result_fields :: "(job_id \<times> queue \<times> bool) fields" where
  "enqueue_result_fields =
     [(''id'', string_field apfst), (''queue'', string_field (\<lambda>f. apsnd (apfst f))),
      (''created'', bool_field (\<lambda>f. apsnd (apsnd f)))]"

text \<open>The exchange of a response, as \<open>do\<close> reads it.\<close>

definition claim_exchange :: "(json_error \<Rightarrow> string) \<Rightarrow> int \<Rightarrow> string \<Rightarrow> claim_result exchange" where
  "claim_exchange et status s = Replied status (read_as et (decode_doc False claim_result_fields zero_claim_result s))"

definition enqueue_exchange :: "(json_error \<Rightarrow> string) \<Rightarrow> int \<Rightarrow> string \<Rightarrow> (job_id \<times> queue \<times> bool) exchange" where
  "enqueue_exchange et status s = Replied status (read_as et (decode_doc False enqueue_result_fields ('''', '''', False) s))"

end
