(* ===== verification/Wire_Laws.thy ===== *)
theory Wire_Laws
  imports Cogs_Wire
begin

section \<open>What crosses the wire\<close>

text \<open>
  The decoders on the encoders' texts: each request of the SDK is decoded by the server to what was
  sent, each claim response by the SDK to the jobs that were claimed. The hypotheses are those of
  the code: texts in UTF-8, numbers in 64 bits, bodies within the limit, payloads that are JSON
  values nested no deeper than the decoder allows.
\<close>

subsection \<open>Members\<close>

lemma decode_struct_enc:
  assumes "\<forall>m \<in> set ms. utf8 (fst m) \<and> json_token n (snd m)"
  shows "decode_struct strict n fs zero (enc_object ms) = set_members strict fs ms None zero"
proof -
  have "json_object (json_value n) (tl (enc_object ms)) = Some (ms, [])"
    using json_object_enc [OF assms, of "[]"] by (simp add: enc_object_def)
  moreover have "enc_object ms \<noteq> ''null''" by (simp add: enc_object_def)
  ultimately show ?thesis by (simp add: decode_struct_def enc_object_def)
qed

lemma json_value_enc_object:
  assumes "\<forall>m \<in> set ms. utf8 (fst m) \<and> json_token n (snd m)"
  shows "json_value (Suc n) (enc_object ms @ rest) = Some rest"
  using json_object_enc [OF assms, of rest] by (simp add: enc_object_def)

lemma nesting: "maxNestingDepth = Suc (maxNestingDepth - 1)" "maxNestingDepth - 1 = Suc (maxNestingDepth - 2)"
  "maxNestingDepth - 2 = Suc (maxNestingDepth - 3)"
  by (simp_all add: maxNestingDepth_def)

lemma decode_doc_enc:
  assumes "\<forall>m \<in> set ms. utf8 (fst m) \<and> json_token (maxNestingDepth - 1) (snd m)"
  shows "decode_doc strict fs zero (enc_object ms @ rest) = set_members strict fs ms None zero"
proof -
  have "json_value maxNestingDepth (enc_object ms @ rest) = Some rest"
    using json_value_enc_object [OF assms, of rest] by (simp only: nesting(1) [symmetric])
  moreover have "skip_space (enc_object ms @ rest) = enc_object ms @ rest"
    by (rule skip_space_id) (simp add: enc_object_def json_space_def)
  ultimately show ?thesis using decode_struct_enc [OF assms, of strict fs zero] by (simp add: decode_doc_def)
qed

lemma decode_enc:
  assumes "\<forall>m \<in> set ms. utf8 (fst m) \<and> json_token (maxNestingDepth - 1) (snd m)"
    and "int (length (enc_object ms)) \<le> MaxBodyBytes c"
  shows "decode c fs zero (enc_object ms) = set_members True fs ms None zero"
proof -
  have "take (nat (MaxBodyBytes c)) (enc_object ms) = enc_object ms @ []" using assms(2) by simp
  then show ?thesis unfolding decode_def by (simp only: decode_doc_enc [OF assms(1)])
qed

lemma string_field_enc [simp]: "utf8 s \<Longrightarrow> string_field upd (enc_string s) r = Some (upd (\<lambda>_. s) r)"
  by (simp add: string_field_def string_value_def enc_string_def json_string_enc_chars)

lemma string_element_enc: "utf8 s \<Longrightarrow> string_element (enc_string s) = Some s"
  by (simp add: string_element_def string_value_def enc_string_def json_string_enc_chars)

lemma int_field_enc [simp]:
  assumes "- (2 ^ 63) \<le> i" and "i < 2 ^ 63"
  shows "int_field upd (itoa i) r = Some (upd (\<lambda>_. i) r)"
proof -
  have "parse_int (itoa i) = (i, True)" by (rule parse_int_itoa [OF assms])
  moreover have "parse_int ''null'' = (0, False)" by (simp add: parse_int_def)
  ultimately have "itoa i \<noteq> ''null''" by auto
  moreover have "itoa i \<noteq> [] \<and> (hd (itoa i) = CHR ''-'' \<or> json_digit (hd (itoa i)))"
    using nat_digits_hd [of "nat i"] digit_char by (auto simp: itoa_def)
  ultimately show ?thesis using \<open>parse_int (itoa i) = (i, True)\<close> by (simp add: int_field_def)
qed

lemma bool_field_enc [simp]: "bool_field upd (enc_bool b) r = Some (upd (\<lambda>_. b) r)"
  by (simp add: bool_field_def enc_bool_def)

lemma raw_field_enc [simp]: "raw_field upd t r = Some (upd (\<lambda>_. t) r)"
  by (simp add: raw_field_def)

lemma those_map: "\<forall>x \<in> set xs. f x = Some (h x) \<Longrightarrow> those (map f xs) = Some (map h xs)"
  by (induction xs) auto

lemma slice_field_enc:
  assumes "\<forall>x \<in> set xs. json_token n (g x)" and "\<forall>x \<in> set xs. elem (g x) = Some (h x)"
  shows "slice_field n elem upd (enc_array (map g xs)) r = Some (upd (\<lambda>_. map h xs) r)"
proof -
  have "json_array (json_value n) (tl (enc_array (map g xs))) = Some (map g xs, [])"
    using json_array_enc [of "map g xs" n "[]"] assms(1) by (simp add: enc_array_def)
  then show ?thesis using those_map [of xs "elem \<circ> g" h] assms(2)
    by (simp add: slice_field_def enc_array_def)
qed

lemma strings_field_enc:
  "\<forall>s \<in> set xs. utf8 s \<Longrightarrow> slice_field n string_element upd (enc_array (map enc_string xs)) r = Some (upd (\<lambda>_. xs) r)"
  using slice_field_enc [of xs n enc_string string_element id upd r] by (simp add: token_string string_element_enc)

lemma token_strings: "\<forall>s \<in> set xs. utf8 s \<Longrightarrow> json_token (Suc n) (enc_array (map enc_string xs))"
  by (rule token_array) (simp add: token_string)

lemma token_bool: "json_token n (enc_bool b)"
  by (simp add: enc_bool_def token_true token_false)

lemmas tokens = token_string token_int token_bool token_null

lemma utf8_name [simp]: "list_all (\<lambda>c. code c < 128) s \<Longrightarrow> utf8 s"
  by (simp add: utf8_ascii list_all_iff)

subsection \<open>The SDK's requests\<close>

lemma enqueue_body_decodes:
  assumes "utf8 q" and "utf8 key" and "json_token (maxNestingDepth - 1) p" and "compact False p = p"
    and "int (length (client_enqueue_body q p key)) \<le> MaxBodyBytes c"
  shows "decode c enqueueRequest_fields zero_enqueue (client_enqueue_body q p key)
    = (None, \<lparr>Enq_Queue = q, Enq_Payload = p, Enq_IdempotencyKey = key\<rparr>)"
  using assms unfolding client_enqueue_body_def
  by (subst decode_enc) (simp_all add: tokens enqueueRequest_fields_def find_field_def zero_enqueue_def)

lemma claim_body_decodes:
  assumes "\<forall>q \<in> set (Claim_Queues r). utf8 q" and "utf8 (Claim_WorkerID r)"
    and "- (2 ^ 63) \<le> Claim_Batch r" and "Claim_Batch r < 2 ^ 63"
    and "- (2 ^ 63) \<le> Claim_WaitMS r" and "Claim_WaitMS r < 2 ^ 63"
    and "int (length (client_claim_body r)) \<le> MaxBodyBytes c"
  shows "decode c claimRequest_fields zero_claim (client_claim_body r) = (None, r)"
proof -
  have "json_token (maxNestingDepth - 1) (enc_array (map enc_string (Claim_Queues r)))"
    using token_strings [OF assms(1)] nesting(2) by metis
  then show ?thesis using assms unfolding client_claim_body_def
    by (subst decode_enc)
      (simp_all add: tokens claimRequest_fields_def find_field_def zero_claim_def strings_field_enc)
qed

lemma renew_body_decodes:
  assumes "utf8 q" and "int (length (client_renew_body q)) \<le> MaxBodyBytes c"
  shows "decode c queue_body_fields '''' (client_renew_body q) = (None, q)"
  using assms unfolding client_renew_body_def
  by (subst decode_enc) (simp_all add: tokens queue_body_fields_def find_field_def)

lemma ack_body_decodes:
  assumes "utf8 q" and "\<forall>j \<in> set ids. utf8 j" and "int (length (client_ack_body q ids)) \<le> MaxBodyBytes c"
  shows "decode c ackBatchRequest_fields zero_ackBatch (client_ack_body q ids) = (None, \<lparr>Ack_Queue = q, Ack_IDs = ids\<rparr>)"
proof -
  have "json_token (maxNestingDepth - 1) (enc_array (map enc_string ids))"
    using token_strings [OF assms(2)] nesting(2) by metis
  then show ?thesis using assms unfolding client_ack_body_def
    by (subst decode_enc)
      (simp_all add: tokens ackBatchRequest_fields_def find_field_def zero_ackBatch_def strings_field_enc)
qed

lemma fail_body_decodes:
  assumes "utf8 q" and "utf8 reason" and "- (2 ^ 63) \<le> attempt" and "attempt < 2 ^ 63"
    and "int (length (client_fail_body q attempt reason)) \<le> MaxBodyBytes c"
  shows "decode c failRequest_fields zero_fail (client_fail_body q attempt reason)
    = (None, \<lparr>Fail_Queue = q, Fail_Error = reason, Fail_Attempt = attempt\<rparr>)"
  using assms unfolding client_fail_body_def
  by (subst decode_enc) (simp_all add: tokens failRequest_fields_def find_field_def zero_fail_def)

subsection \<open>The claim response\<close>

text \<open>A job whose parts JSON carries, with room for \<open>n\<close> levels of its payload.\<close>

definition job_on_wire :: "nat \<Rightarrow> job \<Rightarrow> bool" where
  "job_on_wire n j \<longleftrightarrow> utf8 (Job_ID j) \<and> utf8 (Job_Queue j) \<and> utf8 (Job_IdempotencyKey j)
     \<and> json_token n (Job_Payload j) \<and> marshal_raw (Job_Payload j) = Some (Job_Payload j)
     \<and> - (2 ^ 63) \<le> Job_Attempts j \<and> Job_Attempts j < 2 ^ 63
     \<and> - (2 ^ 63) \<le> Job_LeaseDeadline j \<and> Job_LeaseDeadline j < 2 ^ 63"

definition job_members :: "job \<Rightarrow> (string \<times> string) list" where
  "job_members j =
     [(''id'', enc_string (Job_ID j)), (''queue'', enc_string (Job_Queue j)), (''payload'', Job_Payload j),
       (''attempts'', itoa (Job_Attempts j))]
      @ (if Job_IdempotencyKey j = '''' then [] else [(''idempotency_key'', enc_string (Job_IdempotencyKey j))])
      @ [(''created_at_ms'', itoa (Job_CreatedAt j))]
      @ (if Job_LeaseDeadline j = 0 then [] else [(''lease_deadline_ms'', itoa (Job_LeaseDeadline j))])"

lemma encode_job_members: "job_on_wire n j \<Longrightarrow> encode_job j = Some (enc_object (job_members j))"
  by (simp add: encode_job_def job_members_def job_on_wire_def)

lemma job_members_tokens: "job_on_wire n j \<Longrightarrow> \<forall>m \<in> set (job_members j). utf8 (fst m) \<and> json_token n (snd m)"
  by (auto simp: job_members_def job_on_wire_def tokens)

text \<open>The SDK's struct of a job has no idempotency key and no creation time.\<close>

definition sdk_job :: "job \<Rightarrow> job" where
  "sdk_job j = j\<lparr>Job_IdempotencyKey := '''', Job_CreatedAt := 0\<rparr>"

lemma fold_name_Nil [simp]: "fold_name [] = []"
  by (subst fold_name.simps) simp

lemma fold_name_ascii: "code c < 128 \<Longrightarrow> fold_name (c # r) = upper c # fold_name r"
  by (subst fold_name.simps) auto

lemma fold_miss:
  "find_field client_job_fields ''idempotency_key'' = None" "find_field client_job_fields ''created_at_ms'' = None"
  by (simp_all add: find_field_def client_job_fields_def fold_name_ascii upper_def)

lemma client_hit:
  "find_field client_job_fields ''id'' = Some (string_field Job_ID_update)"
  "find_field client_job_fields ''queue'' = Some (string_field Job_Queue_update)"
  "find_field client_job_fields ''payload'' = Some (raw_field Job_Payload_update)"
  "find_field client_job_fields ''attempts'' = Some (int_field Job_Attempts_update)"
  "find_field client_job_fields ''lease_deadline_ms'' = Some (int_field Job_LeaseDeadline_update)"
  by (simp_all add: find_field_def client_job_fields_def)

lemma client_job_enc:
  assumes "job_on_wire (maxNestingDepth - 3) j"
  shows "client_job (enc_object (job_members j)) = Some (sdk_job j)"
proof -
  have "set_members False client_job_fields (job_members j) None zero_job = (None, sdk_job j)"
    using assms by (cases "Job_IdempotencyKey j = ''''"; cases "Job_LeaseDeadline j = 0")
      (simp_all add: job_members_def job_on_wire_def fold_miss client_hit zero_job_def sdk_job_def)
  then show ?thesis
    using decode_struct_enc [OF job_members_tokens [OF assms], of False client_job_fields zero_job]
    by (simp add: client_job_def)
qed

lemma those_encode_job:
  "\<forall>j \<in> set js. job_on_wire n j \<Longrightarrow> those (map encode_job js) = Some (map (\<lambda>j. enc_object (job_members j)) js)"
  by (rule those_map) (auto intro: encode_job_members)

lemma claim_response_decodes:
  assumes jobs: "\<forall>j \<in> set js. job_on_wire (maxNestingDepth - 3) j"
    and "- (2 ^ 63) \<le> ttl" and "ttl < 2 ^ 63" and "- (2 ^ 63) \<le> every" and "every < 2 ^ 63"
  shows "claim_exchange et 200 (writeJSON (ClaimBody js ttl every))
    = Replied 200 (Inr \<lparr>CR_Jobs = map sdk_job js, CR_LeaseTTLMS = ttl, CR_HeartbeatEveryMS = every\<rparr>)"
proof -
  let ?g = "\<lambda>j. enc_object (job_members j)"
  let ?ms = "[(''jobs'', enc_array (map ?g js)), (''lease_ttl_ms'', itoa ttl), (''heartbeat_every_ms'', itoa every)]"
  have job: "json_token (maxNestingDepth - 2) (?g j)" if "j \<in> set js" for j
    using token_object [OF job_members_tokens] jobs that nesting(3) by metis
  then have "json_token (maxNestingDepth - 1) (enc_array (map ?g js))"
    using token_array [of "map ?g js" "maxNestingDepth - 2"] nesting(2) by (metis (no_types, lifting) image_iff list.set_map)
  then have toks: "\<forall>m \<in> set ?ms. utf8 (fst m) \<and> json_token (maxNestingDepth - 1) (snd m)" by (simp add: tokens)
  have slice: "slice_field (maxNestingDepth - 2) client_job upd (enc_array (map ?g js)) r = Some (upd (\<lambda>_. map sdk_job js) r)"
    for upd and r :: claim_result
    using slice_field_enc [of js "maxNestingDepth - 2" ?g client_job sdk_job upd r] job client_job_enc jobs by blast
  have "decode_doc False claim_result_fields zero_claim_result (writeJSON (ClaimBody js ttl every))
      = (None, \<lparr>CR_Jobs = map sdk_job js, CR_LeaseTTLMS = ttl, CR_HeartbeatEveryMS = every\<rparr>)"
    using those_encode_job [OF jobs] decode_doc_enc [OF toks, of False claim_result_fields zero_claim_result "[CHR 0x0A]"] assms(2-5)
    by (simp add: writeJSON_def) (simp add: find_field_def claim_result_fields_def slice zero_claim_result_def)
  then show ?thesis by (simp add: claim_exchange_def read_as_def)
qed

text \<open>The enqueue response.\<close>

lemma enqueue_response_decodes:
  assumes "utf8 jid" and "utf8 q"
  shows "enqueue_exchange et st (writeJSON (EnqueueBody jid q created)) = Replied st (Inr (jid, q, created))"
proof -
  let ?ms = "[(''id'', enc_string jid), (''queue'', enc_string q), (''created'', enc_bool created)]"
  have toks: "\<forall>m \<in> set ?ms. utf8 (fst m) \<and> json_token (maxNestingDepth - 1) (snd m)"
    using assms by (simp add: tokens token_bool)
  have "decode_doc False enqueue_result_fields ('''', '''', False) (writeJSON (EnqueueBody jid q created))
      = (None, (jid, q, created))"
    using decode_doc_enc [OF toks, of False enqueue_result_fields "('''', '''', False)" "[CHR 0x0A]"] assms
    by (simp add: writeJSON_def) (simp add: find_field_def enqueue_result_fields_def)
  then show ?thesis by (simp add: enqueue_exchange_def read_as_def)
qed

subsection \<open>Payloads the SDK cannot read back\<close>

text \<open>
  The server takes a payload nested 9998 deep, one level below the body's object; in a claim
  response it stands three levels down, one more than the SDK's decoder allows, and none of the
  jobs of the response is read.
\<close>

lemma deep_payload_enqueues:
  assumes "utf8 q" and "utf8 key" and "int (length (client_enqueue_body q (deep (maxNestingDepth - 2)) key)) \<le> MaxBodyBytes c"
  shows "decode c enqueueRequest_fields zero_enqueue (client_enqueue_body q (deep (maxNestingDepth - 2)) key)
    = (None, \<lparr>Enq_Queue = q, Enq_Payload = deep (maxNestingDepth - 2), Enq_IdempotencyKey = key\<rparr>)"
proof (rule enqueue_body_decodes [OF assms(1,2) _ compact_deep assms(3)])
  have "json_value (maxNestingDepth - 1) (deep (maxNestingDepth - 2) @ rest) = Some rest" for rest
    using json_value_deep [of "maxNestingDepth - 2" "maxNestingDepth - 1"] by (simp add: maxNestingDepth_def)
  then show "json_token (maxNestingDepth - 1) (deep (maxNestingDepth - 2))"
    by (simp add: json_token_def deep_def json_space_def maxNestingDepth_def)
qed

lemma json_members_fail:
  assumes "\<forall>m \<in> set pre. utf8 (fst m) \<and> json_token n (snd m)" and "utf8 k"
    and "\<not> json_space (hd t)" and "t \<noteq> []" and "\<And>x. json_value n (t @ x) = None"
  shows "json_members (json_value n) (join_commas (map enc_member (pre @ (k, t) # post)) @ rest) = None"
  using assms(1)
proof (induction pre)
  case Nil
  obtain x where x: "join_commas (map enc_member ((k, t) # post)) @ rest = CHR 0x22 # enc_chars k @ CHR 0x22 # CHR '':'' # t @ x"
    by (cases post) (simp_all add: enc_member_def enc_string_def)
  have "skip_space (t @ x) = t @ x" using assms(3,4) by (intro skip_space_id) simp
  then show ?case using assms(5) unfolding append_Nil x
    by (subst json_members.simps) (simp add: skip_space_def json_space_def json_string_enc_chars [OF assms(2)])
next
  case (Cons m pre)
  obtain k' t' where m: "m = (k', t')" by (cases m)
  have k': "utf8 k'" and t': "json_token n t'" using Cons.prems m by simp_all
  define rest' where "rest' = CHR '','' # join_commas (map enc_member (pre @ (k, t) # post)) @ rest"
  have c: "closes rest'" by (simp add: rest'_def closes_def)
  have split: "join_commas (map enc_member ((m # pre) @ (k, t) # post)) @ rest
      = CHR 0x22 # enc_chars k' @ CHR 0x22 # CHR '':'' # t' @ rest'"
    using m by (cases pre) (simp_all add: rest'_def enc_member_def enc_string_def)
  have mark: "skip_space (CHR 0x22 # s) = CHR 0x22 # s" "skip_space (CHR '':'' # s) = CHR '':'' # s" for s
    by (simp_all add: skip_space_def json_space_def)
  have IH: "json_members (json_value n) (join_commas (map enc_member (pre @ (k, t) # post)) @ rest) = None"
    using Cons by simp
  show ?case unfolding split
    by (subst json_members.simps)
      (simp add: mark json_string_enc_chars [OF k'] skip_space_token [OF t'] json_tokenD [OF t' c] closes_no_space [OF c],
       simp add: rest'_def IH [simplified])
qed

lemma json_elements_fail:
  assumes "\<forall>t \<in> set pre. json_token n t" and "\<not> json_space (hd t)" and "t \<noteq> []" and "\<And>x. json_value n (t @ x) = None"
  shows "json_elements (json_value n) (join_commas (pre @ t # post) @ rest) = None"
  using assms(1)
proof (induction pre)
  case Nil
  obtain x where x: "join_commas (t # post) @ rest = t @ x" by (cases post) simp_all
  have "skip_space (t @ x) = t @ x" using assms(2,3) by (intro skip_space_id) simp
  then show ?case using assms(4) unfolding append_Nil x by (subst json_elements.simps) simp
next
  case (Cons t' pre)
  have t': "json_token n t'" using Cons.prems by simp
  define rest' where "rest' = CHR '','' # join_commas (pre @ t # post) @ rest"
  have c: "closes rest'" by (simp add: rest'_def closes_def)
  have split: "join_commas ((t' # pre) @ t # post) @ rest = t' @ rest'"
    by (cases pre) (simp_all add: rest'_def)
  have IH: "json_elements (json_value n) (join_commas (pre @ t # post) @ rest) = None" using Cons by simp
  show ?case unfolding split
    by (subst json_elements.simps)
      (simp add: skip_space_token [OF t'] json_tokenD [OF t' c] closes_no_space [OF c], simp add: rest'_def IH)
qed

lemma hd_append_left: "s \<noteq> [] \<Longrightarrow> hd (s @ t) = hd s"
  by simp

lemma json_object_fail:
  assumes "\<forall>m \<in> set pre. utf8 (fst m) \<and> json_token n (snd m)" and "utf8 k"
    and "\<not> json_space (hd t)" and "t \<noteq> []" and "\<And>x. json_value n (t @ x) = None"
  shows "json_value (Suc n) (enc_object (pre @ (k, t) # post) @ rest) = None"
proof -
  obtain x where x: "join_commas (map enc_member (pre @ (k, t) # post)) = CHR 0x22 # x"
    by (cases pre; cases "tl pre"; cases post) (auto simp: enc_member_def enc_string_def neq_Nil_conv)
  show ?thesis using json_members_fail [OF assms, of post "CHR ''}'' # rest"] unfolding enc_object_def x
    by (simp add: json_object_def skip_space_def json_space_def)
qed

text \<open>A claim response with such a job among others that can be read: the claim fails as a whole.\<close>

lemma deep_job_unreadable:
  assumes pre: "\<forall>x \<in> set pre. job_on_wire (maxNestingDepth - 3) x"
    and j: "utf8 (Job_ID j)" "utf8 (Job_Queue j)" "Job_Payload j = deep (maxNestingDepth - 2)"
    and post: "\<forall>x \<in> set post. job_on_wire (maxNestingDepth - 3) x"
  shows "client_Claim (claim_exchange et 200 (writeJSON (ClaimBody (pre @ j # post) ttl every)))
    = Inl (ClientErr (et JsonSyntax))"
proof -
  let ?n = "maxNestingDepth - 3" and ?g = "\<lambda>j. enc_object (job_members j)"
  have nopay: "json_value ?n (deep (maxNestingDepth - 2) @ x) = None" for x
    using json_value_deep [of "maxNestingDepth - 2" ?n x] by (simp add: maxNestingDepth_def)
  have raw: "marshal_raw (deep (maxNestingDepth - 2)) = Some (deep (maxNestingDepth - 2))"
  proof -
    have "skip_space (deep (maxNestingDepth - 2)) = deep (maxNestingDepth - 2)"
      by (rule skip_space_id) (simp add: deep_def json_space_def maxNestingDepth_def)
    then show ?thesis using json_value_deep_end [of "maxNestingDepth - 2" maxNestingDepth]
      by (simp add: marshal_raw_def compact_deep maxNestingDepth_def skip_space_def)
  qed
  then have enc_j: "encode_job j = Some (?g j)" using j(3) by (simp add: encode_job_def job_members_def)
  have enc: "those (map encode_job (pre @ j # post)) = Some (map ?g (pre @ j # post))"
    using pre post enc_j encode_job_members by (intro those_map) auto
  have bad: "json_value (maxNestingDepth - 2) (?g j @ x) = None" for x
  proof -
    let ?head = "[(''id'', enc_string (Job_ID j)), (''queue'', enc_string (Job_Queue j))]"
    obtain ms where ms: "job_members j = ?head @ (''payload'', deep (maxNestingDepth - 2)) # ms"
      using j(3) by (simp add: job_members_def)
    have "json_value (Suc ?n) (?g j @ x) = None" unfolding ms
      by (rule json_object_fail) (use j nopay in \<open>simp_all add: tokens deep_def json_space_def maxNestingDepth_def\<close>)
    then show ?thesis by (simp only: nesting(3) [symmetric])
  qed
  have good: "\<forall>t \<in> set (map ?g pre). json_token (maxNestingDepth - 2) t"
    using token_object [OF job_members_tokens] pre nesting(3) by (metis (no_types, lifting) image_iff list.set_map)
  have arr: "json_value (maxNestingDepth - 1) (enc_array (map ?g (pre @ j # post)) @ x) = None" for x
  proof -
    obtain y where y: "join_commas (map ?g (pre @ j # post)) = CHR ''{'' # y"
      by (cases pre; cases "tl pre"; cases post) (auto simp: enc_object_def neq_Nil_conv)
    have "json_elements (json_value (maxNestingDepth - 2)) (join_commas (map ?g pre @ ?g j # map ?g post) @ CHR '']'' # x) = None"
      by (rule json_elements_fail [OF good]) (use bad in \<open>simp_all add: enc_object_def json_space_def\<close>)
    then have "json_value (Suc (maxNestingDepth - 2)) (enc_array (map ?g (pre @ j # post)) @ x) = None"
      using y by (simp add: enc_array_def json_array_def skip_space_def json_space_def)
    then show ?thesis by (simp only: nesting(2) [symmetric])
  qed
  let ?tail = "[(''lease_ttl_ms'', itoa ttl), (''heartbeat_every_ms'', itoa every)]"
  have "json_value (Suc (maxNestingDepth - 1)) (enc_object ([] @ (''jobs'', enc_array (map ?g (pre @ j # post))) # ?tail) @ [CHR 0x0A]) = None"
    by (rule json_object_fail) (use arr in \<open>simp_all add: enc_array_def json_space_def\<close>)
  then have "json_value maxNestingDepth (writeJSON (ClaimBody (pre @ j # post) ttl every)) = None"
    using enc by (simp only: nesting(1) [symmetric]) (simp add: writeJSON_def)
  moreover have "skip_space (writeJSON (ClaimBody (pre @ j # post) ttl every)) = writeJSON (ClaimBody (pre @ j # post) ttl every)"
    using enc by (intro skip_space_id) (simp add: writeJSON_def enc_object_def json_space_def)
  ultimately show ?thesis
    by (simp add: claim_exchange_def decode_doc_def read_as_def client_Claim_def client_do_def)
qed

subsection \<open>Unknown fields\<close>

lemma set_members_keeps_error: "err \<noteq> None \<Longrightarrow> fst (set_members strict fs ms err r) \<noteq> None"
proof (induction ms arbitrary: err r)
  case (Cons m ms)
  obtain k t where "m = (k, t)" by (cases m)
  then show ?case using Cons by (auto simp: first_error_def split: option.splits)
qed simp

lemma set_members_unknown:
  "m \<in> set ms \<Longrightarrow> find_field fs (fst m) = None \<Longrightarrow> fst (set_members True fs ms err r) \<noteq> None"
proof (induction ms arbitrary: err r)
  case (Cons x ms)
  obtain k t where x: "x = (k, t)" by (cases x)
  have keep: "fst (set_members True fs ms (first_error err e) r) \<noteq> None" for e r
    by (rule set_members_keeps_error) (simp add: first_error_def)
  show ?case using Cons x keep by (auto split: option.splits)
qed simp

lemma unknown_field_refused:
  assumes "\<forall>m \<in> set ms. utf8 (fst m) \<and> json_token (maxNestingDepth - 1) (snd m)"
    and "int (length (enc_object ms)) \<le> MaxBodyBytes c"
    and "m \<in> set ms" and "find_field fs (fst m) = None"
  shows "\<exists>e. read_as et (decode c fs zero (enc_object ms)) = Inl (et e)"
proof -
  have "fst (decode c fs zero (enc_object ms)) \<noteq> None"
    unfolding decode_enc [OF assms(1,2)] by (rule set_members_unknown [OF assms(3,4)])
  then show ?thesis by (auto simp: read_as_def)
qed

subsection \<open>Payloads of the SDK\<close>

text \<open>
  A payload as \<open>json.Marshal\<close> gives it, which marshalling it again leaves alone, nested at most as
  deep as the SDK reads back out of a claim response.
\<close>

definition sdk_payload :: "string \<Rightarrow> bool" where
  "sdk_payload p \<longleftrightarrow> json_token (maxNestingDepth - 3) p \<and> marshal_raw p = Some p"

lemma sdk_payloadD:
  assumes "sdk_payload p"
  shows "json_token (maxNestingDepth - 1) p" and "compact False p = p" and "p \<noteq> ''''"
proof -
  have "json_token (maxNestingDepth - 3) p" and m: "marshal_raw p = Some p" using assms by (simp_all add: sdk_payload_def)
  then show "json_token (maxNestingDepth - 1) p"
    using json_token_mono [of "maxNestingDepth - 3" p "maxNestingDepth - 1"] by (simp add: maxNestingDepth_def)
  show "p \<noteq> ''''" using \<open>json_token (maxNestingDepth - 3) p\<close> by (auto simp: json_token_def)
  show "compact False p = p" using m by (auto simp: marshal_raw_def split: option.splits if_splits)
qed

lemma sdk_payload_deep:
  assumes "0 < n" and "n \<le> maxNestingDepth - 3"
  shows "sdk_payload (deep n)"
proof -
  have "skip_space (deep n) = deep n" using assms(1) by (intro skip_space_id) (simp add: deep_def json_space_def)
  moreover have "n \<le> maxNestingDepth" using assms(2) by simp
  ultimately have "marshal_raw (deep n) = Some (deep n)" using json_value_deep_end [OF assms(1)]
    by (simp add: marshal_raw_def compact_deep skip_space_def)
  then show ?thesis using json_token_mono [OF token_deep [OF assms(1)] assms(2)] by (simp add: sdk_payload_def)
qed

lemma utf8_hex: "utf8 (hex_encode bs)"
proof -
  have "code (hex_digit n) < 128" if "n < 16" for n using that by (simp add: hex_digit_code)
  moreover have "unat b div 16 < 16" "unat b mod 16 < 16" for b :: "8 word"
    using unsigned_less [of b, where ?'a = nat] by simp_all
  ultimately have "\<forall>c \<in> set (hex_encode bs). code c < 128" by (induction bs) auto
  then show ?thesis by (rule utf8_ascii)
qed

lemma utf8_NewID: "NewID rnd = Inr jid \<Longrightarrow> utf8 jid"
  by (auto simp: NewID_def utf8_hex split: option.splits)

end
