(* ===== verification/Cogs_Serve.thy ===== *)
theory Cogs_Serve
  imports Wire_Laws
begin

section \<open>A whole HTTP request\<close>

text \<open>
  The composition the server makes: the mux chooses the endpoint, \<open>wrap\<close> checks the token and
  limits the body, \<open>decode\<close> reads it, the handler runs the store operation, and the response is
  written as JSON. \<open>serving\<close> holds what a request depends on besides the request: the clock, the
  random bytes, the fate of messages, and what other processes do in between.
\<close>

record request =
  rq_method :: string
  rq_path :: "string list"
  rq_query :: "string \<Rightarrow> string"
  rq_authorization :: string
  rq_body :: string

record 'db serving =
  sv_random :: "8 word list option"
  sv_now :: int
  sv_net :: net
  sv_start :: int
  sv_polls :: "'db poll list"
  sv_jitter :: nat
  sv_oor :: int
  sv_cron :: cron
  sv_created :: int
  sv_turns :: "'db turns"
  sv_ping :: "string option"
  sv_leader :: bool
  sv_json_text :: "json_error \<Rightarrow> string"

text \<open>
  The handler of an endpoint behind \<open>wrap\<close>; \<open>None\<close> when a claim still waits at the end of its
  rounds. The commands of the statistics pipeline see the database between the first turns.
\<close>

fun endpoint_handler ::
  "'db redis \<Rightarrow> config \<Rightarrow> 'db serving \<Rightarrow> request \<Rightarrow> endpoint \<Rightarrow> 'db \<Rightarrow> (response outcome \<times> updates \<times> 'db) option" where
  "endpoint_handler R c sv rq EpEnqueue d =
     Some (handled (handleEnqueue R c (sv_random sv) (sv_now sv) (sv_net sv)
       (read_as (sv_json_text sv) (decode c enqueueRequest_fields zero_enqueue (rq_body rq)))) d)"
| "endpoint_handler R c sv rq EpClaim d =
     handleClaim R c (sv_start sv) (sv_polls sv)
       (read_as (sv_json_text sv) (decode c claimRequest_fields zero_claim (rq_body rq))) d"
| "endpoint_handler R c sv rq EpAckBatch d =
     Some (handled (handleAckBatch R (sv_net sv)
       (read_as (sv_json_text sv) (decode c ackBatchRequest_fields zero_ackBatch (rq_body rq)))) d)"
| "endpoint_handler R c sv rq (EpRenew jid) d =
     Some (handled (handleRenew R c (sv_now sv) (sv_net sv) jid (rq_query rq ''queue'')
       (snd (decode c queue_body_fields '''' (rq_body rq)))) d)"
| "endpoint_handler R c sv rq (EpAck jid) d =
     Some (handled (handleAck R (sv_net sv) jid (rq_query rq ''queue'')
       (snd (decode c queue_body_fields '''' (rq_body rq)))) d)"
| "endpoint_handler R c sv rq (EpFail jid) d =
     Some (handled (handleFail R c (sv_now sv) (sv_jitter sv) (sv_oor sv) (sv_net sv) jid
       (read_as (sv_json_text sv) (decode c failRequest_fields zero_fail (rq_body rq)))) d)"
| "endpoint_handler R c sv rq (EpGetJob jid) d = Some (handled (handleGetJob R (sv_net sv) jid) d)"
| "endpoint_handler R c sv rq EpCreateSchedule d =
     Some (handled (handleCreateSchedule R (sv_cron sv) (sv_random sv) (sv_now sv) (sv_created sv) (sv_net sv)
       (read_as (sv_json_text sv) (decode c createScheduleRequest_fields zero_createSchedule (rq_body rq)))) d)"
| "endpoint_handler R c sv rq EpListSchedules d = Some (handled (handleListSchedules R (sv_net sv) (sv_turns sv)) d)"
| "endpoint_handler R c sv rq (EpDeleteSchedule sid) d = Some (handled (handleDeleteSchedule R (sv_net sv) sid) d)"
| "endpoint_handler R c sv rq (EpStats name) d =
     Some (handled (\<lambda>d. let d2 = snd (sv_turns sv 0) d; d3 = snd (sv_turns sv 1) d2; d4 = snd (sv_turns sv 2) d3
       in handleStats R (sv_net sv) name d d2 d3 d4) d)"
| "endpoint_handler R c sv rq EpDead d =
     Some (handled (handleDead R (sv_net sv) (rq_query rq ''queue'') (rq_query rq ''limit'')) d)"
| "endpoint_handler R c sv rq EpHealthz d = Some (Return healthz, [], d)"
| "endpoint_handler R c sv rq EpReadyz d = Some (Return (readyz (sv_ping sv) (sv_leader sv)), [], d)"
| "endpoint_handler R c sv rq EpMetrics d = None"

text \<open>
  What the client gets: the mux's own answer to an unknown route, the page of the metrics
  library's handler, or the outcome of a handler of the program.
\<close>

datatype served = NotRouted | MetricsPage | Served "response outcome"

definition serve ::
  "'db redis \<Rightarrow> config \<Rightarrow> 'db serving \<Rightarrow> request \<Rightarrow> 'db \<Rightarrow> (served \<times> updates \<times> 'db) option" where
  "serve R c sv rq d =
     (case Routes (rq_method rq) (rq_path rq) of
        None \<Rightarrow> Some (NotRouted, [], d)
      | Some ep \<Rightarrow>
          if ep = EpMetrics then Some (MetricsPage, [], d)
          else (case wrapped_as ep of
              None \<Rightarrow> map_option (\<lambda>(r, us, d'). (Served r, us, d')) (endpoint_handler R c sv rq ep d)
            | Some name \<Rightarrow>
                if authorized c (rq_authorization rq) \<and> endpoint_handler R c sv rq ep d = None then None
                else (case wrap c name (\<lambda>d. the (endpoint_handler R c sv rq ep d)) (rq_authorization rq) d of
                    (r, us, d') \<Rightarrow> Some (Served r, us, d'))))"

text \<open>The status and the text on the wire.\<close>

fun wire_response :: "response \<Rightarrow> (int \<times> string) option" where
  "wire_response (Response st b) = Some (st, writeJSON b)"
| "wire_response ClientGone = None"

subsection \<open>Every request keeps every job in one place\<close>

text \<open>The turns of other processes are steps of the system, and a new identifier is not in use.\<close>

definition lawful_serving_by :: "(string \<Rightarrow> bool) \<Rightarrow> 'db redis \<Rightarrow> config \<Rightarrow> 'db serving \<Rightarrow> 'db \<Rightarrow> bool" where
  "lawful_serving_by ok R c sv d \<longleftrightarrow>
     lawful_by ok R c (sv_turns sv) \<and> (\<forall>p \<in> set (sv_polls sv). lawful_by ok R c (poll_turns p))
     \<and> (case NewID (sv_random sv) of Inl _ \<Rightarrow> True | Inr jid \<Rightarrow> jid \<notin> live (view R d))"

abbreviation lawful_serving :: "'db redis \<Rightarrow> config \<Rightarrow> 'db serving \<Rightarrow> 'db \<Rightarrow> bool" where
  "lawful_serving \<equiv> lawful_serving_by (\<lambda>_. True)"

text \<open>
  \<open>stored ok p\<close>: what is stored for the payload \<open>p\<close> satisfies \<open>ok\<close>; \<open>stores ok c b\<close>: so do the
  payloads the server decodes from the body \<open>b\<close>.
\<close>

definition stored :: "(string \<Rightarrow> bool) \<Rightarrow> string \<Rightarrow> bool" where
  "stored ok p \<longleftrightarrow> ok (if p = '''' then ''null'' else p)"

definition stores :: "(string \<Rightarrow> bool) \<Rightarrow> config \<Rightarrow> string \<Rightarrow> bool" where
  "stores ok c b \<longleftrightarrow>
     (\<forall>et r. read_as et (decode c enqueueRequest_fields zero_enqueue b) = Inr r \<longrightarrow> stored ok (Enq_Payload r))
     \<and> (\<forall>et r. read_as et (decode c createScheduleRequest_fields zero_createSchedule b) = Inr r \<longrightarrow> stored ok (CS_Payload r))"

lemma stores_any [simp]: "stores (\<lambda>_. True) c b"
  by (simp add: stores_def stored_def)

declare reaches_refl [simp]

lemma Enqueue_reaches:
  assumes "case NewID rnd of Inl _ \<Rightarrow> True | Inr jid \<Rightarrow> jid \<notin> live (view R d)" and "stored ok p"
  shows "reaches_by ok R c d (snd (Enqueue R c rnd now net q p idem d))"
proof (cases "NewID rnd")
  case (Inr jid)
  let ?p = "if p = '''' then ''null'' else p"
  have "reaches_by ok R c d (snd (roundtrip net (enqueueScript R (jobKey jid) (pendingKey q) (idemKey idem) jid ?p q
      (itoa now) idem (window_seconds c)) d))"
    by (rule roundtrip_reaches [where x = "OpEnqueue jid ?p q (itoa now) idem (window_seconds c)"])
      (use assms Inr in \<open>simp_all add: stored_def\<close>)
  then show ?thesis using Inr by (auto simp: Enqueue_def Let_def split_beta split: sum.splits)
qed (auto simp: Enqueue_def)

lemma Renew_reaches: "reaches_by ok R c d (snd (Renew R c now net q jid d))"
proof -
  have "reaches_by ok R c d (snd (roundtrip net (renewScript R (leasedKey q) jid (lease_deadline c now)) d))"
    by (rule roundtrip_reaches [where x = "OpRenew q jid (lease_deadline c now)"]) simp_all
  then show ?thesis by (auto simp: Renew_def Let_def split_beta split: sum.splits)
qed

lemma Ack_reaches: "reaches_by ok R c d (snd (Ack R net q ids d))"
proof -
  have "reaches_by ok R c d (snd (roundtrip net (ackScript R (leasedKey q) ids) d))"
    by (rule roundtrip_reaches [where x = "OpAck q ids"]) simp_all
  then show ?thesis by (auto simp: Ack_def split_beta split: sum.splits)
qed

lemma Fail_reaches: "reaches_by ok R c d (snd (Fail R c now rnd oor net q jid attempt d))"
proof -
  have "reaches_by ok R c d (snd (roundtrip net (failScript R (leasedKey q) (retryKey q) (deadKey q) jid
      (retry_at c now attempt rnd oor) (MaxRetries c)) d))"
    by (rule roundtrip_reaches [where x = "OpFail q jid (retry_at c now attempt rnd oor)"]) simp_all
  then show ?thesis by (auto simp: Fail_def Let_def split_beta split: sum.splits)
qed

lemma Create_reaches:
  assumes "stored ok p"
  shows "reaches_by ok R c d (snd (Create R cron rnd now created net q spec p d))"
proof -
  let ?f = "\<lambda>nxt sid pl t d. (Inr () :: string + unit, r_zadd R schedulesKey nxt sid
      (r_hset R (scheduleKey sid) (schedule_fields q spec pl t) d))"
  have one: "reaches_by ok R c d (snd (roundtrip net (?f nxt sid (if p = '''' then ''null'' else p) t) d))" for nxt sid t
    by (rule roundtrip_reaches [where x = "OpCreateSchedule sid q spec (if p = '''' then ''null'' else p) t nxt"])
      (use assms in \<open>simp_all add: stored_def\<close>)
  show ?thesis
  proof (cases "cron spec")
    case (Inr sched)
    then show ?thesis
    proof (cases "NewID rnd")
      case sid: (Inr sid)
      obtain res d' where r: "roundtrip net (?f (unix_milli (sched now)) sid (if p = '''' then ''null'' else p) (itoa created)) d = (res, d')"
        by (rule prod.exhaust)
      have "snd (Create R cron rnd now created net q spec p d) = d'"
        using Inr sid r by (cases res) (simp_all add: Create_def Let_def)
      then show ?thesis using one r by (metis snd_conv)
    qed (simp add: Create_def Inr)
  qed (simp add: Create_def)
qed

lemma Delete_reaches: "reaches_by ok R c d (snd (Delete R net sid d))"
proof -
  let ?trip = "roundtrip net (\<lambda>d. (Inr () :: string + unit, snd (r_del R (scheduleKey sid) (snd (r_zrem R schedulesKey sid d))))) d"
  have one: "reaches_by ok R c d (snd ?trip)"
    by (rule roundtrip_reaches [where x = "OpDeleteSchedule sid"]) simp_all
  obtain res d' where r: "?trip = (res, d')" by (rule prod.exhaust)
  then have "snd (Delete R net sid d) = d'" by (cases res) (simp_all add: Delete_def split: unit.split)
  then show ?thesis using one r by (metis snd_conv)
qed

lemma list_entries_reaches: "lawful_by ok R c turns \<Longrightarrow> reaches_by ok R c d (snd (list_entries R turns es d))"
proof (induction es arbitrary: turns d)
  case (Cons e es)
  obtain sid score where e: "e = (sid, score)" by (cases e)
  have "reaches_by ok R c d (snd (list_entries R (next_turns turns) es (snd (turns 0) d)))"
    by (rule reaches_trans [OF lawful_turn [OF Cons.prems] Cons.IH [OF lawful_next [OF Cons.prems]]])
  then show ?case using e by (auto simp: Let_def split_beta split: sum.splits)
qed auto

lemma List_reaches: "lawful_by ok R c turns \<Longrightarrow> reaches_by ok R c d (snd (List R net turns d))"
  using list_entries_reaches [of ok R c turns d] by (auto simp: List_def split_beta split: sum.splits)

lemma handled_state: "handled h d = (r, us, d') \<Longrightarrow> d' = snd (snd (h d))"
  by (auto simp: handled_def split: prod.splits)

lemma endpoint_handler_reaches:
  assumes sv: "lawful_serving_by ok R c sv d" and bd: "stores ok c (rq_body rq)" and h: "endpoint_handler R c sv rq ep d = Some (r, us, d')"
  shows "reaches_by ok R c d d'"
proof -
  have t: "lawful_by ok R c (sv_turns sv)" and p: "\<forall>p \<in> set (sv_polls sv). lawful_by ok R c (poll_turns p)"
    and i: "case NewID (sv_random sv) of Inl _ \<Rightarrow> True | Inr jid \<Rightarrow> jid \<notin> live (view R d)"
    using sv by (simp_all add: lawful_serving_by_def)
  have st: "reaches_by ok R c d (snd (sv_turns sv 2) (snd (sv_turns sv 1) (snd (sv_turns sv 0) d)))"
    using lawful_turn [OF t] by (blast intro: reaches_trans)
  show ?thesis
  proof (cases ep)
    case EpEnqueue
    then show ?thesis using h Enqueue_reaches [OF i] bd
      by (auto simp: handleEnqueue_def stores_def split_beta split: sum.splits if_splits dest!: handled_state)
  next
    case EpClaim
    then show ?thesis using h handleClaim_reaches [OF p] by simp
  next
    case EpAckBatch
    then show ?thesis using h Ack_reaches
      by (auto simp: handleAckBatch_def split_beta split: sum.splits if_splits dest!: handled_state)
  next
    case (EpRenew jid)
    then show ?thesis using h Renew_reaches
      by (auto simp: handleRenew_def Let_def split_beta split: sum.splits error.splits if_splits dest!: handled_state)
  next
    case (EpAck jid)
    then show ?thesis using h Ack_reaches
      by (auto simp: handleAck_def Let_def split_beta split: sum.splits if_splits dest!: handled_state)
  next
    case (EpFail jid)
    then show ?thesis using h Fail_reaches
      by (auto simp: handleFail_def split_beta split: sum.splits error.splits if_splits dest!: handled_state)
  next
    case (EpGetJob jid)
    then show ?thesis using h
      by (auto simp: handleGetJob_def split: sum.splits error.splits dest!: handled_state)
  next
    case EpCreateSchedule
    then show ?thesis using h bd
      by (auto simp: handleCreateSchedule_def stores_def split_beta split: sum.splits if_splits
          dest!: handled_state intro!: Create_reaches)
  next
    case EpListSchedules
    then show ?thesis using h List_reaches [OF t]
      by (auto simp: handleListSchedules_def split_beta split: sum.splits dest!: handled_state)
  next
    case (EpDeleteSchedule sid)
    then show ?thesis using h Delete_reaches
      by (auto simp: handleDeleteSchedule_def split_beta split: option.splits dest!: handled_state)
  next
    case (EpStats name)
    then show ?thesis using h st
      by (auto simp: handleStats_def Let_def split: sum.splits if_splits dest!: handled_state)
  next
    case EpDead
    then show ?thesis using h
      by (auto simp: handleDead_def split: sum.splits if_splits dest!: handled_state)
  qed (use h in auto)
qed

lemma serve_reaches:
  assumes "lawful_serving_by ok R c sv d" and "stores ok c (rq_body rq)" and "serve R c sv rq d = Some (r, us, d')"
  shows "reaches_by ok R c d d'"
proof (cases "Routes (rq_method rq) (rq_path rq)")
  case (Some ep)
  have one: "reaches_by ok R c d e" if "endpoint_handler R c sv rq ep d = Some (o', us', e)" for o' us' e
    by (rule endpoint_handler_reaches [OF assms(1,2) that])
  show ?thesis using assms(3) Some one
    by (auto simp: serve_def wrap_def split: if_splits option.splits prod.splits outcome.splits)
qed (use assms(3) in \<open>auto simp: serve_def\<close>)

subsection \<open>From one SDK to another\<close>

text \<open>The request \<open>do\<close> builds.\<close>

definition sdk_request :: "string \<Rightarrow> string list \<Rightarrow> string \<Rightarrow> request" where
  "sdk_request token path payload =
     \<lparr>rq_method = ''POST'', rq_path = path, rq_query = (\<lambda>_. ''''),
      rq_authorization = (case client_auth token of None \<Rightarrow> '''' | Some h \<Rightarrow> h), rq_body = payload\<rparr>"

lemma serve_sdk:
  assumes "Routes ''POST'' path = Some ep" and "wrapped_as ep = Some name"
    and "endpoint_handler R c sv (sdk_request (AuthToken c) path payload) ep d = Some (Return r, us, d')"
  shows "serve R c sv (sdk_request (AuthToken c) path payload) d
    = Some (Served (Return r), us @ [(RequestDuration name (itoa (status_of r)), 1)], d')"
proof -
  have "authorized c (rq_authorization (sdk_request (AuthToken c) path payload))"
    using client_auth_accepted [of c] by (simp add: sdk_request_def)
  then show ?thesis using assms by (auto simp: serve_def wrap_def sdk_request_def split: option.splits)
qed

lemma sdk_routes:
  "Routes ''POST'' [''v1'', ''jobs''] = Some EpEnqueue" "wrapped_as EpEnqueue = Some ''enqueue''"
  "Routes ''POST'' [''v1'', ''jobs'', ''claim''] = Some EpClaim" "wrapped_as EpClaim = Some ''claim''"
  by (simp_all add: Routes_def)

lemma lease_ms_range:
  assumes "0 \<le> LeaseTTL c" and "LeaseTTL c < 2 ^ 63"
  shows "- (2 ^ 63) \<le> milliseconds (LeaseTTL c) \<and> milliseconds (LeaseTTL c) < 2 ^ 63"
proof -
  have "milliseconds (LeaseTTL c) = LeaseTTL c div 1000000" by (rule milliseconds_nonneg [OF assms(1)])
  moreover have "0 \<le> LeaseTTL c div 1000000" using assms(1) by simp
  moreover have "LeaseTTL c div 1000000 \<le> LeaseTTL c" using assms(1) by simp
  ultimately show ?thesis using assms by linarith
qed

lemma heartbeat_range: "heartbeat_every c = Some hb \<Longrightarrow> - (2 ^ 63) \<le> hb \<and> hb < 2 ^ 63"
  using i64_range by (auto simp: heartbeat_every_def split: if_splits)

context redis_db
begin

text \<open>
  What one SDK enqueues the next claim of another gives its worker: both requests over the wire,
  through the mux, the token check, the decoders, the handlers and the scripts, and back.
\<close>

lemma sdk_enqueue:
  assumes q: "ValidQueueName q" "utf8 q" and p: "sdk_payload p"
    and id: "NewID (sv_random sv) = Inr jid" "jid \<notin> live (view R d)" and net: "sv_net sv = Delivered"
    and len: "int (length (client_enqueue_body q p '''')) \<le> MaxBodyBytes c"
  shows "\<exists>us d1. serve R c sv (sdk_request (AuthToken c) [''v1'', ''jobs''] (client_enqueue_body q p '''')) d
      = Some (Served (Return (Response 201 (EnqueueBody jid q True))), us, d1)
    \<and> client_Enqueue (enqueue_exchange et 201 (writeJSON (EnqueueBody jid q True))) = Inr (Some (jid, q, True))
    \<and> view R d1 = a_enqueue jid p q (itoa (sv_now sv)) '''' (view R d)"
proof -
  have body: "decode c enqueueRequest_fields zero_enqueue (client_enqueue_body q p '''')
      = (None, \<lparr>Enq_Queue = q, Enq_Payload = p, Enq_IdempotencyKey = ''''\<rparr>)"
    by (rule enqueue_body_decodes [OF q(2) utf8_Nil sdk_payloadD(1,2) [OF p] len])
  obtain d1 where enq: "Enqueue R c (sv_random sv) (sv_now sv) Delivered q p '''' d = (Inr (jid, True), d1)"
    and v: "view R d1 = a_enqueue jid p q (itoa (sv_now sv)) '''' (view R d)"
    using Enqueue_delivered [OF id, of "''''" c "sv_now sv" q p] sdk_payloadD(3) [OF p] by (auto simp: a_enqueue_req_def)
  have "endpoint_handler R c sv (sdk_request (AuthToken c) [''v1'', ''jobs''] (client_enqueue_body q p '''')) EpEnqueue d
      = Some (Return (Response 201 (EnqueueBody jid q True)), [(JobsEnqueued q, 1)], d1)"
    using body enq q(1) net by (simp add: sdk_request_def read_as_def handled_def handleEnqueue_def)
  from serve_sdk [OF sdk_routes(1,2) this] have "\<exists>us. serve R c sv (sdk_request (AuthToken c) [''v1'', ''jobs''] (client_enqueue_body q p '''')) d
      = Some (Served (Return (Response 201 (EnqueueBody jid q True))), us, d1)"
    by blast
  moreover have "client_Enqueue (enqueue_exchange et 201 (writeJSON (EnqueueBody jid q True))) = Inr (Some (jid, q, True))"
    using enqueue_response_decodes [OF utf8_NewID [OF id(1)] q(2), of et 201 True]
    by (simp add: client_Enqueue_def client_do_def)
  ultimately show ?thesis using v by blast
qed

lemma sdk_claim:
  assumes q: "ValidQueueName q" "utf8 q" and r: "Claim_Queues r = [q]" "utf8 (Claim_WorkerID r)"
      "- (2 ^ 63) \<le> Claim_Batch r" "Claim_Batch r < 2 ^ 63" "- (2 ^ 63) \<le> Claim_WaitMS r" "Claim_WaitMS r < 2 ^ 63"
      "int (length (client_claim_body r)) \<le> MaxBodyBytes c"
    and c: "0 < MaxClaimBatch c" "heartbeat_every c = Some hb" "0 \<le> LeaseTTL c" "LeaseTTL c < 2 ^ 63"
    and poll: "sv_polls sv = poll # polls" "poll_turns poll = quiet"
    and pend: "list_at (view R d) (pendingKey q) = [j]"
    and job: "job_on_wire (maxNestingDepth - 3) (claimed_job (view R d) (lease_deadline c (poll_now poll)) q j)"
  shows "\<exists>us d2. let b = ClaimBody [claimed_job (view R d) (lease_deadline c (poll_now poll)) q j] (milliseconds (LeaseTTL c)) hb in
      serve R c sv (sdk_request (AuthToken c) [''v1'', ''jobs'', ''claim''] (client_claim_body r)) d
        = Some (Served (Return (Response 200 b)), us, d2)
      \<and> client_Claim (claim_exchange et 200 (writeJSON b))
        = Inr (Some \<lparr>CR_Jobs = [claimed_job (view R d) (lease_deadline c (poll_now poll)) q j],
             CR_LeaseTTLMS = milliseconds (LeaseTTL c), CR_HeartbeatEveryMS = hb\<rparr>)"
proof -
  let ?j = "claimed_job (view R d) (lease_deadline c (poll_now poll)) q j"
  have body: "decode c claimRequest_fields zero_claim (client_claim_body r) = (None, r)"
    by (rule claim_body_decodes) (use q r in simp_all)
  have "offered (view R d) [q] = [(q, j)]" using pend by (simp add: offered_def)
  moreover have "0 < clamp_batch c (Claim_Batch r)" using c(1) by (simp add: clamp_batch_def Let_def)
  ultimately obtain d2 where claim: "Claim R c (poll_now poll) quiet [q] (Claim_Batch r) d = (Return (Inr [?j]), d2)"
    using Claim_quiet [of "[q]" c "poll_now poll" "Claim_Batch r" d] c(1) by auto
  obtain us where "endpoint_handler R c sv (sdk_request (AuthToken c) [''v1'', ''jobs'', ''claim''] (client_claim_body r)) EpClaim d
      = Some (Return (Response 200 (ClaimBody [?j] (milliseconds (LeaseTTL c)) hb)), us, d2)"
    using body claim q(1) r(1) c(2) poll
    by (simp add: sdk_request_def read_as_def handleClaim_def Let_def)
  from serve_sdk [OF sdk_routes(3,4) this] have "\<exists>us. serve R c sv (sdk_request (AuthToken c) [''v1'', ''jobs'', ''claim''] (client_claim_body r)) d
      = Some (Served (Return (Response 200 (ClaimBody [?j] (milliseconds (LeaseTTL c)) hb))), us, d2)"
    by blast
  moreover have "client_Claim (claim_exchange et 200 (writeJSON (ClaimBody [?j] (milliseconds (LeaseTTL c)) hb)))
      = Inr (Some \<lparr>CR_Jobs = [?j], CR_LeaseTTLMS = milliseconds (LeaseTTL c), CR_HeartbeatEveryMS = hb\<rparr>)"
  proof -
    have "sdk_job ?j = ?j" by (simp add: sdk_job_def claimed_job_def)
    then show ?thesis
      using claim_response_decodes [of "[?j]" "milliseconds (LeaseTTL c)" hb et] job heartbeat_range [OF c(2)] lease_ms_range [OF c(3,4)]
      by (simp add: client_Claim_def client_do_def)
  qed
  ultimately show ?thesis by (auto simp: Let_def)
qed

lemma sdk_enqueue_claim:
  assumes q: "ValidQueueName q" "utf8 q" and p: "sdk_payload p"
    and id: "NewID (sv_random sv) = Inr jid" "jid \<notin> live (view R d)" and net: "sv_net sv = Delivered"
    and len: "int (length (client_enqueue_body q p '''')) \<le> MaxBodyBytes c"
    and r: "Claim_Queues r = [q]" "utf8 (Claim_WorkerID r)"
      "- (2 ^ 63) \<le> Claim_Batch r" "Claim_Batch r < 2 ^ 63" "- (2 ^ 63) \<le> Claim_WaitMS r" "Claim_WaitMS r < 2 ^ 63"
      "int (length (client_claim_body r)) \<le> MaxBodyBytes c"
    and c: "0 < MaxClaimBatch c" "heartbeat_every c = Some hb" "0 \<le> LeaseTTL c" "LeaseTTL c < 2 ^ 63"
    and poll: "sv_polls sw = poll # polls" "poll_turns poll = quiet"
    and pend: "list_at (view R d) (pendingKey q) = []"
  shows "\<exists>us d1 us' b d2.
      serve R c sv (sdk_request (AuthToken c) [''v1'', ''jobs''] (client_enqueue_body q p '''')) d
        = Some (Served (Return (Response 201 (EnqueueBody jid q True))), us, d1)
      \<and> client_Enqueue (enqueue_exchange et 201 (writeJSON (EnqueueBody jid q True))) = Inr (Some (jid, q, True))
      \<and> serve R c sw (sdk_request (AuthToken c) [''v1'', ''jobs'', ''claim''] (client_claim_body r)) d1
        = Some (Served (Return (Response 200 b)), us', d2)
      \<and> client_Claim (claim_exchange et 200 (writeJSON b)) = Inr (Some
          \<lparr>CR_Jobs = [\<lparr>Job_ID = jid, Job_Queue = q, Job_Payload = p, Job_Attempts = 0, Job_IdempotencyKey = '''',
                        Job_CreatedAt = 0, Job_LeaseDeadline = lease_deadline c (poll_now poll)\<rparr>],
           CR_LeaseTTLMS = milliseconds (LeaseTTL c), CR_HeartbeatEveryMS = hb\<rparr>)"
proof -
  obtain us d1 where enq: "serve R c sv (sdk_request (AuthToken c) [''v1'', ''jobs''] (client_enqueue_body q p '''')) d
      = Some (Served (Return (Response 201 (EnqueueBody jid q True))), us, d1)"
    and sdk: "client_Enqueue (enqueue_exchange et 201 (writeJSON (EnqueueBody jid q True))) = Inr (Some (jid, q, True))"
    and v: "view R d1 = a_enqueue jid p q (itoa (sv_now sv)) '''' (view R d)"
    using sdk_enqueue [OF q p id net len] by blast
  let ?j = "\<lparr>Job_ID = jid, Job_Queue = q, Job_Payload = p, Job_Attempts = 0, Job_IdempotencyKey = '''',
      Job_CreatedAt = 0, Job_LeaseDeadline = lease_deadline c (poll_now poll)\<rparr>"
  have j: "claimed_job (view R d1) (lease_deadline c (poll_now poll)) q jid = ?j"
    unfolding v using parse_int_itoa [of 0]
    by (simp add: claimed_job_def a_enqueue_def job_hash_def job_attempts_def cogs_simps)
  have "list_at (view R d1) (pendingKey q) = [jid]" unfolding v using pend by (simp add: a_enqueue_def cogs_simps)
  moreover have "- (2 ^ 63) \<le> lease_deadline c (poll_now poll) \<and> lease_deadline c (poll_now poll) < 2 ^ 63"
    using i64_range by (simp only: lease_deadline_def)
  then have "job_on_wire (maxNestingDepth - 3) ?j"
    using p q utf8_NewID [OF id(1)] by (simp add: job_on_wire_def sdk_payload_def)
  ultimately obtain us' d2 where "serve R c sw (sdk_request (AuthToken c) [''v1'', ''jobs'', ''claim''] (client_claim_body r)) d1
        = Some (Served (Return (Response 200 (ClaimBody [?j] (milliseconds (LeaseTTL c)) hb))), us', d2)"
    and "client_Claim (claim_exchange et 200 (writeJSON (ClaimBody [?j] (milliseconds (LeaseTTL c)) hb)))
        = Inr (Some \<lparr>CR_Jobs = [?j], CR_LeaseTTLMS = milliseconds (LeaseTTL c), CR_HeartbeatEveryMS = hb\<rparr>)"
    using sdk_claim [OF q r c poll, of d1 jid et] unfolding j Let_def by blast
  with enq sdk show ?thesis by blast
qed

end

end
