(* ===== verification/Json_Texts.thy ===== *)
theory Json_Texts
  imports Go_Json
begin

section \<open>The text of a value stands on its own\<close>

text \<open>
  The scanner reads a value out of a longer text and hands its text on as it is (a \<open>RawMessage\<close>).
  Here: that text alone, and followed by anything that ends a value, scans as the same value, so
  what the decoder stores is JSON again when it is marshalled.
\<close>

text \<open>What may follow a value: the end, white space, a comma or a closing bracket.\<close>

definition ends_value :: "string \<Rightarrow> bool" where
  "ends_value u \<longleftrightarrow> u = [] \<or> json_space (hd u) \<or> hd u \<in> {CHR '','', CHR ''}'', CHR '']''}"

subsection \<open>White space\<close>

lemma skip_space_split: "\<exists>w. s = w @ skip_space s \<and> (\<forall>c \<in> set w. json_space c)"
proof -
  have "s = takeWhile json_space s @ skip_space s" by (simp add: skip_space_def)
  moreover have "\<forall>c \<in> set (takeWhile json_space s). json_space c" by (auto dest: set_takeWhileD)
  ultimately show ?thesis by blast
qed

lemma skip_space_append: "\<forall>c \<in> set w. json_space c \<Longrightarrow> skip_space (w @ s) = skip_space s"
  by (induction w) (simp_all add: skip_space_def)

lemma skip_space_stop: "skip_space s = c # r \<Longrightarrow> \<not> json_space c"
  using hd_dropWhile [of json_space s] by (auto simp: skip_space_def)

text \<open>A text up to its first character that is not white space, and any continuation.\<close>

lemma skip_space_local:
  assumes "skip_space s = c # r"
  obtains w where "s = w @ c # r" and "\<And>u. skip_space (w @ c # u) = c # u"
proof -
  obtain w where w: "s = w @ c # r" "\<forall>x \<in> set w. json_space x" using skip_space_split [of s] assms by auto
  have "skip_space (w @ c # u) = c # u" for u
    using skip_space_append [OF w(2)] skip_space_stop [OF assms] by (simp add: skip_space_def)
  with w(1) show ?thesis using that by blast
qed

subsection \<open>Strings\<close>

lemma rune_len_local:
  assumes "rune_len (t @ y) = 0" and "t \<noteq> []" and "code (last t) < 128"
  shows "rune_len (t @ u) = 0"
proof (rule ccontr)
  assume n: "rune_len (t @ u) \<noteq> 0"
  let ?n = "rune_len (t @ u)"
  obtain b r where t: "t = b # r" using assms(2) by (cases t) auto
  have need: "?n = rune_need b" and cont: "list_all continuation (take (?n - 1) (r @ u))"
    using n t by (auto simp: rune_len.simps Let_def split: if_splits)
  show False
  proof (cases "?n \<le> length t")
    case True
    have "take ?n (t @ u) = take ?n t" using True by simp
    with rune_len_take [OF refl n, of "drop ?n t @ y"] have "rune_len (take ?n t @ drop ?n t @ y) = ?n" by (simp only:)
    then show False using assms(1) n by (simp only: append_assoc [symmetric] append_take_drop_id)
  next
    case False
    then have r: "take (?n - 1) (r @ u) = r @ take (?n - 1 - length r) u" using t by simp
    show False
    proof (cases "r = []")
      case True
      then have "code b < 128" using assms(3) t by simp
      then have "rune_len (t @ y) = 1" using t by (simp add: rune_len_ascii)
      then show False using assms(1) by simp
    next
      case nonempty: False
      then have "continuation (last r)" using cont r by (simp add: list_all_iff)
      then show False using assms(3) t nonempty by (simp add: continuation_def)
    qed
  qed
qed

lemma rune_len_same:
  assumes "rune_len (t @ y) = n" and "n \<noteq> 0" and "n \<le> length t"
  shows "rune_len (t @ u) = n"
proof -
  have "take n (t @ y) = take n t" using assms(3) by simp
  with rune_len_take [OF assms(1,2), of "drop n t @ u"] have "rune_len (take n t @ drop n t @ u) = n" by (simp only:)
  then show ?thesis by (simp only: append_assoc [symmetric] append_take_drop_id)
qed

lemma hex4_local: "hex4 s = Some (n, r) \<Longrightarrow> \<exists>w. s = w @ r \<and> length w = 4 \<and> (\<forall>u. hex4 (w @ u) = Some (n, u))"
  unfolding hex4_def by (auto split: list.splits option.splits)

text \<open>
  An escape looks beyond itself only for the second half of a surrogate pair, six characters that
  a string which ends later has, too.
\<close>

lemma unicode_escape_local:
  assumes "unicode_escape s = Some (out, t' @ y)"
    and long: "take 2 (t' @ y) = [CHR 0x5C, CHR ''u''] \<Longrightarrow> 6 \<le> length t'" and "t' \<noteq> []" "hd t' \<noteq> CHR 0x5C \<or> 2 \<le> length t'"
  shows "\<exists>w. s = w @ t' @ y \<and> (\<forall>u. unicode_escape (w @ t' @ u) = Some (out, t' @ u))"
proof -
  obtain n r where h: "hex4 s = Some (n, r)" using assms(1) by (auto simp: unicode_escape_def split: option.splits)
  obtain w where w: "s = w @ r" "\<And>u. hex4 (w @ u) = Some (n, u)" using hex4_local [OF h] by blast
  show ?thesis
  proof (cases "55296 \<le> n \<and> n \<le> 57343")
    case False
    then have "out = rune_bytes n" "r = t' @ y" using assms(1) h by (auto simp: unicode_escape_def)
    then show ?thesis using False w by (intro exI [of _ w]) (auto simp: unicode_escape_def)
  next
    case sur: True
    show ?thesis
    proof (cases "take 2 r = [CHR 0x5C, CHR ''u'']")
      case False
      then have eq: "out = replacement" "r = t' @ y" using assms(1) h sur by (auto simp: unicode_escape_def)
      have "take 2 (t' @ u) \<noteq> [CHR 0x5C, CHR ''u'']" for u
        using False eq(2) assms(3,4) by (cases t'; cases "tl t'") auto
      then show ?thesis using sur w eq by (intro exI [of _ w]) (auto simp: unicode_escape_def)
    next
      case True
      obtain q where q: "r = CHR 0x5C # CHR ''u'' # q" using True by (cases r; cases "tl r") auto
      show ?thesis
      proof (cases "\<exists>m r'. hex4 q = Some (m, r') \<and> n \<le> 56319 \<and> 56320 \<le> m \<and> m \<le> 57343")
        case pair: True
        then obtain m r' where m: "hex4 q = Some (m, r')" "n \<le> 56319" "56320 \<le> m" "m \<le> 57343" by blast
        obtain v where v: "q = v @ r'" "\<And>u. hex4 (v @ u) = Some (m, u)" using hex4_local [OF m(1)] by blast
        have "out = rune_bytes ((n - 55296) * 1024 + (m - 56320) + 65536)" "r' = t' @ y"
          using assms(1) h sur q m by (auto simp: unicode_escape_def)
        then show ?thesis using sur w v q m
          by (intro exI [of _ "w @ [CHR 0x5C, CHR ''u''] @ v"]) (auto simp: unicode_escape_def)
      next
        case lone: False
        then have eq: "out = replacement" "r = t' @ y"
          using assms(1) h sur q by (auto simp: unicode_escape_def split: option.splits if_splits)
        have "6 \<le> length t'" using long True eq(2) by simp
        then obtain a b c d t6 where t': "t' = CHR 0x5C # CHR ''u'' # a # b # c # d # t6"
          using True eq(2) q by (cases t' rule: list.exhaust; force simp: neq_Nil_conv Suc_le_length_iff numeral_eq_Suc)
        have same: "map_option fst (hex4 (a # b # c # d # x)) = map_option fst (hex4 (a # b # c # d # z))" for x z
          by (simp add: hex4_def split: option.splits)
        have qt: "q = a # b # c # d # t6 @ y" using q eq(2) t' by simp
        have no: "\<not> (\<exists>m r'. hex4 (a # b # c # d # t6 @ u) = Some (m, r') \<and> n \<le> 56319 \<and> 56320 \<le> m \<and> m \<le> 57343)" for u
        proof
          assume "\<exists>m r'. hex4 (a # b # c # d # t6 @ u) = Some (m, r') \<and> n \<le> 56319 \<and> 56320 \<le> m \<and> m \<le> 57343"
          then obtain m r' where m: "hex4 (a # b # c # d # t6 @ u) = Some (m, r')" "n \<le> 56319" "56320 \<le> m" "m \<le> 57343" by blast
          then have "map_option fst (hex4 q) = Some m" using same [of "t6 @ y" "t6 @ u"] qt by simp
          then show False using lone m by auto
        qed
        have "unicode_escape (w @ t' @ u) = Some (replacement, t' @ u)" for u
          using sur w t' no [of u] by (auto simp: unicode_escape_def split: option.splits)
        then show ?thesis using w eq by blast
      qed
    qed
  qed
qed

lemma hex4_length4: "hex4 q = Some x \<Longrightarrow> 4 \<le> length q"
  by (auto simp: hex4_def split: list.splits)

lemma json_string_unicode_long:
  assumes "json_string (CHR 0x5C # CHR ''u'' # q) = Some z"
  shows "4 \<le> length q"
proof -
  have "unescape (CHR ''u'' # q) \<noteq> None" using assms [unfolded json_string.simps [of "CHR 0x5C # CHR ''u'' # q"]]
    by (auto split: option.splits)
  then show ?thesis by (auto simp: unescape_def unicode_escape_def dest: hex4_length4 split: option.splits)
qed

lemma unescape_local:
  assumes "unescape r = Some (out, t' @ y)" and "t' \<noteq> []" and "last t' = CHR 0x22"
    and "json_string (t' @ []) = Some z"
  shows "\<exists>w. r = w @ t' @ y \<and> (\<forall>u. unescape (w @ t' @ u) = Some (out, t' @ u))"
proof -
  obtain c r2 where r: "r = c # r2" using assms(1) by (cases r) (auto simp: unescape_def)
  have two: "hd t' \<noteq> CHR 0x5C \<or> 2 \<le> length t'" using assms(2,3) by (cases t'; cases "tl t'") auto
  have long: "6 \<le> length t'" if uu: "take 2 (t' @ y) = [CHR 0x5C, CHR ''u'']"
  proof -
    obtain t2 where t2: "t' = CHR 0x5C # t2" using uu assms(2) by (cases t') (auto simp: take_Cons')
    then obtain q where "t2 = CHR ''u'' # q" using uu two by (cases t2) (auto simp: take_Cons')
    then show ?thesis using t2 json_string_unicode_long [of q z] assms(4) by simp
  qed
  show ?thesis
  proof (cases "c = CHR ''u''")
    case True
    then have "unicode_escape r2 = Some (out, t' @ y)" using assms(1) r by (simp add: unescape_def)
    then obtain w where "r2 = w @ t' @ y" "\<And>u. unicode_escape (w @ t' @ u) = Some (out, t' @ u)"
      using unicode_escape_local [OF _ long assms(2) two] by blast
    then show ?thesis using True r by (intro exI [of _ "c # w"]) (simp add: unescape_def)
  next
    case False
    then have "r2 = t' @ y" "\<And>u. unescape (c # t' @ u) = Some (out, t' @ u)"
      using assms(1) r by (auto simp: unescape_def split: if_splits)
    then show ?thesis using r by (intro exI [of _ "[c]"]) simp
  qed
qed

lemma json_string_local:
  "json_string s = Some (x, y) \<Longrightarrow>
   \<exists>t. s = t @ y \<and> t \<noteq> [] \<and> last t = CHR 0x22 \<and> (\<forall>u. json_string (t @ u) = Some (x, u))"
proof (induction s arbitrary: x rule: json_string.induct)
  case (1 s)
  obtain c r where s: "s = c # r" using "1.prems" by (cases s) (auto simp: json_string.simps [of "[]"])
  note unf = "1.prems" [unfolded json_string.simps [of s]]
  show ?case
  proof (cases "c = CHR 0x22")
    case True
    then have "x = []" "y = r" using unf s by auto
    moreover have "json_string ([c] @ u) = Some ([], u)" for u using True by (subst json_string.simps) simp
    ultimately show ?thesis using s True by (intro exI [of _ "[c]"]) simp
  next
    case q: False
    show ?thesis
    proof (cases "c = CHR 0x5C")
      case True
      then obtain out r' x' where u: "unescape r = Some (out, r')" and j: "json_string r' = Some (x', y)" and x: "x = out @ x'"
        using unf s by (auto split: option.splits)
      obtain t' where t': "r' = t' @ y" "t' \<noteq> []" "last t' = CHR 0x22" "\<And>u. json_string (t' @ u) = Some (x', u)"
        using "1.IH"(1) [OF s q True u refl j] by blast
      obtain w where w: "r = w @ t' @ y" "\<And>u. unescape (w @ t' @ u) = Some (out, t' @ u)"
        using unescape_local [OF _ t'(2,3) t'(4)] u t'(1) by blast
      have "json_string ((c # w @ t') @ u) = Some (x, u)" for u
        using True x w(2) t'(4) by (subst json_string.simps) simp
      then show ?thesis using s w t' by (intro exI [of _ "c # w @ t'"]) simp
    next
      case b: False
      then have ctl: "\<not> code c < 32" using unf s q by (auto split: if_splits)
      show ?thesis
      proof (cases "rune_len s = 0")
        case True
        then obtain x' where j: "json_string r = Some (x', y)" and x: "x = replacement @ x'"
          using unf s q b ctl by auto
        obtain t' where t': "r = t' @ y" "t' \<noteq> []" "last t' = CHR 0x22" "\<And>u. json_string (t' @ u) = Some (x', u)"
          using "1.IH"(2) [OF s q b ctl True j] by blast
        have "rune_len ((c # t') @ u) = 0" for u
          using rune_len_local [of "c # t'" y u] True s t' by simp
        then have "json_string ((c # t') @ u) = Some (x, u)" for u
          using q b ctl x t'(4) by (subst json_string.simps) simp
        then show ?thesis using s t' by (intro exI [of _ "c # t'"]) simp
      next
        case n: False
        let ?n = "rune_len s"
        obtain x' where j: "json_string (drop ?n s) = Some (x', y)" and x: "x = take ?n s @ x'"
          using unf s q b ctl n by auto
        obtain t' where t': "drop ?n s = t' @ y" "t' \<noteq> []" "last t' = CHR 0x22" "\<And>u. json_string (t' @ u) = Some (x', u)"
          using "1.IH"(3) [OF s q b ctl n j] by blast
        have hd: "\<forall>c \<in> {CHR 0x22, CHR 0x5C}. hd s \<noteq> c" "32 \<le> code (hd s)" using s q b ctl by simp_all
        have "json_string ((take ?n s @ t') @ u) = Some (x, u)" for u
          using json_string_copy [OF refl n hd, of "t' @ u"] t'(4) x by simp
        moreover have "s = (take ?n s @ t') @ y" using t'(1) by (metis append.assoc append_take_drop_id)
        ultimately show ?thesis using t'(2,3) by (intro exI [of _ "take ?n s @ t'"]) simp
      qed
    qed
  qed
qed

subsection \<open>Numbers and words\<close>

definition no_digit :: "string \<Rightarrow> bool" where
  "no_digit u \<longleftrightarrow> u = [] \<or> \<not> json_digit (hd u)"

lemma dropWhile_digits:
  "list_all json_digit t \<Longrightarrow> no_digit u \<Longrightarrow> dropWhile json_digit (t @ u) = u"
  by (induction t) (cases u; auto simp: no_digit_def)+

lemma digits_split: "\<exists>t. s = t @ dropWhile json_digit s \<and> list_all json_digit t"
  by (intro exI [of _ "takeWhile json_digit s"]) (auto simp: list_all_iff dest: set_takeWhileD)

lemma some_digits_local:
  assumes "some_digits s = Some r"
  shows "\<exists>t. s = t @ r \<and> t \<noteq> [] \<and> (\<forall>u. no_digit u \<longrightarrow> some_digits (t @ u) = Some u)"
proof -
  obtain c x where s: "s = c # x" "json_digit c" "r = dropWhile json_digit x"
    using assms by (auto simp: some_digits_def split: list.splits if_splits)
  obtain t where "x = t @ r" "list_all json_digit t" using digits_split [of x] s(3) by auto
  then show ?thesis using s(1,2) by (intro exI [of _ "c # t"]) (auto simp: some_digits_def dropWhile_digits)
qed

lemma json_fraction_local:
  assumes "json_fraction s = Some r"
  shows "\<exists>t. s = t @ r \<and> (t = [] \<or> hd t = CHR ''.'')
    \<and> (\<forall>u. no_digit u \<and> (u = [] \<or> hd u \<noteq> CHR ''.'') \<longrightarrow> json_fraction (t @ u) = Some u)"
proof (cases "s \<noteq> [] \<and> hd s = CHR ''.''")
  case True
  then obtain x where x: "s = CHR ''.'' # x" by (cases s) auto
  then have "some_digits x = Some r" using assms by (simp add: json_fraction_def)
  then obtain t where "x = t @ r" "\<And>u. no_digit u \<Longrightarrow> some_digits (t @ u) = Some u" using some_digits_local by blast
  then show ?thesis using x by (intro exI [of _ "CHR ''.'' # t"]) (simp add: json_fraction_def)
next
  case False
  then have "s = r" using assms by (auto simp: json_fraction_def split: list.splits if_splits)
  moreover have "json_fraction u = Some u" if "u = [] \<or> hd u \<noteq> CHR ''.''" for u
    using that by (cases u) (simp_all add: json_fraction_def)
  ultimately show ?thesis by (intro exI [of _ "[]"]) simp
qed

lemma ends_value_no_digit: "ends_value u \<Longrightarrow> no_digit u \<and> (u = [] \<or> hd u \<notin> {CHR ''.'', CHR ''e'', CHR ''E''})"
  by (auto simp: ends_value_def no_digit_def json_space_def json_digit_def)

lemma json_exponent_local:
  assumes "json_exponent s = Some r"
  shows "\<exists>t. s = t @ r \<and> (t = [] \<or> hd t \<in> {CHR ''e'', CHR ''E''}) \<and> (\<forall>u. ends_value u \<longrightarrow> json_exponent (t @ u) = Some u)"
proof (cases "s \<noteq> [] \<and> hd s \<in> {CHR ''e'', CHR ''E''}")
  case True
  then obtain c x where x: "s = c # x" "c \<in> {CHR ''e'', CHR ''E''}" by (cases s) auto
  define sgn where "sgn = (if x \<noteq> [] \<and> (hd x = CHR ''+'' \<or> hd x = CHR ''-'') then [hd x] else [])"
  define y where "y = (if x \<noteq> [] \<and> (hd x = CHR ''+'' \<or> hd x = CHR ''-'') then tl x else x)"
  have xy: "x = sgn @ y" by (simp add: sgn_def y_def)
  have d: "some_digits y = Some r" using assms x by (auto simp: json_exponent_def y_def)
  then obtain t where t: "y = t @ r" "t \<noteq> []" "\<And>u. no_digit u \<Longrightarrow> some_digits (t @ u) = Some u"
    using some_digits_local by blast
  have hd: "json_digit (hd y)" using d by (auto simp: some_digits_def split: list.splits if_splits)
  have "json_exponent ((c # sgn @ t) @ u) = Some u" if "ends_value u" for u
  proof (cases "sgn = []")
    case True
    then have "hd (t @ u) = hd y" "json_digit (hd (t @ u))" using t(1,2) hd by auto
    then have "hd (t @ u) \<noteq> CHR ''+'' \<and> hd (t @ u) \<noteq> CHR ''-''" by (auto simp: json_digit_def)
    then show ?thesis using True x(2) t(3) ends_value_no_digit [OF that] by (auto simp: json_exponent_def)
  next
    case False
    then have "sgn = [hd x]" "hd x = CHR ''+'' \<or> hd x = CHR ''-''" by (auto simp: sgn_def split: if_splits)
    then show ?thesis using x(2) t(3) ends_value_no_digit [OF that] by (auto simp: json_exponent_def)
  qed
  then show ?thesis using x xy t(1) by (intro exI [of _ "c # sgn @ t"]) auto
next
  case False
  then have "s = r" using assms by (auto simp: json_exponent_def split: list.splits if_splits)
  moreover have "json_exponent u = Some u" if "ends_value u" for u
    using ends_value_no_digit [OF that] by (cases u) (auto simp: json_exponent_def)
  ultimately show ?thesis by (intro exI [of _ "[]"]) simp
qed

lemma json_number_local:
  assumes "json_number s = Some r"
  shows "\<exists>t. s = t @ r \<and> t \<noteq> [] \<and> (hd t = CHR ''-'' \<or> json_digit (hd t))
    \<and> (\<forall>u. ends_value u \<longrightarrow> json_number (t @ u) = Some u)"
proof -
  define sgn where "sgn = (if s \<noteq> [] \<and> hd s = CHR ''-'' then [CHR ''-''] else [])"
  obtain c x v where s: "(if s \<noteq> [] \<and> hd s = CHR ''-'' then tl s else s) = c # x" and dig: "json_digit c"
    and f: "json_fraction (if c = CHR ''0'' then x else dropWhile json_digit x) = Some v" and e: "json_exponent v = Some r"
    using assms by (auto simp: json_number_def split: list.splits if_splits option.splits)
  have sc: "s = sgn @ c # x" using s by (cases s) (auto simp: sgn_def split: if_splits)
  have notm: "c \<noteq> CHR ''-''" using dig by (auto simp: json_digit_def)
  define ds where "ds = (if c = CHR ''0'' then [] else takeWhile json_digit x)"
  have ds: "x = ds @ (if c = CHR ''0'' then x else dropWhile json_digit x)" "list_all json_digit ds"
    by (auto simp: ds_def list_all_iff dest: set_takeWhileD)
  obtain t2 where t2: "(if c = CHR ''0'' then x else dropWhile json_digit x) = t2 @ v" "t2 = [] \<or> hd t2 = CHR ''.''"
    "\<And>u. no_digit u \<and> (u = [] \<or> hd u \<noteq> CHR ''.'') \<Longrightarrow> json_fraction (t2 @ u) = Some u"
    using json_fraction_local [OF f] by blast
  obtain t3 where t3: "v = t3 @ r" "t3 = [] \<or> hd t3 \<in> {CHR ''e'', CHR ''E''}"
    "\<And>u. ends_value u \<Longrightarrow> json_exponent (t3 @ u) = Some u"
    using json_exponent_local [OF e] by blast
  have "json_number ((sgn @ c # ds @ t2 @ t3) @ u) = Some u" if u: "ends_value u" for u
  proof -
    have v': "no_digit (t3 @ u) \<and> (t3 @ u = [] \<or> hd (t3 @ u) \<noteq> CHR ''.'')"
      using t3(2) ends_value_no_digit [OF u] by (cases t3) (auto simp: no_digit_def json_digit_def)
    then have "no_digit (t2 @ t3 @ u)" using t2(2) by (cases t2) (auto simp: no_digit_def json_digit_def)
    then have "(if c = CHR ''0'' then ds @ t2 @ t3 @ u else dropWhile json_digit (ds @ t2 @ t3 @ u)) = t2 @ t3 @ u"
      using dropWhile_digits [OF ds(2), of "t2 @ t3 @ u"] by (cases "c = CHR ''0''") (simp_all add: ds_def)
    moreover have "(if (sgn @ c # ds @ t2 @ t3) @ u \<noteq> [] \<and> hd ((sgn @ c # ds @ t2 @ t3) @ u) = CHR ''-''
        then tl ((sgn @ c # ds @ t2 @ t3) @ u) else (sgn @ c # ds @ t2 @ t3) @ u) = c # ds @ t2 @ t3 @ u"
      using notm by (simp add: sgn_def)
    ultimately show ?thesis unfolding json_number_def using dig t2(3) [OF v'] t3(3) [OF u] by simp
  qed
  moreover have "s = (sgn @ c # ds @ t2 @ t3) @ r" using sc ds(1) t2(1) t3(1) by simp
  moreover have "hd (sgn @ c # ds @ t2 @ t3) = CHR ''-'' \<or> json_digit (hd (sgn @ c # ds @ t2 @ t3))"
    using dig by (simp add: sgn_def)
  ultimately show ?thesis by (intro exI [of _ "sgn @ c # ds @ t2 @ t3"]) simp
qed

subsection \<open>Values\<close>

text \<open>A scanner whose values stand on their own.\<close>

definition local_scan :: "(string \<Rightarrow> string option) \<Rightarrow> bool" where
  "local_scan p \<longleftrightarrow> (\<forall>s r. p s = Some r \<longrightarrow>
     (\<exists>t. s = t @ r \<and> t \<noteq> [] \<and> (\<forall>u. ends_value u \<longrightarrow> p (t @ u) = Some u)))"

lemma local_scanD:
  assumes "local_scan p" and "p s = Some r"
  obtains t where "s = t @ r" and "t \<noteq> []" and "\<And>u. ends_value u \<Longrightarrow> p (t @ u) = Some u"
  using assms unfolding local_scan_def by blast

lemma local_scalar: "local_scan json_scalar"
  unfolding local_scan_def
proof (intro allI impI)
  fix s r assume js: "json_scalar s = Some r"
  then obtain c x where s: "s = c # x" by (cases s) (auto simp: json_scalar_def)
  consider (str) "c = CHR 0x22" | (num) "c \<noteq> CHR 0x22" "c = CHR ''-'' \<or> json_digit c"
    | (word) w where "w \<in> {''true'', ''null'', ''false''}" "take (length w) s = w" "r = drop (length w) s"
  proof (cases "c = CHR 0x22 \<or> c = CHR ''-'' \<or> json_digit c")
    case True
    then show ?thesis using str num by blast
  next
    case False
    then have "(if take 4 s = ''true'' \<or> take 4 s = ''null'' then Some (drop 4 s)
        else if take 5 s = ''false'' then Some (drop 5 s) else None) = Some r"
      using js unfolding json_scalar_def s by simp
    then have "\<exists>w \<in> {''true'', ''null'', ''false''}. take (length w) s = w \<and> r = drop (length w) s"
      by (auto simp: numeral_eq_Suc split: if_splits)
    then show ?thesis using word by blast
  qed
  then show "\<exists>t. s = t @ r \<and> t \<noteq> [] \<and> (\<forall>u. ends_value u \<longrightarrow> json_scalar (t @ u) = Some u)"
  proof cases
    case str
    then obtain y where "json_string x = Some (y, r)" using js s by (auto simp: json_scalar_def)
    then obtain t where "x = t @ r" "\<And>u. json_string (t @ u) = Some (y, u)" using json_string_local by blast
    then show ?thesis using s str by (intro exI [of _ "c # t"]) (simp add: json_scalar_def)
  next
    case num
    then have "json_number s = Some r" using js s by (auto simp: json_scalar_def)
    then obtain t where t: "s = t @ r" "t \<noteq> []" "\<And>u. ends_value u \<Longrightarrow> json_number (t @ u) = Some u"
      using json_number_local by blast
    then have "hd t = c" using s by (cases t) auto
    then have "json_scalar (t @ u) = json_number (t @ u)" for u
      using num t(2) by (cases t) (auto simp: json_scalar_def)
    then show ?thesis using t by auto
  next
    case word
    have "json_scalar (w @ u) = Some u" for u using word(1) by (auto simp: json_scalar_def json_digit_def)
    moreover have "s = w @ r" using word(2,3) by (metis append_take_drop_id)
    ultimately show ?thesis using word(1) by (intro exI [of _ w]) auto
  qed
qed

text \<open>The text of a value, alone.\<close>

definition text_of :: "(string \<Rightarrow> string option) \<Rightarrow> string \<Rightarrow> bool" where
  "text_of p t \<longleftrightarrow> t \<noteq> [] \<and> \<not> json_space (hd t) \<and> p t = Some []"

text \<open>A value with the white space around it and the character after it.\<close>

lemma scan_item:
  assumes p: "local_scan p" and s: "p (skip_space s) = Some s5" "skip_space s5 = e # s6"
    and e: "e \<in> {CHR '','', CHR ''}'', CHR '']''}"
  obtains w t v where "s = w @ t @ v @ e # s6" and "before (skip_space s) s5 = t" and "text_of p t"
    and "\<And>u. skip_space (w @ t @ v @ e # u) = t @ v @ e # u"
    and "\<And>u. p (t @ v @ e # u) = Some (v @ e # u)" and "\<And>u. skip_space (v @ e # u) = e # u"
proof -
  obtain t where t: "skip_space s = t @ s5" "t \<noteq> []" "\<And>u. ends_value u \<Longrightarrow> p (t @ u) = Some u"
    using local_scanD [OF p s(1)] by blast
  obtain w where w: "s = w @ skip_space s" "\<forall>c \<in> set w. json_space c" using skip_space_split by blast
  obtain v where v: "s5 = v @ e # s6" "\<forall>c \<in> set v. json_space c" using skip_space_split [of s5] s(2) by auto
  have t0: "\<not> json_space (hd t)" using skip_space_stop t(1,2) by (cases t) auto
  have "p t = Some []" using t(3) [of "[]"] by (simp add: ends_value_def)
  then have tx: "text_of p t" using t(2) t0 by (simp add: text_of_def)
  have "skip_space (w @ t @ x) = t @ x" for x
    using skip_space_append [OF w(2)] t0 t(2) by (simp add: skip_space_id)
  moreover have "ends_value (v @ e # u)" for u using v(2) e by (cases v) (auto simp: ends_value_def)
  moreover have "\<not> json_space e" using e by (auto simp: json_space_def)
  then have "skip_space (v @ e # u) = e # u" for u using skip_space_append [OF v(2)] by (simp add: skip_space_id)
  ultimately show ?thesis using that [of w t v] w(1) t(1,3) tx v(1) by simp
qed

lemma members_local:
  assumes p: "local_scan p"
  shows "json_members p s = Some (ms, r) \<Longrightarrow>
    \<exists>t. s = t @ r \<and> t \<noteq> [] \<and> (\<forall>u. json_members p (t @ u) = Some (ms, u)) \<and> (\<forall>m \<in> set ms. text_of p (snd m))"
proof (induction "length s" arbitrary: s ms rule: less_induct)
  case less
  from less.prems [unfolded json_members.simps [of p s]]
  obtain x k s2 s3 s5 e s6 where s: "skip_space s = CHR 0x22 # x" "json_string x = Some (k, s2)"
    "skip_space s2 = CHR '':'' # s3" "p (skip_space s3) = Some s5" "skip_space s5 = e # s6"
    and rest: "e = CHR ''}'' \<and> ms = [(k, before (skip_space s3) s5)] \<and> r = s6
      \<or> e = CHR '','' \<and> length s6 < length s \<and> (\<exists>ms'. json_members p s6 = Some (ms', r) \<and> ms = (k, before (skip_space s3) s5) # ms')"
    by (auto simp: Let_def neq_Nil_conv split: list.splits if_splits option.splits prod.splits)
  obtain w1 where w1: "s = w1 @ CHR 0x22 # x" "\<And>u. skip_space (w1 @ CHR 0x22 # u) = CHR 0x22 # u"
    using skip_space_local [OF s(1)] by blast
  obtain tk where tk: "x = tk @ s2" "\<And>u. json_string (tk @ u) = Some (k, u)" using json_string_local [OF s(2)] by blast
  obtain w2 where w2: "s2 = w2 @ CHR '':'' # s3" "\<And>u. skip_space (w2 @ CHR '':'' # u) = CHR '':'' # u"
    using skip_space_local [OF s(3)] by blast
  have e: "e \<in> {CHR '','', CHR ''}'', CHR '']''}" using rest by auto
  obtain w t v where item: "s3 = w @ t @ v @ e # s6" "before (skip_space s3) s5 = t" "text_of p t"
    "\<And>u. skip_space (w @ t @ v @ e # u) = t @ v @ e # u" "\<And>u. p (t @ v @ e # u) = Some (v @ e # u)"
    "\<And>u. skip_space (v @ e # u) = e # u"
    using scan_item [OF p s(4,5) e] by blast
  have be: "before (t @ v @ e # u) (v @ e # u) = t" for u by (rule before_append)
  let ?pre = "w1 @ CHR 0x22 # tk @ w2 @ CHR '':'' # w @ t @ v @ [e]"
  have pre: "s = ?pre @ s6" using w1(1) tk(1) w2(1) item(1) by simp
  show ?case
  proof (cases "e = CHR ''}''")
    case True
    have "json_members p (?pre @ u) = Some ([(k, t)], u)" for u
      by (subst json_members.simps) (simp add: Let_def True w1(2) tk(2) w2(2) item(4-6) [unfolded True] be)
    moreover have "ms = [(k, t)]" "r = s6" using rest True item(2) by auto
    ultimately show ?thesis using pre item(3) by (intro exI [of _ ?pre]) simp
  next
    case False
    then obtain ms' where ec: "e = CHR '',''" and lt: "length s6 < length s" and m: "json_members p s6 = Some (ms', r)" "ms = (k, t) # ms'"
      using rest item(2) by auto
    obtain t6 where t6: "s6 = t6 @ r" "t6 \<noteq> []" "\<And>u. json_members p (t6 @ u) = Some (ms', u)" "\<forall>m \<in> set ms'. text_of p (snd m)"
      using less.hyps [OF lt m(1)] by blast
    have "json_members p (?pre @ t6 @ u) = Some (ms, u)" for u
      by (subst json_members.simps) (simp add: Let_def ec m(2) w1(2) tk(2) w2(2) item(4-6) [unfolded ec] be t6(3))
    then show ?thesis using pre t6 item(3) m(2) by (intro exI [of _ "?pre @ t6"]) simp
  qed
qed

lemma elements_local:
  assumes p: "local_scan p"
  shows "json_elements p s = Some (ts, r) \<Longrightarrow>
    \<exists>t. s = t @ r \<and> t \<noteq> [] \<and> (\<forall>u. json_elements p (t @ u) = Some (ts, u)) \<and> (\<forall>x \<in> set ts. text_of p x)"
proof (induction "length s" arbitrary: s ts rule: less_induct)
  case less
  from less.prems [unfolded json_elements.simps [of p s]]
  obtain s5 e s6 where s: "p (skip_space s) = Some s5" "skip_space s5 = e # s6"
    and rest: "e = CHR '']'' \<and> ts = [before (skip_space s) s5] \<and> r = s6
      \<or> e = CHR '','' \<and> length s6 < length s \<and> (\<exists>ts'. json_elements p s6 = Some (ts', r) \<and> ts = before (skip_space s) s5 # ts')"
    by (auto split: list.splits if_splits option.splits prod.splits)
  have e: "e \<in> {CHR '','', CHR ''}'', CHR '']''}" using rest by auto
  obtain w t v where item: "s = w @ t @ v @ e # s6" "before (skip_space s) s5 = t" "text_of p t"
    "\<And>u. skip_space (w @ t @ v @ e # u) = t @ v @ e # u" "\<And>u. p (t @ v @ e # u) = Some (v @ e # u)"
    "\<And>u. skip_space (v @ e # u) = e # u"
    using scan_item [OF p s e] by blast
  have be: "before (t @ v @ e # u) (v @ e # u) = t" for u by (rule before_append)
  show ?case
  proof (cases "e = CHR '']''")
    case True
    have "json_elements p ((w @ t @ v @ [e]) @ u) = Some ([t], u)" for u
      by (subst json_elements.simps) (simp add: True item(4-6) [unfolded True] be)
    moreover have "ts = [t]" "r = s6" using rest True item(2) by auto
    ultimately show ?thesis using item(1,3) by (intro exI [of _ "w @ t @ v @ [e]"]) simp
  next
    case False
    then obtain ts' where ec: "e = CHR '',''" and lt: "length s6 < length s" and m: "json_elements p s6 = Some (ts', r)" "ts = t # ts'"
      using rest item(2) by auto
    obtain t6 where t6: "s6 = t6 @ r" "t6 \<noteq> []" "\<And>u. json_elements p (t6 @ u) = Some (ts', u)" "\<forall>x \<in> set ts'. text_of p x"
      using less.hyps [OF lt m(1)] by blast
    have "json_elements p ((w @ t @ v @ e # t6) @ u) = Some (ts, u)" for u
      by (subst json_elements.simps) (simp add: ec m(2) item(4-6) [unfolded ec] be t6(3))
    then show ?thesis using item(1,3) t6 m(2) by (intro exI [of _ "w @ t @ v @ e # t6"]) simp
  qed
qed

lemma json_members_quote: "json_members p s = Some x \<Longrightarrow> \<exists>r. skip_space s = CHR 0x22 # r"
  by (subst (asm) json_members.simps) (auto split: list.splits if_splits)

lemma object_local:
  assumes p: "local_scan p" and o: "json_object p s = Some (ms, r)"
  shows "\<exists>t. s = t @ r \<and> (\<forall>u. json_object p (t @ u) = Some (ms, u)) \<and> (\<forall>m \<in> set ms. text_of p (snd m))"
proof (cases "skip_space s \<noteq> [] \<and> hd (skip_space s) = CHR ''}''")
  case True
  then have sp: "skip_space s = CHR ''}'' # r" and ms: "ms = []"
    using o by (cases "skip_space s"; auto simp: json_object_def)+
  obtain w where "s = w @ CHR ''}'' # r" "\<And>u. skip_space (w @ CHR ''}'' # u) = CHR ''}'' # u"
    using skip_space_local [OF sp] by blast
  then show ?thesis using ms by (intro exI [of _ "w @ [CHR ''}'']"]) (simp add: json_object_def)
next
  case False
  then have "json_members p s = Some (ms, r)" using o by (auto simp: json_object_def)
  then obtain t where t: "s = t @ r" "\<And>u. json_members p (t @ u) = Some (ms, u)" "\<forall>m \<in> set ms. text_of p (snd m)"
    using members_local [OF p] by blast
  have "json_object p (t @ u) = Some (ms, u)" for u
    using t(2) [of u] json_members_quote [OF t(2) [of u]] by (auto simp: json_object_def)
  then show ?thesis using t(1,3) by blast
qed

lemma array_local:
  assumes p: "local_scan p" and no: "\<And>s. p (CHR '']'' # s) = None" and o: "json_array p s = Some (ts, r)"
  shows "\<exists>t. s = t @ r \<and> (\<forall>u. json_array p (t @ u) = Some (ts, u)) \<and> (\<forall>x \<in> set ts. text_of p x)"
proof (cases "skip_space s \<noteq> [] \<and> hd (skip_space s) = CHR '']''")
  case True
  then have sp: "skip_space s = CHR '']'' # r" and ts: "ts = []"
    using o by (cases "skip_space s"; auto simp: json_array_def)+
  obtain w where "s = w @ CHR '']'' # r" "\<And>u. skip_space (w @ CHR '']'' # u) = CHR '']'' # u"
    using skip_space_local [OF sp] by blast
  then show ?thesis using ts by (intro exI [of _ "w @ [CHR '']'']"]) (simp add: json_array_def)
next
  case False
  then have "json_elements p s = Some (ts, r)" using o by (auto simp: json_array_def)
  then obtain t where t: "s = t @ r" "\<And>u. json_elements p (t @ u) = Some (ts, u)" "\<forall>x \<in> set ts. text_of p x"
    using elements_local [OF p] by blast
  have "\<not> (skip_space (t @ u) \<noteq> [] \<and> hd (skip_space (t @ u)) = CHR '']'')" for u
    using t(2) [of u, unfolded json_elements.simps [of p "t @ u"]] no
    by (cases "skip_space (t @ u)") auto
  then have "json_array p (t @ u) = Some (ts, u)" for u using t(2) [of u] by (auto simp: json_array_def)
  then show ?thesis using t(1,3) by blast
qed

lemma json_value_bracket: "json_value n (CHR '']'' # s) = None"
  by (cases n) (simp_all add: json_scalar_def json_digit_def)

lemma local_value: "local_scan (json_value n)"
proof (induction n)
  case 0
  have "json_value 0 = json_scalar" by (rule ext) simp
  then show ?case using local_scalar by simp
next
  case (Suc n)
  show ?case unfolding local_scan_def
  proof (intro allI impI)
    fix s r assume js: "json_value (Suc n) s = Some r"
    consider (obj) x ms where "s = CHR ''{'' # x" "json_object (json_value n) x = Some (ms, r)"
      | (arr) x ts where "s = CHR ''['' # x" "json_array (json_value n) x = Some (ts, r)"
      | (scalar) "json_scalar s = Some r"
      using js by (cases s) (auto split: if_splits)
    then show "\<exists>t. s = t @ r \<and> t \<noteq> [] \<and> (\<forall>u. ends_value u \<longrightarrow> json_value (Suc n) (t @ u) = Some u)"
    proof cases
      case obj
      then obtain t where "x = t @ r" "\<And>u. json_object (json_value n) (t @ u) = Some (ms, u)"
        using object_local [OF Suc] by blast
      then show ?thesis using obj(1) by (intro exI [of _ "CHR ''{'' # t"]) simp
    next
      case arr
      then obtain t where "x = t @ r" "\<And>u. json_array (json_value n) (t @ u) = Some (ts, u)"
        using array_local [OF Suc json_value_bracket] by blast
      then show ?thesis using arr(1) by (intro exI [of _ "CHR ''['' # t"]) simp
    next
      case scalar
      then obtain t where t: "s = t @ r" "t \<noteq> []" "\<And>u. ends_value u \<Longrightarrow> json_scalar (t @ u) = Some u"
        using local_scanD [OF local_scalar] by blast
      have "json_value (Suc n) (t @ u) = Some u" if "ends_value u" for u
      proof -
        have "hd (t @ u) \<noteq> CHR ''{'' \<and> hd (t @ u) \<noteq> CHR ''[''"
          using t(3) [OF that] by (cases "t @ u") (auto simp: json_scalar_def json_digit_def split: if_splits)
        then show ?thesis using t(3) [OF that] by (simp add: json_value_scalar)
      qed
      then show ?thesis using t(1,2) by blast
    qed
  qed
qed

subsection \<open>What is stored is JSON\<close>

text \<open>A payload that \<open>encode_job\<close> can write.\<close>

definition json_text :: "string \<Rightarrow> bool" where
  "json_text p \<longleftrightarrow> marshal_raw p \<noteq> None"

lemma json_value_le: "json_value m s = Some r \<Longrightarrow> m \<le> n \<Longrightarrow> json_value n s = Some r"
  by (induction n) (auto simp: le_Suc_eq json_value_mono simp del: json_value.simps)

lemma text_of_json: "text_of (json_value n) t \<Longrightarrow> n \<le> maxNestingDepth \<Longrightarrow> json_text t"
  using json_value_le [of n t "[]" maxNestingDepth]
  by (simp add: text_of_def json_text_def marshal_raw_def skip_space_id)

lemma json_text_null: "json_text ''null''"
  by (rule text_of_json [of 0])
    (simp_all add: text_of_def json_scalar_def json_space_def json_digit_def)

end
