(* ===== verification/Payload_Wire.thy ===== *)
theory Payload_Wire
  imports Payload_Inv Cogs_Serve Json_Texts
begin

section \<open>Payloads are JSON from the request to the response\<close>

text \<open>
  What the server decodes as a payload is the text of one JSON value, so it is JSON when it is
  stored, and every response that contains stored payloads can be written: \<open>writeJSON\<close>, which drops
  the encoder's error, never has one to drop.
\<close>

subsection \<open>What the decoder stores\<close>

lemma find_field_set:
  assumes "find_field fs k = Some f"
  shows "f \<in> snd ` set fs"
proof (cases "map_of fs k")
  case None
  then obtain x where "find (\<lambda>f. fold_name (fst f) = fold_name k) fs = Some x" "f = snd x"
    using assms by (auto simp: find_field_def)
  then show ?thesis by (auto simp: find_Some_iff)
next
  case (Some g)
  then have "(k, f) \<in> set fs" using assms by (simp add: find_field_def map_of_SomeD)
  then show ?thesis by force
qed

lemma set_members_inv:
  assumes "\<And>f t r r'. f \<in> snd ` set fs \<Longrightarrow> P t \<Longrightarrow> I r \<Longrightarrow> f t r = Some r' \<Longrightarrow> I r'"
  shows "\<forall>m \<in> set ms. P (snd m) \<Longrightarrow> I r \<Longrightarrow> I (snd (set_members strict fs ms err r))"
proof (induction ms arbitrary: err r)
  case (Cons m ms)
  obtain k t where m: "m = (k, t)" by (cases m)
  have "P t" using Cons.prems(1) m by simp
  then show ?case using Cons assms [OF find_field_set, of k _ t r]
    by (auto simp: m split: option.splits)
qed simp

lemma decode_doc_inv:
  assumes "\<And>f t r r'. f \<in> snd ` set fs \<Longrightarrow> json_text t \<Longrightarrow> I r \<Longrightarrow> f t r = Some r' \<Longrightarrow> I r'" and "I zero"
  shows "I (snd (decode_doc strict fs zero s))"
proof -
  have "I (snd (set_members strict fs ms None zero))"
    if "json_object (json_value (maxNestingDepth - 1)) t = Some (ms, y)" for t ms y
  proof (rule set_members_inv [where P = json_text and I = I])
    show "I zero" by (rule assms(2))
    show "\<forall>m \<in> set ms. json_text (snd m)"
      using object_local [OF local_value that] text_of_json [of "maxNestingDepth - 1"] by auto
  qed (rule assms(1))
  then show ?thesis using assms(2) by (auto simp: decode_doc_def decode_struct_def split: option.splits)
qed

definition json_or_empty :: "string \<Rightarrow> bool" where
  "json_or_empty p \<longleftrightarrow> p = '''' \<or> json_text p"

lemma stored_json: "json_or_empty p \<Longrightarrow> stored json_text p"
  by (auto simp: stored_def json_or_empty_def json_text_null)

lemma stores_json: "stores json_text c b"
proof -
  have "json_or_empty (Enq_Payload (snd (decode c enqueueRequest_fields zero_enqueue b)))"
    unfolding decode_def
    by (rule decode_doc_inv)
      (auto simp: enqueueRequest_fields_def zero_enqueue_def json_or_empty_def raw_field_def string_field_def split: if_splits)
  moreover have "json_or_empty (CS_Payload (snd (decode c createScheduleRequest_fields zero_createSchedule b)))"
    unfolding decode_def
    by (rule decode_doc_inv)
      (auto simp: createScheduleRequest_fields_def zero_createSchedule_def json_or_empty_def raw_field_def string_field_def
        split: if_splits)
  ultimately show ?thesis by (auto simp: stores_def read_as_def split: option.splits intro: stored_json)
qed

subsection \<open>What the encoder writes\<close>

lemma encode_json [simp]:
  "json_text (Job_Payload j) \<Longrightarrow> \<exists>t. encode_job j = Some t"
  "json_text (Sched_Payload s) \<Longrightarrow> \<exists>t. encode_schedule s = Some t"
  by (auto simp: json_text_def encode_job_def encode_schedule_def)

lemma those_some: "\<forall>x \<in> set xs. f x \<noteq> None \<Longrightarrow> \<exists>ys. those (map f xs) = Some ys"
  by (induction xs) auto

definition writable :: "body \<Rightarrow> bool" where
  "writable b \<longleftrightarrow> encode_body b \<noteq> None"

lemma writable_jobs: "\<forall>j \<in> set js. json_text (Job_Payload j) \<Longrightarrow> writable (ClaimBody js ttl hb)"
  using those_some [of js encode_job] encode_json(1) by (fastforce simp: writable_def)

lemma writable_schedules: "\<forall>s \<in> set ss. json_text (Sched_Payload s) \<Longrightarrow> writable (SchedulesBody ss)"
  using those_some [of ss encode_schedule] encode_json(2) by (fastforce simp: writable_def)

lemma writable_simps [simp]:
  "writable (ErrBody cd msg)" "writable (EnqueueBody jid q created)" "writable (RenewBody jid dl)" "writable (AckedBody n)"
  "writable (StateBody jid x)" "writable (StatsBody st)" "writable (DeadBody q ids)" "writable (StatusBody x)"
  "writable (ReadyBody leads)" "writable NoBody"
  "json_text (Job_Payload j) \<Longrightarrow> writable (JobBody j)" "json_text (Sched_Payload s) \<Longrightarrow> writable (ScheduleBody s)"
  using encode_json(1) [of j] encode_json(2) [of s] by (auto simp: writable_def)

subsection \<open>Every response can be written\<close>

context redis_db
begin

lemma claim_rounds_encode:
  "\<forall>p \<in> set polls. lawful_by json_text R c (poll_turns p) \<Longrightarrow> config_ok c \<Longrightarrow> sound json_text R c d \<Longrightarrow>
   claim_rounds R c qs batch deadline polls d = Some (Return (Response st b), us, d') \<Longrightarrow> writable b"
proof (induction polls arbitrary: d)
  case (Cons p polls)
  have t: "lawful_by json_text R c (poll_turns p)" using Cons.prems(1) by simp
  obtain r d1 where cl: "Claim R c (poll_now p) (poll_turns p) qs batch d = (r, d1)" by (rule prod.exhaust)
  have s1: "sound json_text R c d1"
    using Claim_reaches [OF t, of d "poll_now p" qs batch] cl sound_reaches [OF _ Cons.prems(2,3)] by simp
  have js: "writable (ClaimBody js ttl hb)" if "r = Return (Inr js)" for js ttl hb
    using Claim_sound [OF t Cons.prems(2,3)] cl that by (intro writable_jobs) blast
  have rest: "\<forall>p \<in> set polls. lawful_by json_text R c (poll_turns p)" using Cons.prems(1) by simp
  show ?case using Cons.prems(4) cl js Cons.IH [OF rest Cons.prems(2) s1]
    by (auto simp: Let_def serverError_def
        split: outcome.splits sum.splits option.splits if_splits)
qed simp

lemma endpoint_encodes:
  assumes c: "config_ok c" and s: "sound json_text R c d" and sv: "lawful_serving_by json_text R c sv d"
    and h: "endpoint_handler R c sv rq ep d = Some (Return (Response st b), us, d')"
  shows "writable b"
proof (cases ep)
  case EpEnqueue
  then show ?thesis using h
    by (auto simp: handled_def handleEnqueue_def serverError_def split: sum.splits prod.splits if_splits)
next
  case EpClaim
  then show ?thesis using h claim_rounds_encode [OF _ c s] sv
    by (auto simp: handleClaim_def lawful_serving_by_def split: sum.splits option.splits if_splits)
next
  case EpAckBatch
  then show ?thesis using h
    by (auto simp: handled_def handleAckBatch_def serverError_def queue_required_def split: sum.splits prod.splits if_splits)
next
  case (EpRenew jid)
  then show ?thesis using h
    by (auto simp: handled_def handleRenew_def Let_def serverError_def queue_required_def
        split: sum.splits prod.splits error.splits if_splits)
next
  case (EpAck jid)
  then show ?thesis using h
    by (auto simp: handled_def handleAck_def Let_def serverError_def queue_required_def split: sum.splits prod.splits if_splits)
next
  case (EpFail jid)
  then show ?thesis using h
    by (auto simp: handled_def handleFail_def serverError_def queue_required_def
        split: sum.splits prod.splits error.splits if_splits)
next
  case (EpGetJob jid)
  then show ?thesis using h Job_sound [OF s, of "sv_net sv" jid]
    by (auto simp: handled_def handleGetJob_def serverError_def split: sum.splits prod.splits error.splits)
next
  case EpCreateSchedule
  have "writable (ScheduleBody s)"
    if "read_as et (decode c createScheduleRequest_fields zero_createSchedule (rq_body rq)) = Inr r"
      and "Create R cron rnd now created net q spec (CS_Payload r) e = (Inr s, e')" for et r cron rnd now created net q spec e s e'
    using stores_json [of c "rq_body rq"] that(1) Create_payload [OF that(2)] by (auto simp: stores_def stored_def)
  then show ?thesis using EpCreateSchedule h
    by (auto simp: handled_def handleCreateSchedule_def queue_required_def split: sum.splits prod.splits if_splits)
next
  case EpListSchedules
  have t: "lawful_by json_text R c (sv_turns sv)" using sv by (simp add: lawful_serving_by_def)
  have "writable (SchedulesBody ss)" if "List R (sv_net sv) (sv_turns sv) d = (Inr ss, e)" for ss e
    using List_sound [OF t c s that] by (rule writable_schedules)
  then show ?thesis using EpListSchedules h
    by (auto simp: handled_def handleListSchedules_def serverError_def
        split: sum.splits prod.splits)
next
  case (EpDeleteSchedule sid)
  then show ?thesis using h
    by (auto simp: handled_def handleDeleteSchedule_def serverError_def split: option.splits prod.splits)
next
  case (EpStats name)
  then show ?thesis using h
    by (auto simp: handled_def handleStats_def Let_def serverError_def split: sum.splits prod.splits if_splits)
next
  case EpDead
  then show ?thesis using h
    by (auto simp: handled_def handleDead_def serverError_def split: sum.splits prod.splits if_splits)
next
  case EpReadyz
  then show ?thesis using h by (auto simp: readyz_def split: option.splits)
qed (use h in \<open>auto simp: healthz_def\<close>)

lemma serve_encodes:
  assumes "config_ok c" and "sound json_text R c d" and "lawful_serving_by json_text R c sv d"
    and "serve R c sv rq d = Some (Served (Return (Response st b)), us, d')"
  shows "writable b"
  using assms(4) endpoint_encodes [OF assms(1-3)]
  by (auto simp: serve_def wrap_def split: option.splits if_splits prod.splits outcome.splits)

text \<open>
  So along any path of the system on which the other writes bring JSON payloads: a request keeps
  the path, and its response is written.
\<close>

lemma request_writes_json:
  assumes "config_ok c" and "view R d0 = view_empty" and "reaches_by json_text R c d0 d"
    and "lawful_serving_by json_text R c sv d" and "serve R c sv rq d = Some (r, us, d')"
  shows "reaches_by json_text R c d0 d' \<and> (\<forall>st b. r = Served (Return (Response st b)) \<longrightarrow> writable b)"
proof -
  have "sound json_text R c d0" using assms(2) by (simp add: sound_def job_inv_empty)
  then have "sound json_text R c d" by (rule sound_reaches [OF assms(3,1)])
  then show ?thesis
    using serve_encodes [OF assms(1) _ assms(4)] reaches_trans [OF assms(3) serve_reaches [OF assms(4) stores_json assms(5)]]
      assms(5) by blast
qed

end

end
