(* ===== verification/Chaos_Worker.thy ===== *)
theory Chaos_Worker
  imports Cogs_Client
begin

section \<open>The chaos worker (cmd/chaos-worker/main.go)\<close>

text \<open>
  The worker process the chaos test kills: an SDK worker whose hooks keep books in Redis keys of
  their own. The results of these writes are ignored, so each comes with its fate. The flags are
  a record, \<open>rand.Int63n\<close> and what wakes the handler's \<open>select\<close> are arguments.
\<close>

record chaos_flags =
  Flag_Server :: string
  Flag_Redis :: string
  Flag_Queue :: queue
  Flag_ID :: string
  Flag_Batch :: int
  Flag_Concurrency :: int
  Flag_WorkMin :: int
  Flag_WorkMax :: int

definition chaos_defaults :: chaos_flags where
  "chaos_defaults = \<lparr>Flag_Server = ''http://127.0.0.1:8080'', Flag_Redis = ''127.0.0.1:6379'',
     Flag_Queue = ''chaos'', Flag_ID = '''', Flag_Batch = 4, Flag_Concurrency = 4,
     Flag_WorkMin = 50 * Millisecond, Flag_WorkMax = 400 * Millisecond\<rparr>"

text \<open>The worker it configures; its one handler is the unit value.\<close>

definition chaos_worker :: "chaos_flags \<Rightarrow> unit worker" where
  "chaos_worker f =
     Handle (Flag_Queue f) ()
       ((NewWorker (Flag_ID f))\<lparr>W_Batch := Flag_Batch f, W_Concurrent := Flag_Concurrency f, W_WaitMS := 500\<rparr>)"

subsection \<open>The books\<close>

record chaos_books =
  inflight :: "key \<Rightarrow> job_id set"
  claimed_at :: "job_id \<rightharpoonup> int"
  job_runs :: "job_id \<Rightarrow> int"

definition inflightKey :: "chaos_flags \<Rightarrow> key" where
  "inflightKey f = ''chaos:inflight:'' @ Flag_ID f"

text \<open>A write whose result is dropped.\<close>

definition write_books :: "net \<Rightarrow> (chaos_books \<Rightarrow> chaos_books) \<Rightarrow> chaos_books \<Rightarrow> chaos_books" where
  "write_books net f b = (case net of LostRequest _ \<Rightarrow> b | _ \<Rightarrow> f b)"

definition chaos_OnClaim :: "chaos_flags \<Rightarrow> net \<Rightarrow> net \<Rightarrow> int \<Rightarrow> job \<Rightarrow> chaos_books \<Rightarrow> chaos_books" where
  "chaos_OnClaim f net1 net2 now job b =
     write_books net2 (\<lambda>b. b\<lparr>claimed_at := (claimed_at b)(Job_ID job \<mapsto> now)\<rparr>)
       (write_books net1 (\<lambda>b. b\<lparr>inflight := (inflight b)(inflightKey f := insert (Job_ID job) (inflight b (inflightKey f)))\<rparr>) b)"

definition chaos_OnAck :: "chaos_flags \<Rightarrow> net \<Rightarrow> job \<Rightarrow> chaos_books \<Rightarrow> chaos_books" where
  "chaos_OnAck f net job b =
     write_books net (\<lambda>b. b\<lparr>inflight := (inflight b)(inflightKey f := inflight b (inflightKey f) - {Job_ID job})\<rparr>) b"

text \<open>How long the handler pretends to work; \<open>r\<close> is what \<open>Int63n(spread)\<close> returns.\<close>

definition chaos_work :: "chaos_flags \<Rightarrow> int \<Rightarrow> int" where
  "chaos_work f r =
     (let spread = i64 (Flag_WorkMax f - Flag_WorkMin f)
      in if spread > 0 then i64 (Flag_WorkMin f + r) else Flag_WorkMin f)"

text \<open>The handler counts the run before the work; its error is that of the context, if that wakes it.\<close>

definition chaos_handler :: "net \<Rightarrow> bool \<Rightarrow> job \<Rightarrow> chaos_books \<Rightarrow> string option \<times> chaos_books" where
  "chaos_handler net cancelled job b =
     (if cancelled then Some ''context canceled'' else None,
      write_books net (\<lambda>b. b\<lparr>job_runs := (job_runs b)(Job_ID job := job_runs b (Job_ID job) + 1)\<rparr>) b)"

text \<open>The exit status after \<open>Run\<close>.\<close>

definition chaos_exit :: "chaos_flags \<Rightarrow> claim_round list \<Rightarrow> int" where
  "chaos_exit f rounds = (case worker_Run (chaos_worker f) rounds of Inl _ \<Rightarrow> 1 | Inr _ \<Rightarrow> 0)"

subsection \<open>What the worker is\<close>

lemma chaos_worker_registered: "registered (chaos_worker f)"
  by (simp add: chaos_worker_def registered_def Handle_def NewWorker_def)

lemma chaos_exit_zero: "chaos_exit f rounds = 0"
  by (simp add: chaos_exit_def worker_Run_def chaos_worker_def Handle_def NewWorker_def)

text \<open>With its defaults a batch never waits for a slot, and a run takes from 50 to 400 ms.\<close>

lemma chaos_defaults_fit: "W_Batch (chaos_worker chaos_defaults) \<le> W_Concurrent (chaos_worker chaos_defaults)"
  by (simp add: chaos_worker_def chaos_defaults_def Handle_def)

lemma chaos_work_range:
  assumes "0 \<le> r" and "r < 350 * Millisecond"
  shows "50 * Millisecond \<le> chaos_work chaos_defaults r \<and> chaos_work chaos_defaults r < 400 * Millisecond"
proof -
  have "i64 (50 * Millisecond + r) = 50 * Millisecond + r" using assms by (intro i64_id) simp_all
  moreover have "i64 (400 * Millisecond - 50 * Millisecond) = 350 * Millisecond" by (simp add: i64_def)
  ultimately show ?thesis using assms by (simp add: chaos_work_def chaos_defaults_def)
qed

subsection \<open>The books of one job\<close>

text \<open>
  The steps of \<open>process\<close> with the books beside them, with no write lost: \<open>OnClaim\<close> and the count come
  before the first step, \<open>OnAck\<close> with an ack that returned no error.
\<close>

definition chaos_start :: "chaos_flags \<Rightarrow> int \<Rightarrow> job \<Rightarrow> chaos_books \<Rightarrow> proc \<times> chaos_books" where
  "chaos_start f now job b =
     (proc_start, snd (chaos_handler Delivered False job (chaos_OnClaim f Delivered Delivered now job b)))"

inductive chaos_step :: "chaos_flags \<Rightarrow> job \<Rightarrow> proc \<times> chaos_books \<Rightarrow> proc_event \<Rightarrow> proc \<times> chaos_books \<Rightarrow> bool" for f job where
  chaos_acked: "process_step s e t \<Longrightarrow> \<not> p_onack s \<Longrightarrow> p_onack t \<Longrightarrow>
     chaos_step f job (s, b) e (t, chaos_OnAck f Delivered job b)"
| chaos_other: "process_step s e t \<Longrightarrow> p_onack t = p_onack s \<Longrightarrow> chaos_step f job (s, b) e (t, b)"

inductive_cases chaos_step_cases: "chaos_step f job x e y"

text \<open>
  Whenever the process is killed, the job is on its list of jobs in flight unless its ack had
  returned without error; and its run has been counted.
\<close>

definition chaos_inv :: "chaos_flags \<Rightarrow> job \<Rightarrow> int \<Rightarrow> proc \<times> chaos_books \<Rightarrow> bool" where
  "chaos_inv f job n x \<longleftrightarrow> proc_inv (fst x) \<and> job_runs (snd x) (Job_ID job) = n
     \<and> (Job_ID job \<in> inflight (snd x) (inflightKey f) \<longleftrightarrow> \<not> p_onack (fst x))"

lemma chaos_inv_step: "chaos_inv f job n x \<Longrightarrow> chaos_step f job x e y \<Longrightarrow> chaos_inv f job n y"
  by (erule chaos_step_cases) (auto simp: chaos_inv_def chaos_OnAck_def write_books_def intro: proc_inv_step)

interpretation chaos: transition_system "chaos_step f job" "chaos_inv f job n" for f job n
  by unfold_locales (rule chaos_inv_step)

lemma chaos_inv_start: "chaos_inv f job (job_runs b (Job_ID job) + 1) (chaos_start f now job b)"
  by (simp add: chaos_inv_def chaos_start_def chaos_handler_def chaos_OnClaim_def write_books_def proc_inv_start)
    (simp add: proc_start_def)

lemma chaos_kill:
  assumes "runs (chaos_step f job) (chaos_start f now job b) es (s, b')"
  shows "job_runs b' (Job_ID job) = job_runs b (Job_ID job) + 1
    \<and> (Job_ID job \<in> inflight b' (inflightKey f) \<or> p_sent s = [SentAck])"
  using chaos.inv_runs [OF assms chaos_inv_start] by (auto simp: chaos_inv_def proc_inv_def)

end
