(* ===== verification/Crash_Recovery.thy ===== *)
theory Crash_Recovery
  imports Api_Laws
begin

section \<open>A job whose worker crashed is handed out again\<close>

text \<open>
  Crash recovery end to end, across the reaper, the pending list and the next claim: a job whose
  lease has expired and that has attempts left is requeued by one pass of the reaper, and a claim of
  its queue with room for the queue's jobs hands it out with the same payload and one attempt more.
\<close>

lemma bumped_cong: "hash_at w (jobKey j) = hash_at v (jobKey j) \<Longrightarrow> bumped w j = bumped v j"
  by (simp add: bumped_def job_attempts_def)

lemma reap_hash:
  "hash_at (a_reap mr now n q v) (jobKey j) = (if j \<in> reap_list now n q v then bumped v j else hash_at v (jobKey j))"
  by (simp only: a_reap_def hash_reaps [OF reap_due_distinct] reap_list_def mem_Collect_eq)

lemma reaps_hash:
  assumes "job_inv mr v" and "mr < 2 ^ 63 - 1" and "distinct qs"
  shows "hash_at (fold (\<lambda>q. a_reap mr now n q) qs v) (jobKey j) =
    (if \<exists>q \<in> set qs. j \<in> reap_list now n q v then bumped v j else hash_at v (jobKey j))"
  using assms(1,3)
proof (induction qs arbitrary: v)
  case Nil
  then show ?case by simp
next
  case (Cons q qs)
  let ?w = "a_reap mr now n q v"
  have same: "reap_list now n q' ?w = reap_list now n q' v" if "q' \<in> set qs" for q'
    using that Cons.prems(2) by (intro reap_list_other) auto
  have IH: "hash_at (fold (\<lambda>q. a_reap mr now n q) qs ?w) (jobKey j) =
    (if \<exists>q \<in> set qs. j \<in> reap_list now n q v then bumped ?w j else hash_at ?w (jobKey j))"
    using Cons inv_reap assms(2) same by simp
  show ?case
  proof (cases "j \<in> reap_list now n q v")
    case True
    have "\<not> (\<exists>q' \<in> set qs. j \<in> reap_list now n q' v)"
    proof
      assume "\<exists>q' \<in> set qs. j \<in> reap_list now n q' v"
      then obtain q' where "q' \<in> set qs" "job_queue v j = Some q'" using reap_list_queue [OF Cons.prems(1)] by blast
      then show False using reap_list_queue [OF Cons.prems(1) True] Cons.prems(2) by simp
    qed
    then show ?thesis using True IH by (auto simp: reap_hash)
  next
    case False
    then show ?thesis using IH bumped_cong [of ?w j v] by (simp add: reap_hash)
  qed
qed

lemma bumped_reads:
  "bumped v j ''queue'' = hash_at v (jobKey j) ''queue''" "bumped v j ''payload'' = hash_at v (jobKey j) ''payload''"
  by (simp_all add: bumped_def)

lemma reaps_queue:
  assumes "job_inv mr v" and "mr < 2 ^ 63 - 1" and "distinct qs"
  shows "job_queue (fold (\<lambda>q. a_reap mr now n q) qs v) j = job_queue v j"
  by (simp add: job_queue_def reaps_hash [OF assms] bumped_reads)

lemma state_pending_list:
  "job_state v j = Some StatePending \<Longrightarrow> job_queue v j = Some q \<Longrightarrow> j \<in> set (list_at v (pendingKey q))"
  by (auto simp: job_state_def split: if_splits)

lemma offered_single: "offered v [q] = map (Pair q) (rev (list_at v (pendingKey q)))"
  by (simp add: offered_def)

context redis_db
begin

lemma reapPass_requeues:
  assumes inv: "job_inv (MaxRetries c) (view R d)" and ok: "config_ok c"
    and order: "\<And>xs. mset (order xs) = mset xs"
    and limit: "\<And>q. covers (DrainLimit c) (expired now q (view R d))"
    and q: "q \<noteq> ''''" and j: "j \<in> expired now q (view R d)" and att: "job_attempts (view R d) j < MaxRetries c"
  shows "\<exists>n. \<forall>fuel \<ge> n. \<exists>reports d1.
      reapPass R c onRequeue order (\<lambda>_. quiet) fuel (\<lambda>_. now) quiet d = Some (None, reports, d1)
    \<and> j \<in> set (list_at (view R d1) (pendingKey q)) \<and> hash_at (view R d1) (jobKey j) = bumped (view R d) j
    \<and> job_queue (view R d1) = job_queue (view R d) \<and> job_inv (MaxRetries c) (view R d1)"
proof -
  let ?mr = "MaxRetries c" and ?v = "view R d"
  have mr: "?mr < 2 ^ 63 - 1" using config_ok_limits [OF ok] by simp
  have list: "j \<in> reap_list now (DrainLimit c) q ?v"
    using j reap_list_expired [OF zset_finite limit] by simp
  then have jq: "job_queue ?v j = Some q" by (rule reap_list_queue [OF inv])
  have act: "active_queue ?v q" using q j by (auto simp: active_queue_def expired_def)
  have dead: "\<not> dead_dest ?mr ?v j" using att by (simp add: dead_dest_def)
  obtain n where n: "\<forall>fuel \<ge> n. \<exists>qs reports d1.
      reapPass R c onRequeue order (\<lambda>_. quiet) fuel (\<lambda>_. now) quiet d = Some (None, reports, d1)
    \<and> distinct qs \<and> set qs = {q. active_queue ?v q}
    \<and> view R d1 = fold (\<lambda>q. a_reap ?mr now (DrainLimit c) q) qs ?v"
    using reapPass_quiet [OF inv ok order] by blast
  show ?thesis
  proof (intro exI [of _ n] allI impI)
    fix fuel assume "n \<le> fuel"
    with n obtain qs reports d1 where
      run: "reapPass R c onRequeue order (\<lambda>_. quiet) fuel (\<lambda>_. now) quiet d = Some (None, reports, d1)"
      and qs: "distinct qs" "set qs = {q. active_queue ?v q}"
      and v1: "view R d1 = fold (\<lambda>q. a_reap ?mr now (DrainLimit c) q) qs ?v" by blast
    have reaped: "\<exists>q \<in> set qs. j \<in> reap_list now (DrainLimit c) q ?v" using qs(2) act list by auto
    have queues: "job_queue (view R d1) = job_queue ?v"
      using reaps_queue [OF inv mr qs(1)] by (simp add: v1 fun_eq_iff)
    have "job_state (view R d1) j = Some StatePending"
      using reaps_state [OF inv mr qs(1), of now "DrainLimit c" j] reaped dead by (simp add: v1)
    then have "j \<in> set (list_at (view R d1) (pendingKey q))"
      using jq queues by (intro state_pending_list) simp_all
    moreover have "hash_at (view R d1) (jobKey j) = bumped ?v j"
      using reaps_hash [OF inv mr qs(1), of now "DrainLimit c" j] reaped by (simp add: v1)
    moreover have "job_inv ?mr (view R d1)" using inv_reap_queues [OF inv mr] by (simp add: v1)
    ultimately show "\<exists>reports d1.
        reapPass R c onRequeue order (\<lambda>_. quiet) fuel (\<lambda>_. now) quiet d = Some (None, reports, d1)
      \<and> j \<in> set (list_at (view R d1) (pendingKey q)) \<and> hash_at (view R d1) (jobKey j) = bumped ?v j
      \<and> job_queue (view R d1) = job_queue ?v \<and> job_inv ?mr (view R d1)"
      using run queues by blast
  qed
qed

lemma pending_fits:
  assumes "job_inv mr (view R d)" and "int (card {i. job_queue (view R d) i = Some q}) \<le> n"
  shows "int (length (list_at (view R d) (pendingKey q))) \<le> n"
  using depths_add_up [OF assms(1) zset_finite zset_finite, of q] assms(2) by linarith

text \<open>A claim of one queue with room for its jobs hands out every pending one.\<close>

lemma Claim_all:
  assumes "job_inv mr (view R d)" and "0 \<le> MaxClaimBatch c"
    and "int (card {i. job_queue (view R d) i = Some q}) \<le> clamp_batch c batch"
    and "j \<in> set (list_at (view R d) (pendingKey q))"
  shows "\<exists>jobs d'. Claim R c now quiet [q] batch d = (Return (Inr jobs), d')
    \<and> claimed_job (view R d) (lease_deadline c now) q j \<in> set jobs
    \<and> zset_at (view R d') (leasedKey q) j = Some (lease_deadline c now)"
proof -
  let ?n = "clamp_batch c batch" and ?dl = "lease_deadline c now" and ?v = "view R d"
  have fits: "length (list_at ?v (pendingKey q)) \<le> nat ?n" using pending_fits [OF assms(1,3)] by linarith
  then have pos: "0 < nat ?n" using assms(4) by (cases "list_at ?v (pendingKey q)") auto
  obtain d' where claim: "Claim R c now quiet [q] batch d
      = (Return (Inr (map (\<lambda>(q, j). claimed_job ?v ?dl q j) (take (nat ?n) (offered ?v [q])))), d')"
    and v': "view R d' = a_claims ?dl ?n [q] ?v"
    using Claim_quiet [of "[q]" c now batch d] assms(2) by auto
  have "(q, j) \<in> set (take (nat ?n) (offered ?v [q]))" using assms(4) fits by (simp add: offered_single)
  then have "claimed_job ?v ?dl q j \<in> set (map (\<lambda>(q, j). claimed_job ?v ?dl q j) (take (nat ?n) (offered ?v [q])))"
    by (force simp only: set_map)
  moreover have "zset_at (view R d') (leasedKey q) j = Some ?dl"
    using assms(4) fits pos by (simp add: v' a_claim_def Let_def)
  ultimately show ?thesis using claim by blast
qed

lemma redelivery:
  assumes inv: "job_inv (MaxRetries c) (view R d)" and ok: "config_ok c"
    and order: "\<And>xs. mset (order xs) = mset xs"
    and limit: "\<And>q. covers (DrainLimit c) (expired now q (view R d))"
    and q: "q \<noteq> ''''" and j: "j \<in> expired now q (view R d)" and att: "job_attempts (view R d) j < MaxRetries c"
    and batch: "0 \<le> MaxClaimBatch c" "int (card {i. job_queue (view R d) i = Some q}) \<le> clamp_batch c batch"
  shows "\<exists>n. \<forall>fuel \<ge> n. \<exists>reports d1 jobs d2 job.
      reapPass R c onRequeue order (\<lambda>_. quiet) fuel (\<lambda>_. now) quiet d = Some (None, reports, d1)
    \<and> Claim R c now2 quiet [q] batch d1 = (Return (Inr jobs), d2)
    \<and> job \<in> set jobs \<and> Job_ID job = j \<and> hash_at (view R d) (jobKey j) ''payload'' = Some (Job_Payload job)
    \<and> Job_Attempts job = job_attempts (view R d) j + 1
    \<and> zset_at (view R d2) (leasedKey q) j = Some (lease_deadline c now2)"
proof -
  let ?v = "view R d"
  have mr: "MaxRetries c < 2 ^ 63 - 1" using config_ok_limits [OF ok] by simp
  obtain s where leased: "zset_at ?v (leasedKey q) j = Some s" using j by (auto simp: expired_def)
  have state: "job_state ?v j = Some StateLeased" by (rule job_state_leased [OF inv leased])
  then have live: "j \<in> live ?v" by (intro live_state_not_None) simp
  have "0 < occ ?v q j" using leased by (simp add: occ_pos_cases)
  with inv obtain p m i t where hash: "hash_at ?v (jobKey j) = job_hash p q m i t" by (rule inv_hash)
  obtain n where n: "\<forall>fuel \<ge> n. \<exists>reports d1.
      reapPass R c onRequeue order (\<lambda>_. quiet) fuel (\<lambda>_. now) quiet d = Some (None, reports, d1)
    \<and> j \<in> set (list_at (view R d1) (pendingKey q)) \<and> hash_at (view R d1) (jobKey j) = bumped ?v j
    \<and> job_queue (view R d1) = job_queue ?v \<and> job_inv (MaxRetries c) (view R d1)"
    using reapPass_requeues [OF inv ok order limit q j att] by blast
  show ?thesis
  proof (intro exI [of _ n] allI impI)
    fix fuel assume "n \<le> fuel"
    with n obtain reports d1 where
      run: "reapPass R c onRequeue order (\<lambda>_. quiet) fuel (\<lambda>_. now) quiet d = Some (None, reports, d1)"
      and pending: "j \<in> set (list_at (view R d1) (pendingKey q))"
      and hash1: "hash_at (view R d1) (jobKey j) = bumped ?v j"
      and queues: "job_queue (view R d1) = job_queue ?v" and inv1: "job_inv (MaxRetries c) (view R d1)" by blast
    obtain jobs d2 where claim: "Claim R c now2 quiet [q] batch d1 = (Return (Inr jobs), d2)"
      "claimed_job (view R d1) (lease_deadline c now2) q j \<in> set jobs"
      "zset_at (view R d2) (leasedKey q) j = Some (lease_deadline c now2)"
      using Claim_all [OF inv1 batch(1) _ pending] batch(2) queues by metis
    have "job_attempts (view R d1) j = job_attempts ?v j + 1"
      by (rule bumped_attempts [OF inv live mr state hash1])
    then have "Job_Attempts (claimed_job (view R d1) (lease_deadline c now2) q j) = job_attempts ?v j + 1"
      "hash_at ?v (jobKey j) ''payload'' = Some (Job_Payload (claimed_job (view R d1) (lease_deadline c now2) q j))"
      using hash hash1 by (simp_all add: claimed_job_def bumped_reads)
    then show "\<exists>reports d1 jobs d2 job.
        reapPass R c onRequeue order (\<lambda>_. quiet) fuel (\<lambda>_. now) quiet d = Some (None, reports, d1)
      \<and> Claim R c now2 quiet [q] batch d1 = (Return (Inr jobs), d2)
      \<and> job \<in> set jobs \<and> Job_ID job = j \<and> hash_at ?v (jobKey j) ''payload'' = Some (Job_Payload job)
      \<and> Job_Attempts job = job_attempts ?v j + 1
      \<and> zset_at (view R d2) (leasedKey q) j = Some (lease_deadline c now2)"
      using run claim by (intro exI conjI) (auto simp: claimed_job_def)
  qed
qed

end

end
