(* ===== verification/Job_Leases.thy ===== *)
theory Job_Leases
  imports Job_Runs
begin

section \<open>A lease is exclusive while it lasts\<close>

text \<open>
  What a worker may rely on between a claim and its report: as long as it renews before the reaper
  looks, and does not report itself, no other process is handed its job. \<open>lease_kept\<close> follows the
  job's deadline through a history and says that no write of the history is entitled to take the
  lease away: no ack or failure of the job, and every reaper pass of its queue comes before the
  deadline that is then in force.
\<close>

fun lease_kept :: "queue \<Rightarrow> job_id \<Rightarrow> int \<Rightarrow> op list \<Rightarrow> bool" where
  "lease_kept q j dl [] \<longleftrightarrow> True"
| "lease_kept q j dl (OpRenew q' i dl' # xs) \<longleftrightarrow> lease_kept q j (if q' = q \<and> i = j then dl' else dl) xs"
| "lease_kept q j dl (OpReap q' now # xs) \<longleftrightarrow> (q' = q \<longrightarrow> now < dl) \<and> lease_kept q j dl xs"
| "lease_kept q j dl (OpAck q' js # xs) \<longleftrightarrow> (q' = q \<longrightarrow> j \<notin> set js) \<and> lease_kept q j dl xs"
| "lease_kept q j dl (OpFail q' i t # xs) \<longleftrightarrow> (q' = q \<longrightarrow> i \<noteq> j) \<and> lease_kept q j dl xs"
| "lease_kept q j dl (x # xs) \<longleftrightarrow> lease_kept q j dl xs"

fun last_deadline :: "queue \<Rightarrow> job_id \<Rightarrow> int \<Rightarrow> op list \<Rightarrow> int" where
  "last_deadline q j dl [] = dl"
| "last_deadline q j dl (OpRenew q' i dl' # xs) = last_deadline q j (if q' = q \<and> i = j then dl' else dl) xs"
| "last_deadline q j dl (x # xs) = last_deadline q j dl xs"

lemma lease_kept_head: "lease_kept q j dl (x # xs) \<Longrightarrow> lease_kept q j dl [x]"
  by (cases x) auto

lemma lease_kept_tail: "lease_kept q j dl (x # xs) \<Longrightarrow> lease_kept q j (last_deadline q j dl [x]) xs"
  by (cases x) auto

lemma last_deadline_tail: "last_deadline q j dl (x # xs) = last_deadline q j (last_deadline q j dl [x]) xs"
  by (cases x) auto

subsection \<open>Each write keeps a lease it is not entitled to take\<close>

lemma lease_fold_reap:
  "q' = q \<longrightarrow> j \<notin> set js \<Longrightarrow>
   zset_at (fold (a_reap1 mr q') js v) (leasedKey q) j = zset_at v (leasedKey q) j"
proof (induction js arbitrary: v)
  case (Cons i js)
  have "zset_at (a_reap1 mr q' i v) (leasedKey q) j = zset_at v (leasedKey q) j"
    using Cons.prems by (auto simp: a_reap1_def a_bump_def Let_def)
  then show ?case using Cons by simp
qed simp

lemma lease_fold_ack:
  "q' = q \<longrightarrow> j \<notin> set js \<Longrightarrow>
   zset_at (fold (a_ack1 q') js v) (leasedKey q) j = zset_at v (leasedKey q) j"
proof (induction js arbitrary: v)
  case (Cons i js)
  have "zset_at (a_ack1 q' i v) (leasedKey q) j = zset_at v (leasedKey q) j"
    using Cons.prems by (auto simp: a_ack1_def)
  then show ?case using Cons by simp
qed simp

lemma lease_fold_retry: "zset_at (fold (a_retry1 q') js v) (leasedKey q) = zset_at v (leasedKey q)"
proof (induction js arbitrary: v)
  case (Cons i js)
  have "zset_at (a_retry1 q' i v) (leasedKey q) = zset_at v (leasedKey q)" by (simp add: a_retry1_def)
  then show ?case using Cons by simp
qed simp

lemma lease_fire: "zset_at (snd (a_fire nows now xs v)) (leasedKey q) = zset_at v (leasedKey q)"
proof (induction xs arbitrary: v)
  case (Cons x xs)
  have "zset_at (a_fire1 nows now x v) (leasedKey q) = zset_at v (leasedKey q)"
    by (cases x) (simp add: a_fire1_def a_enqueue_def split: option.split)
  then show ?case using Cons by (simp add: split_beta)
qed simp

lemma not_yet_due: "zset_at v (leasedKey q) j = Some dl \<Longrightarrow> now < dl \<Longrightarrow> j \<notin> set (reap_due now n q v)"
  using set_limited_subset [of n "due_members (zset_at v (leasedKey q)) now"]
    due_members_score [of j "zset_at v (leasedKey q)" now]
  by (auto simp: reap_due_def)

lemma lease_op:
  assumes inv: "job_inv (MaxRetries c) v" and leased: "zset_at v (leasedKey q) j = Some dl"
    and kept: "lease_kept q j dl [x]"
  shows "zset_at (a_op c num x v) (leasedKey q) j = Some (last_deadline q j dl [x])" and "\<not> delivers x v j"
proof -
  have state: "job_state v j = Some StateLeased" by (rule job_state_leased [OF inv leased])
  then show "\<not> delivers x v j" using delivers_pending [OF inv, of x j] by auto
  show "zset_at (a_op c num x v) (leasedKey q) j = Some (last_deadline q j dl [x])"
  proof (cases x)
    case (OpClaim q' n dl')
    have "j \<notin> set (take (nat n) (rev (list_at v (pendingKey q'))))"
      using taken_pending [OF inv, of j "nat n" q'] state by auto
    then show ?thesis using leased by (auto simp: OpClaim a_claim_def Let_def)
  next
    case (OpReap q' now)
    have "q' = q \<longrightarrow> j \<notin> set (reap_due now (DrainLimit c) q' v)"
      using kept not_yet_due [OF leased] by (simp add: OpReap)
    then show ?thesis using leased by (simp add: OpReap a_reap_def lease_fold_reap)
  qed (use kept leased in \<open>auto simp: a_enqueue_req_def a_enqueue_def a_renew_def lease_fold_ack a_fail_def
      a_bump_def Let_def a_retry_def lease_fold_retry lease_fire a_acquire_def a_renew_lock_def a_release_def
      a_elapse_def split: option.splits\<close>)
qed

lemma lease_runs:
  "runs (astep c num) v xs w \<Longrightarrow> job_inv (MaxRetries c) v \<Longrightarrow> config_ok c \<Longrightarrow>
   zset_at v (leasedKey q) j = Some dl \<Longrightarrow> lease_kept q j dl xs \<Longrightarrow>
   zset_at w (leasedKey q) j = Some (last_deadline q j dl xs) \<and> deliveries c num xs v j = 0"
proof (induction arbitrary: dl rule: runs.induct)
  case (run_nil s)
  then show ?case by simp
next
  case (run_cons v x t xs w)
  have t: "t = a_op c num x v" and ok: "op_ok x v" using run_cons.hyps(1) by (simp_all add: astep_def)
  have inv: "job_inv (MaxRetries c) t" using inv_op [OF run_cons.prems(1,2) ok] by (simp add: t)
  note one = lease_op [OF run_cons.prems(1,3) lease_kept_head [OF run_cons.prems(4)]]
  show ?case
    using run_cons.IH [OF inv run_cons.prems(2) one(1) [of num, folded t] lease_kept_tail [OF run_cons.prems(4)]] one(2)
    by (simp add: last_deadline_tail [of q j dl x xs] flip: t)
qed

context redis_db
begin

lemma lease_exclusive:
  assumes "runs (cogs_step R c) d xs d'" and "job_inv (MaxRetries c) (view R d)" and "config_ok c"
    and "zset_at (view R d) (leasedKey q) j = Some dl" and "lease_kept q j dl xs"
  shows "times_handed_out R c xs d j = 0" and "zset_at (view R d') (leasedKey q) j = Some (last_deadline q j dl xs)"
  using lease_runs [OF runs_refine [OF assms(1-3)] assms(2-5)] handed_out_runs [OF assms(1-3), of j] by simp_all

text \<open>From the claim that handed the job out.\<close>

lemma claim_then_exclusive:
  assumes "job_inv (MaxRetries c) (view R d)" and "config_ok c"
    and "j \<in> set (handed_out R (OpClaim q n dl) d)"
    and "runs (cogs_step R c) (exec_op R c (OpClaim q n dl) d) xs d'" and "lease_kept q j dl xs"
  shows "times_handed_out R c (OpClaim q n dl # xs) d j = 1"
    and "zset_at (view R d') (leasedKey q) j = Some (last_deadline q j dl xs)"
proof -
  let ?d1 = "exec_op R c (OpClaim q n dl) d" and ?v = "view R d"
  have step: "cogs_step R c d (OpClaim q n dl) ?d1" by (simp add: cogs_step_def)
  have inv: "job_inv (MaxRetries c) (view R ?d1)" by (rule step_inv [OF step assms(1,2)])
  have "count_list (handed_out R (OpClaim q n dl) d) j > 0"
    using assms(3) by (simp add: count_list_pos_iff)
  then have del: "delivers (OpClaim q n dl) ?v j" and one: "count_list (handed_out R (OpClaim q n dl) d) j = 1"
    using handed_out_delivers [OF assms(1), of "OpClaim q n dl" j] by (simp_all split: if_splits)
  have "view R ?d1 = a_claim (nat n) q dl ?v"
    using exec_refines [OF assms(1,2), of "OpClaim q n dl"] by simp
  then have leased: "zset_at (view R ?d1) (leasedKey q) j = Some dl"
    using del by (simp add: a_claim_def Let_def)
  show "times_handed_out R c (OpClaim q n dl # xs) d j = 1"
    using lease_exclusive(1) [OF assms(4) inv assms(2) leased assms(5)] one by simp
  show "zset_at (view R d') (leasedKey q) j = Some (last_deadline q j dl xs)"
    by (rule lease_exclusive(2) [OF assms(4) inv assms(2) leased assms(5)])
qed

end

end
