(* ===== verification/Demo_States.thy ===== *)
theory Demo_States
  imports Cogs_Loadtest Cogs_Server Payload_Wire Chaos_Worker Crash_Recovery Job_Leases
begin

section \<open>Concrete databases for the witnesses\<close>

text \<open>
  A few states of the in-memory Redis, reached from the empty database by the program's own
  steps with the default configuration, and their views.
\<close>

definition demo_config :: config where
  "demo_config = LoadConfig (\<lambda>_. '''')"

lemma demo_config_simps [simp]:
  "MaxRetries demo_config = 5" "DrainLimit demo_config = 500" "MaxClaimBatch demo_config = 64"
  "LeaderLockTTL demo_config = 10000000000" "LeaseTTL demo_config = 3000000000"
  "IdempotencyWindow demo_config = 3600000000000" "AuthToken demo_config = ''''"
  "MaxClaimWait demo_config = 5000000000" "BackoffBase demo_config = 1000000000"
  "HeartbeatDivisor demo_config = 3" "MaxBodyBytes demo_config = 1048576"
  by (simp_all add: demo_config_def LoadConfig_def envInt_def env_def i64_def)

lemma demo_config_ok: "config_ok demo_config"
  by (simp add: config_ok_def limits_ok_def)

lemma demo_window: "window_seconds demo_config = 3600"
  by (simp add: window_seconds_def signed_divide_int_def)

lemma demo_deadline: "lease_deadline demo_config 1000 = 4000"
  by (simp add: lease_deadline_def milliseconds_def signed_divide_int_def i64_def)

lemma mem_empty_view: "view mem_redis mem_empty = view_empty"
  by (simp add: mem_view mem_empty_def view_empty_def fun_eq_iff)

lemma demo_inv_empty: "job_inv mr (view mem_redis mem_empty)"
  by (simp add: mem_empty_view job_inv_empty)

lemma live_empty: "live view_empty = {}"
  by (simp add: live_def view_empty_def)

text \<open>One pending job, then the same job leased until 10 and until 20.\<close>

definition demo_enqueue :: op where
  "demo_enqueue = OpEnqueue ''j1'' ''p'' ''q'' ''1'' '''' 3600"

definition demo_pending :: mem where
  "demo_pending = exec_op mem_redis demo_config demo_enqueue mem_empty"

definition demo_leased :: mem where
  "demo_leased = exec_op mem_redis demo_config (OpClaim ''q'' 1 10) demo_pending"

lemma demo_step:
  "op_ok x (view mem_redis d) \<Longrightarrow> runs (cogs_step mem_redis c) d [x] (exec_op mem_redis c x d)"
  by (auto simp: cogs_step_def intro: runs.intros)

lemma demo_pending_run: "runs (cogs_step mem_redis demo_config) mem_empty [demo_enqueue] demo_pending"
  unfolding demo_pending_def by (rule demo_step) (simp add: demo_enqueue_def mem_empty_view live_empty)

lemma demo_pending_inv: "job_inv (MaxRetries demo_config) (view mem_redis demo_pending)"
  by (rule mem.runs_inv [OF demo_pending_run demo_inv_empty demo_config_ok])

lemma demo_pending_view: "view mem_redis demo_pending = a_enqueue ''j1'' ''p'' ''q'' ''1'' '''' view_empty"
proof -
  have "op_ok demo_enqueue (view mem_redis mem_empty)"
    by (simp add: demo_enqueue_def mem_empty_view live_empty)
  from mem.exec_refines [OF demo_inv_empty demo_config_ok this] show ?thesis
    unfolding demo_pending_def by (simp add: demo_enqueue_def mem_empty_view a_enqueue_req_def)
qed

lemma demo_pending_live: "''j1'' \<in> live (view mem_redis demo_pending)"
  by (simp add: demo_pending_view a_enqueue_def cogs_simps)

lemma demo_leased_inv: "job_inv (MaxRetries demo_config) (view mem_redis demo_leased)"
  unfolding demo_leased_def by (rule mem.runs_inv [OF demo_step demo_pending_inv demo_config_ok]) simp

lemma demo_leased_view: "view mem_redis demo_leased = a_claim 1 ''q'' 10 (view mem_redis demo_pending)"
  using mem.exec_refines [OF demo_pending_inv demo_config_ok, of "OpClaim ''q'' 1 10"]
  unfolding demo_leased_def by simp

lemma demo_leased_zset: "zset_at (view mem_redis demo_leased) (leasedKey q)
    = (if q = ''q'' then [''j1'' \<mapsto> 10] else Map.empty)"
  by (auto simp: demo_leased_view demo_pending_view a_claim_def a_enqueue_def view_empty_def fun_eq_iff Let_def)

lemma demo_leased_attempts: "job_attempts (view mem_redis demo_leased) ''j1'' = 0"
  using parse_int_itoa [of 0]
  by (simp add: demo_leased_view demo_pending_view job_attempts_def a_claim_def a_enqueue_def Let_def)

lemma demo_pending_reads:
  "list_at (view mem_redis demo_pending) (pendingKey q) = (if q = ''q'' then [''j1''] else [])"
  "zset_at (view mem_redis demo_pending) k = Map.empty"
  "string_at (view mem_redis demo_pending) k = None"
  by (simp_all add: demo_pending_view a_enqueue_def view_empty_def)

lemma demo_expired: "expired 11 q (view mem_redis demo_leased) \<subseteq> {''j1''}"
  by (auto simp: expired_def demo_leased_zset split: if_splits)

lemma demo_covers: "covers (DrainLimit demo_config) (expired 11 q (view mem_redis demo_leased))"
proof -
  have "card (expired 11 q (view mem_redis demo_leased)) \<le> card {''j1''}"
    by (rule card_mono [OF _ demo_expired]) simp
  then show ?thesis by (simp add: covers_def)
qed

text \<open>A schedule that is due at 10, and a cron library whose schedules run every minute.\<close>

definition demo_cron :: cron where
  "demo_cron spec = (if spec = ''never'' then Inr (\<lambda>t. zero_time)
     else if spec = ''bad'' then Inl ''bad spec'' else Inr (\<lambda>t. t + 60 * Second))"

definition demo_sched :: mem where
  "demo_sched = exec_op mem_redis demo_config (OpCreateSchedule ''s1'' ''q'' ''* * * * *'' ''p'' ''1'' 5) mem_empty"

lemma demo_sched_view: "view mem_redis demo_sched =
    upd_zset schedulesKey [''s1'' \<mapsto> 5]
      (upd_hash (scheduleKey ''s1'') (map_of (schedule_fields ''q'' ''* * * * *'' ''p'' ''1'')) view_empty)"
  using mem.exec_refines [OF demo_inv_empty demo_config_ok, of "OpCreateSchedule ''s1'' ''q'' ''* * * * *'' ''p'' ''1'' 5"]
  unfolding demo_sched_def by (simp add: mem_empty_view view_empty_def)

lemma demo_sched_live: "live (view mem_redis demo_sched) = {}"
  by (simp add: demo_sched_view cogs_simps live_empty)

lemma demo_sched_due: "limited (due_limit demo_config) (due_members (zset_at (view mem_redis demo_sched) schedulesKey) 10) = [''s1'']"
proof -
  let ?xs = "due_members (zset_at (view mem_redis demo_sched) schedulesKey) 10"
  have "set ?xs = {''s1''}"
    by (auto simp: set_due_members demo_sched_view split: if_splits)
  moreover have "distinct ?xs" by (rule due_members_distinct)
  ultimately have "?xs = [''s1'']" by (intro distinct_singleton)
  then show ?thesis by (simp add: limited_def due_limit_def)
qed

lemma demo_sched_reads:
  "zset_at (view mem_redis demo_sched) schedulesKey = [''s1'' \<mapsto> 5]"
  "hash_at (view mem_redis demo_sched) (scheduleKey ''s1'') ''queue'' = Some ''q''"
  "hash_at (view mem_redis demo_sched) (scheduleKey ''s1'') ''cron'' = Some ''* * * * *''"
  "hash_at (view mem_redis demo_sched) (scheduleKey ''s1'') ''payload'' = Some ''p''"
  by (simp_all add: demo_sched_view schedule_fields_def)

lemma demo_reap_due: "reap_due 11 500 ''q'' (view mem_redis demo_leased) = [''j1'']"
proof -
  let ?xs = "due_members (zset_at (view mem_redis demo_leased) (leasedKey ''q'')) 11"
  have "set ?xs = expired 11 ''q'' (view mem_redis demo_leased)"
    by (rule set_reap_due_expired [OF mem.zset_finite])
  then have "set ?xs = {''j1''}" by (auto simp: expired_def demo_leased_zset split: if_splits)
  then have "?xs = [''j1'']" by (intro distinct_singleton due_members_distinct)
  then show ?thesis by (simp add: reap_due_def limited_def)
qed

lemma demo_leased_queue: "job_queue (view mem_redis demo_leased) ''j1'' = Some ''q''"
  by (simp add: demo_leased_view demo_pending_view job_queue_def a_claim_def a_enqueue_def Let_def)

lemma demo_active: "active_queue (view mem_redis demo_pending) = (\<lambda>q. q = ''q'')"
  by (auto simp: active_queue_def demo_pending_reads fun_eq_iff)

lemma demo_queues: "{i. job_queue (view mem_redis demo_leased) i = Some ''q''} \<subseteq> {''j1''}"
  by (auto simp: demo_leased_view demo_pending_view job_queue_def a_claim_def a_enqueue_def Let_def view_empty_def
      jobKey_def split: if_splits)

lemma demo_handed_out: "''j1'' \<in> set (handed_out mem_redis (OpClaim ''q'' 1 10) demo_pending)"
  using redis_db.claimScript_refines [OF redis_db_mem, of "''q''" 1 10 demo_pending]
  by (auto simp: claim_triple_def demo_pending_reads)

lemma demo_queue_ok: "ValidQueueName ''q''" "utf8 ''q''"
  by (simp_all add: ValidQueueName_def contains_any_def)

text \<open>A request of the SDK and what serving it depends on; a claim answers after one round.\<close>

definition demo_poll :: "mem poll" where
  "demo_poll = \<lparr>poll_now = 1000, poll_turns = quiet, poll_time = 1000000000, poll_gone = False\<rparr>"

definition demo_serving :: "mem serving" where
  "demo_serving = \<lparr>sv_random = Some [1], sv_now = 1, sv_net = Delivered, sv_start = 1000000000,
     sv_polls = [demo_poll], sv_jitter = 0, sv_oor = 0, sv_cron = demo_cron, sv_created = 1, sv_turns = quiet,
     sv_ping = None, sv_leader = False, sv_json_text = (\<lambda>_. ''bad json'')\<rparr>"

definition demo_enqueue_request :: request where
  "demo_enqueue_request =
     sdk_request (AuthToken demo_config) [''v1'', ''jobs''] (client_enqueue_body ''q'' (deep 2) '''')"

definition demo_claim_request :: claimRequest where
  "demo_claim_request = \<lparr>Claim_Queues = [''q''], Claim_Batch = 1, Claim_WaitMS = 0, Claim_WorkerID = ''w''\<rparr>"

lemma demo_payload: "sdk_payload (deep 2)"
  by (rule sdk_payload_deep) (simp_all add: maxNestingDepth_def)

lemma demo_new_id: "NewID (sv_random demo_serving) = Inr ''01''"
  by (simp add: demo_serving_def NewID_def hex_digit_def char_of_def bit_numeral_rec bit_1_iff bit_0 bit_Suc)

lemma demo_enqueue_length: "int (length (client_enqueue_body ''q'' (deep 2) '''')) \<le> MaxBodyBytes demo_config"
proof -
  have "length (client_enqueue_body ''q'' (deep 2) '''') \<le> 100" by code_simp
  then show ?thesis by simp
qed

lemma demo_claim_length: "int (length (client_claim_body demo_claim_request)) \<le> MaxBodyBytes demo_config"
proof -
  have "length (client_claim_body demo_claim_request) \<le> 100" by code_simp
  then show ?thesis by simp
qed

lemma demo_heartbeat: "heartbeat_every demo_config = Some 1000"
  by (simp add: heartbeat_every_def milliseconds_def signed_divide_int_def i64_def)

lemma demo_lawful_serving: "lawful_serving_by ok mem_redis demo_config demo_serving demo_pending"
proof -
  have "live (view mem_redis demo_pending) = {''j1''}"
    by (auto simp: demo_pending_view a_enqueue_def cogs_simps live_empty)
  then show ?thesis unfolding lawful_serving_by_def demo_new_id by (simp add: demo_serving_def demo_poll_def)
qed

lemma demo_enqueue_served: "\<exists>r us d'. serve mem_redis demo_config demo_serving demo_enqueue_request demo_pending = Some (r, us, d')"
proof -
  have "''01'' \<notin> live (view mem_redis demo_pending)"
    using demo_lawful_serving by (simp add: lawful_serving_by_def demo_new_id)
  then show ?thesis
    using redis_db.sdk_enqueue [OF redis_db_mem demo_queue_ok demo_payload demo_new_id _ _ demo_enqueue_length]
    unfolding demo_enqueue_request_def by (fastforce simp: demo_serving_def)
qed

lemma demo_lawful_serving_empty: "lawful_serving_by ok mem_redis demo_config demo_serving mem_empty"
  unfolding lawful_serving_by_def demo_new_id by (simp add: demo_serving_def demo_poll_def mem_empty_view live_empty)

lemma demo_lawful_no_random: "lawful_serving_by ok mem_redis demo_config (demo_serving\<lparr>sv_random := None\<rparr>) d"
  by (simp add: lawful_serving_by_def demo_serving_def demo_poll_def NewID_def)

text \<open>An enqueue and the claim of its job, served over the wire from the empty database.\<close>

lemma demo_enqueue_claim_served:
  "\<exists>us d1 us' b d2.
      serve mem_redis demo_config demo_serving demo_enqueue_request mem_empty
        = Some (Served (Return (Response 201 (EnqueueBody ''01'' ''q'' True))), us, d1)
      \<and> serve mem_redis demo_config (demo_serving\<lparr>sv_random := None\<rparr>)
          (sdk_request (AuthToken demo_config) [''v1'', ''jobs'', ''claim''] (client_claim_body demo_claim_request)) d1
        = Some (Served (Return (Response 200 b)), us', d2)"
proof -
  have fresh: "''01'' \<notin> live (view mem_redis mem_empty)" "list_at (view mem_redis mem_empty) (pendingKey ''q'') = []"
    by (simp_all add: mem_empty_view live_empty) (simp add: view_empty_def)
  have claim: "Claim_Queues demo_claim_request = [''q'']" "utf8 (Claim_WorkerID demo_claim_request)"
    "Claim_Batch demo_claim_request = 1" "Claim_WaitMS demo_claim_request = 0"
    by (simp_all add: demo_claim_request_def)
  have sv: "sv_net demo_serving = Delivered" "sv_polls (demo_serving\<lparr>sv_random := None\<rparr>) = demo_poll # []" "poll_turns demo_poll = quiet"
    by (simp_all add: demo_serving_def demo_poll_def)
  show ?thesis
    using redis_db.sdk_enqueue_claim [OF redis_db_mem demo_queue_ok demo_payload demo_new_id fresh(1) sv(1)
        demo_enqueue_length claim(1,2) _ _ _ _ demo_claim_length _ demo_heartbeat _ _ sv(2,3) fresh(2)]
    unfolding demo_enqueue_request_def by (simp add: claim) blast
qed

end
