(* ===== verification/Spec2Isabelle.thy ===== *)
theory Spec2Isabelle
  imports Demo_States
begin

text \<open>
  Cogs, a job queue over Redis (Go). A server process answers HTTP requests that enqueue, claim,
  renew, acknowledge and fail jobs; every change of a job is one Lua script, which Redis runs
  without other commands in between. Background loops, run by the process that holds a lock in
  Redis, put jobs with an expired lease or an elapsed backoff back to pending and fire cron
  schedules. Workers claim jobs over HTTP and renew their leases while the handler runs. All state
  but the leader flag is in Redis.

  The environment. Redis is a parameter: the record \<open>'db redis\<close> of Redis_Api has one field per
  command the program sends, and the locale \<open>redis_db\<close> states their documented behaviour by their
  effect on \<open>view\<close>, the lists, sorted sets, hashes and strings a client can read. Mem_Redis gives
  these commands on a concrete store and interprets the locale on it; every witness runs there.
  The cron library (\<open>cron\<close>) is a parameter too. JSON is not: Go_Json models what is used of
  \<open>encoding/json\<close> on texts, and only the text of a decoder's error is left open.
  The clock, random bytes and the fate of each message (\<open>net\<close>: delivered, request lost, reply
  lost) are arguments. An operation of several round trips takes, for each, an arbitrary change
  of the database made by other processes before it (\<open>turns\<close>); \<open>lawful\<close> turns are those made by
  writes of this program. Times are in ms where the code uses \<open>nowMS()\<close>, and ns for a
  \<open>time.Duration\<close>; \<open>int\<close> and \<open>int64\<close> arithmetic that can overflow wraps by \<open>i64\<close>.

  The theories, in dependency order:
  \<^item> Cogs_Prelude: facts on lists and maps, the collection \<open>cogs_simps\<close>, step relations (\<open>runs\<close>)
    and the locale \<open>transition_system\<close> of invariants.
  \<^item> Go_Lib: \<open>i64\<close>, \<open>strconv.Itoa\<close> and \<open>ParseInt\<close> with their round trip, hex encoding. Go_Json: the
    scanner with its nesting limit, string literals with escapes and UTF-8, the encoder, compaction
    of raw messages; every text of the encoder scans as one value and reads back. Json_Texts: the text
    of a value that the scanner cuts out of a longer text is a value on its own.
  \<^item> Cogs_Config (config.go), Cogs_Job (job.go and \<open>queueFromKey\<close>): settings, data, keys.
  \<^item> Redis_Api, Mem_Redis: the interface above and its model.
  \<^item> Lua_Scripts: the nine scripts of store.go and scheduler.go, command by command.
  \<^item> Job_Spec: the abstract job store, one function on views per script, and \<open>occ\<close>, how often a
    job is in the places of a queue. Job_Inv: the invariant \<open>job_inv\<close> (each job exactly once in
    one place of its own queue, attempts within their limit) and its preservation.
  \<^item> Script_Refine: each script computes its abstract function. Job_Lifecycle: \<open>job_state\<close> of a
    job under each operation, against the state diagram of README.md. Job_Steps: the type \<open>op\<close> of
    all writes of the program and their step relation \<open>cogs_step\<close>. Job_History and Job_Runs: what
    holds over any history, by interpreting \<open>transition_system\<close>. Job_Leases: how long a lease is
    exclusive (\<open>lease_kept\<close> follows its deadline through a history).
  \<^item> Cogs_Backoff: \<open>Backoff\<close> with its float64 rounding. Cogs_Store: the methods of \<open>Store\<close>.
    Store_Laws, Store_Outcomes, Store_Reach: their results without and with interference.
  \<^item> Cogs_Metrics (metrics.go), Cogs_Loops (loops.go): counters, \<open>drainDue\<close> and both passes.
  \<^item> Cogs_Leader (leader.go): one process, and the system of all processes with the age of each
    grant. Cogs_Scheduler (scheduler.go): schedules and the scheduler's pass.
  \<^item> Cogs_Api (api.go and the handlers of scheduler.go), Api_Laws: handlers and what they promise.
    Crash_Recovery: a reaper pass and a claim together redeliver a job.
  \<^item> Cogs_Wire: the structs of server and SDK as JSON, \<open>decode\<close>, \<open>writeJSON\<close> and the SDK's bodies;
    Wire_Laws: what one side writes the other reads. Cogs_Serve: a whole request through the mux,
    \<open>wrap\<close>, \<open>decode\<close> and the handler (\<open>serve\<close>), under any interference, and from SDK to SDK.
    Payload_Inv: what holds of every payload that is brought holds of every payload stored and read
    back, and the scheduler's pass under interference. Payload_Wire: all of them are JSON.
  \<^item> Cogs_Client (sdk/go/cogsclient/client.go): the client, the worker's loop and slots, one job with
    its heartbeat. Chaos_Worker (cmd/chaos-worker/main.go): the worker the chaos test kills, with its
    books. Cogs_Server (cmd/cogs/main.go and \<open>LoadScripts\<close>), Cogs_Loadtest (loadtest/main.go).
  \<^item> Demo_States: the concrete databases of the witnesses.

  What the properties show. C1 to C5: over any history of writes no job is lost, duplicated, run
  without bound, moved along an edge that is not in the diagram, or handed to a second worker
  while its lease is kept; C12 states the refinement they rest on. C6 to C19: each operation of the
  store and each pass of the loops does what it should, alone (the functional properties) and
  under interference and message loss (C8, C10, C13); C7 is the promise of the README, that a
  crashed worker's job is done again. C20 to C23: leadership and schedules. C24 to C28: the HTTP
  interface. C29 to C32: the wire. C33 to C35: the keys and the worker. C32 and C36 to C40 record
  behaviour the code or its documents do not intend. More of it is proved where it arises: the ack
  without a lease, the jobs that wait without a heartbeat (Cogs_Client), the creation answered
  as a bad cron expression (Api_Laws), the warm-up counted by the load generator (Cogs_Loadtest).

  Bounds and fuel. The claim poll and the loops are lists of rounds or events, as many as the
  environment supplies; C24 shows by which round the poll has answered. \<open>KnownQueues\<close> has fuel for
  the rounds of its SCANs; C19 shows that enough fuel gives the result while the database does not
  change, and C6 and C7 inherit it. The JSON scanner recurses on the nesting it allows, 10000 levels
  as in the library, and on the text: \<open>json_value_shorter\<close> shows that the guard of its loops holds.
  \<open>config_ok\<close> asks for a DRAIN_LIMIT other than 0, MAX_RETRIES below
  2^63 - 1 and a lock TTL of at least 1 ms.

  Not modelled: opening connections, PING and SCRIPT LOAD beyond their result, HTTP transport,
  logging, Prometheus' text format (the lines \<open>scrapeMetric\<close> reads are given), the output of the load generator, the tests
  (processes that print, sleep and are killed), the Node and Python SDKs, and the browser demo.
  Of JSON: the texts of error messages, and what a slice shows of an earlier value when a body
  gives its member twice with nulls in the second.
  Redis' own persistence and failover are outside: a history is one Redis' sequence of commands.
\<close>

section \<open>The job store over any history\<close>

text \<open>
  C1. The central invariant: from an empty database, after any sequence of the program's writes in
  any order, every job identifier is in exactly one place of its own queue (pending, leased,
  retry, dead) exactly once when its hash names that queue, and in no place of any other queue.
\<close>

theorem one_place_always:
  assumes "redis_db R" and "config_ok c" and "view R d = view_empty"
    and "runs (cogs_step R c) d xs d'"
  shows "occ (view R d') q j = (if r_hget R (jobKey j) ''queue'' d' = Some q then 1 else 0)"
proof -
  have "job_inv (MaxRetries c) (view R d)" using assms(3) by (simp add: job_inv_empty)
  from redis_db.runs_inv [OF assms(1,4) this assms(2)] show ?thesis
    by (simp add: job_inv_occ job_queue_def view_reads)
qed

theorem one_place_always_witness:
  "occ (view mem_redis demo_pending) ''q'' ''j1''
    = (if r_hget mem_redis (jobKey ''j1'') ''queue'' demo_pending = Some ''q'' then 1 else 0)"
  by (rule one_place_always [OF redis_db_mem demo_config_ok mem_empty_view demo_pending_run])

text \<open>
  C2. No job is lost: over any history that does not reuse its identifier, a job either has been
  acknowledged while it was leased, and is then gone, or it still exists with the same payload,
  queue, idempotency key and creation time, and its attempts have not gone down.
\<close>

theorem jobs_are_durable:
  assumes "redis_db R" and "config_ok c" and "job_inv (MaxRetries c) (view R d)"
    and "runs (cogs_step R c) d xs d'" and "not_reused j xs" and "j \<in> live (view R d)"
  shows "if run_acked R c xs d j then j \<notin> live (view R d') else kept j (view R d) (view R d')"
  by (rule redis_db.runs_durable [OF assms(1,4,3,2,5,6)])

theorem jobs_are_durable_witness:
  "if run_acked mem_redis demo_config [OpClaim ''q'' 1 10] demo_pending ''j1''
   then ''j1'' \<notin> live (view mem_redis demo_leased)
   else kept ''j1'' (view mem_redis demo_pending) (view mem_redis demo_leased)"
  unfolding demo_leased_def
  by (rule jobs_are_durable [OF redis_db_mem demo_config_ok demo_pending_inv demo_step]) (simp_all add: demo_pending_live)

text \<open>
  C3. A job cannot run forever: from any state of the system, over any history that does not reuse
  its identifier, the replies of the claim script hand a job out at most MaxRetries + 1 times, less
  the attempts it has already counted, whether its workers fail, crash or stall.
\<close>

theorem deliveries_are_bounded:
  assumes "redis_db R" and "config_ok c" and "job_inv (MaxRetries c) (view R d)"
    and "runs (cogs_step R c) d xs d'" and "not_reused j xs" and "j \<in> live (view R d)"
  shows "int (times_handed_out R c xs d j) \<le> max 0 (MaxRetries c) + 1 - job_attempts (view R d) j"
  by (rule redis_db.runs_bounded_deliveries [OF assms(1,4,3,2,5,6)])

theorem deliveries_are_bounded_witness:
  "int (times_handed_out mem_redis demo_config [OpClaim ''q'' 1 10] demo_pending ''j1'')
     \<le> max 0 (MaxRetries demo_config) + 1 - job_attempts (view mem_redis demo_pending) ''j1''"
  by (rule deliveries_are_bounded [OF redis_db_mem demo_config_ok demo_pending_inv demo_step])
    (simp_all add: demo_pending_live)

text \<open>
  C4. The state diagram: each write of the program leaves the state of each job as it is or moves
  it along one edge of the diagram of README.md, with no edge out of dead and none from pending or
  retry to gone.
\<close>

theorem steps_follow_lifecycle:
  assumes "redis_db R" and "config_ok c" and "job_inv (MaxRetries c) (view R d)"
    and "cogs_step R c d x d'"
  shows "job_state (view R d') j = job_state (view R d) j
    \<or> lifecycle (job_state (view R d) j) (job_state (view R d') j)"
  using redis_db.step_lifecycle [OF assms(1,4,3,2), of j] by metis

theorem steps_follow_lifecycle_witness:
  "job_state (view mem_redis demo_leased) ''j1'' = job_state (view mem_redis demo_pending) ''j1''
    \<or> lifecycle (job_state (view mem_redis demo_pending) ''j1'') (job_state (view mem_redis demo_leased) ''j1'')"
  by (rule steps_follow_lifecycle [OF redis_db_mem demo_config_ok demo_pending_inv, of "OpClaim ''q'' 1 10"])
    (simp add: cogs_step_def demo_leased_def)

text \<open>
  C5. A lease is exclusive while it lasts: after the claim that handed a job out, over any history
  in which the job is not reported and every reaper pass of its queue comes before the deadline
  then in force (renewals move it), no other claim is handed the job, and the lease stands with
  the deadline of the last renewal. This is what the heartbeat buys a worker.
\<close>

theorem lease_is_exclusive:
  assumes "redis_db R" and "config_ok c" and "job_inv (MaxRetries c) (view R d)"
    and "j \<in> set (handed_out R (OpClaim q n dl) d)"
    and "runs (cogs_step R c) (exec_op R c (OpClaim q n dl) d) xs d'" and "lease_kept q j dl xs"
  shows "times_handed_out R c (OpClaim q n dl # xs) d j = 1
    \<and> zset_at (view R d') (leasedKey q) j = Some (last_deadline q j dl xs)"
  using redis_db.claim_then_exclusive [OF assms(1,3,2,4,5,6)] by blast

theorem lease_is_exclusive_witness:
  "\<exists>d'. times_handed_out mem_redis demo_config
      [OpClaim ''q'' 1 10, OpReap ''q'' 9, OpRenew ''q'' ''j1'' 20, OpReap ''q'' 19, OpClaim ''q'' 1 30] demo_pending ''j1'' = 1
    \<and> zset_at (view mem_redis d') (leasedKey ''q'') ''j1'' = Some 20"
proof -
  let ?xs = "[OpReap ''q'' 9, OpRenew ''q'' ''j1'' 20, OpReap ''q'' 19, OpClaim ''q'' 1 30]"
  have "\<exists>d'. runs (cogs_step mem_redis demo_config) (exec_op mem_redis demo_config (OpClaim ''q'' 1 10) demo_pending) ?xs d'"
    by (auto simp: cogs_step_def runs_Cons_iff)
  then show ?thesis
    using lease_is_exclusive [OF redis_db_mem demo_config_ok demo_pending_inv demo_handed_out, of ?xs] by fastforce
qed

section \<open>Crash recovery and enqueueing\<close>

text \<open>
  C6. Crash recovery: a reaper pass that no other process interrupts, with a DRAIN_LIMIT that covers
  them, puts every job whose lease has expired back to pending, or in the dead-letter list when
  its attempts are used up, in every queue, and leaves the state of every other job as it is.
\<close>

theorem reaper_recovers_expired_leases:
  assumes "redis_db R" and "config_ok c" and "job_inv (MaxRetries c) (view R d)"
    and "\<And>qs. mset (order qs) = mset qs"
    and "\<And>q. covers (DrainLimit c) (expired now q (view R d))"
  shows "\<exists>n. \<forall>fuel \<ge> n. \<exists>reports d'.
      reapPass R c onRequeue order (\<lambda>_. quiet) fuel (\<lambda>_. now) quiet d = Some (None, reports, d')
    \<and> (\<forall>j. job_state (view R d') j =
        (if \<exists>q. q \<noteq> '''' \<and> j \<in> expired now q (view R d)
         then (if job_attempts (view R d) j + 1 > MaxRetries c then Some StateDead else Some StatePending)
         else job_state (view R d) j))"
  using redis_db.reapPass_recovers_all [OF assms(1,3,2,4,5), of onRequeue] unfolding dead_dest_def .

theorem reaper_recovers_expired_leases_witness:
  "\<exists>n. \<forall>fuel \<ge> n. \<exists>reports d'.
      reapPass mem_redis demo_config False (\<lambda>qs. qs) (\<lambda>_. quiet) fuel (\<lambda>_. 11) quiet demo_leased = Some (None, reports, d')
    \<and> (\<forall>j. job_state (view mem_redis d') j =
        (if \<exists>q. q \<noteq> '''' \<and> j \<in> expired 11 q (view mem_redis demo_leased)
         then (if job_attempts (view mem_redis demo_leased) j + 1 > MaxRetries demo_config
               then Some StateDead else Some StatePending)
         else job_state (view mem_redis demo_leased) j))"
  by (rule reaper_recovers_expired_leases [OF redis_db_mem demo_config_ok demo_leased_inv]) (simp, rule demo_covers)

text \<open>
  C7. A crashed worker's job is done again: when the lease of a job with attempts left has expired, one
  reaper pass and the next claim of its queue, with a batch for its jobs and nothing else in
  between, hand the job to a worker with its payload unchanged and one more attempt, and lease it.
\<close>

theorem crashed_job_is_redelivered:
  assumes "redis_db R" and "config_ok c" and "job_inv (MaxRetries c) (view R d)"
    and "\<And>qs. mset (order qs) = mset qs"
    and "\<And>q. covers (DrainLimit c) (expired now q (view R d))"
    and "q \<noteq> ''''" and "j \<in> expired now q (view R d)" and "job_attempts (view R d) j < MaxRetries c"
    and "0 \<le> MaxClaimBatch c" and "int (card {i. job_queue (view R d) i = Some q}) \<le> clamp_batch c batch"
  shows "\<exists>n. \<forall>fuel \<ge> n. \<exists>reports d1 jobs d2 job.
      reapPass R c onRequeue order (\<lambda>_. quiet) fuel (\<lambda>_. now) quiet d = Some (None, reports, d1)
    \<and> Claim R c now2 quiet [q] batch d1 = (Return (Inr jobs), d2)
    \<and> job \<in> set jobs \<and> Job_ID job = j \<and> hash_at (view R d) (jobKey j) ''payload'' = Some (Job_Payload job)
    \<and> Job_Attempts job = job_attempts (view R d) j + 1
    \<and> zset_at (view R d2) (leasedKey q) j = Some (lease_deadline c now2)"
  by (rule redis_db.redelivery [OF assms(1,3,2,4-10)])

theorem crashed_job_is_redelivered_witness:
  "\<exists>n. \<forall>fuel \<ge> n. \<exists>reports d1 jobs d2 job.
      reapPass mem_redis demo_config False (\<lambda>qs. qs) (\<lambda>_. quiet) fuel (\<lambda>_. 11) quiet demo_leased = Some (None, reports, d1)
    \<and> Claim mem_redis demo_config 1000 quiet [''q''] 1 d1 = (Return (Inr jobs), d2)
    \<and> job \<in> set jobs \<and> Job_ID job = ''j1''
    \<and> hash_at (view mem_redis demo_leased) (jobKey ''j1'') ''payload'' = Some (Job_Payload job)
    \<and> Job_Attempts job = job_attempts (view mem_redis demo_leased) ''j1'' + 1
    \<and> zset_at (view mem_redis d2) (leasedKey ''q'') ''j1'' = Some (lease_deadline demo_config 1000)"
proof -
  have "card {i. job_queue (view mem_redis demo_leased) i = Some ''q''} \<le> card {''j1''}"
    by (rule card_mono [OF _ demo_queues]) simp
  then show ?thesis
    by (intro crashed_job_is_redelivered [OF redis_db_mem demo_config_ok demo_leased_inv _ demo_covers])
      (simp_all add: expired_def demo_leased_zset demo_leased_attempts clamp_batch_def)
qed

text \<open>
  C8. Retrying an enqueue is safe: once an enqueue with an idempotency key has reached Redis, even
  when its reply was lost, enqueueing again with that key inside the window returns the first
  job's identifier with created = false and changes nothing, whatever the rest of the system did
  in between.
\<close>

theorem enqueue_retry_is_idempotent:
  assumes "redis_db R" and "config_ok c" and "job_inv (MaxRetries c) (view R d)"
    and "NewID rnd1 = Inr jid" and "jid \<notin> live (view R d)"
    and "idem \<noteq> ''''" and "0 < window_seconds c" and "string_at (view R d) (idemKey idem) = None"
    and "net = Delivered \<or> net = LostReply e"
    and "runs (cogs_step R c) (snd (Enqueue R c rnd1 now1 net q1 p1 idem d)) xs d2"
    and "elapsed xs < 1000 * window_seconds c" and "NewID rnd2 = Inr jid2"
  shows "\<exists>d3. Enqueue R c rnd2 now2 Delivered q2 p2 idem d2 = (Inr (jid, False), d3) \<and> view R d3 = view R d2"
  by (rule redis_db.Enqueue_again [OF assms(1,3,2,4-12)])

theorem enqueue_retry_is_idempotent_witness:
  "\<exists>d3. Enqueue mem_redis demo_config (Some [2]) 2000 Delivered ''q'' ''p'' ''k''
        (snd (Enqueue mem_redis demo_config (Some [1]) 1000 (LostReply ''timeout'') ''q'' ''p'' ''k'' mem_empty))
      = (Inr (hex_encode [1], False), d3)
    \<and> view mem_redis d3
      = view mem_redis (snd (Enqueue mem_redis demo_config (Some [1]) 1000 (LostReply ''timeout'') ''q'' ''p'' ''k'' mem_empty))"
  by (rule enqueue_retry_is_idempotent [OF redis_db_mem demo_config_ok demo_inv_empty, where ?rnd1.0 = "Some [1]"
        and xs = "[]" and e = "''timeout''" and ?jid2.0 = "hex_encode [2]"])
    (simp_all add: NewID_def demo_window mem_empty_view live_empty, simp add: view_empty_def)

section \<open>Claiming\<close>

text \<open>
  C9. Claim without interference: the batch, clamped to between 1 and MaxClaimBatch, is filled
  from the queues in the order of the request and from each first in, first out; each job comes
  with its payload, attempts and deadline, and the database changes by exactly these claims.
\<close>

theorem claim_is_fifo_by_priority:
  assumes "redis_db R" and "distinct qs" and "0 \<le> MaxClaimBatch c"
  shows "\<exists>d'. Claim R c now quiet qs batch d
      = (Return (Inr (map (\<lambda>(q, j). claimed_job (view R d) (lease_deadline c now) q j)
           (take (nat (clamp_batch c batch)) (offered (view R d) qs)))), d')
    \<and> view R d' = a_claims (lease_deadline c now) (clamp_batch c batch) qs (view R d)"
  by (rule redis_db.Claim_quiet [OF assms])

theorem claim_is_fifo_by_priority_witness:
  "\<exists>d'. Claim mem_redis demo_config 1000 quiet [''q''] 2 demo_pending
      = (Return (Inr [\<lparr>Job_ID = ''j1'', Job_Queue = ''q'', Job_Payload = ''p'', Job_Attempts = 0,
           Job_IdempotencyKey = '''', Job_CreatedAt = 0, Job_LeaseDeadline = 4000\<rparr>]), d')"
proof -
  have "job_attempts (view mem_redis demo_pending) ''j1'' = 0"
    using parse_int_itoa [of 0] by (simp add: demo_pending_view a_enqueue_def job_attempts_def)
  then show ?thesis
    using claim_is_fifo_by_priority [OF redis_db_mem, of "[''q'']" demo_config 1000 2 demo_pending]
    by (auto simp: demo_deadline offered_def demo_pending_reads claimed_job_def clamp_batch_def)
      (simp add: demo_pending_view a_enqueue_def)
qed



text \<open>
  C11. Batching is only batching: claiming n + m jobs in one script call gives the same jobs in the same
  order, and leaves the same database, as claiming n and then m.
\<close>

theorem claim_batch_is_sequence:
  assumes "redis_db R" and "0 \<le> n" and "0 \<le> m"
  shows "\<exists>out1 out2 d1 d2 d3. claimScript R (pendingKey q) (leasedKey q) n dl d = (Inr out1, d1)
    \<and> claimScript R (pendingKey q) (leasedKey q) m dl d1 = (Inr out2, d2)
    \<and> claimScript R (pendingKey q) (leasedKey q) (n + m) dl d = (Inr (out1 @ out2), d3)
    \<and> view R d3 = view R d2"
  by (rule redis_db.claim_split [OF assms])

theorem claim_batch_is_sequence_witness:
  "\<exists>out1 out2 d1 d2 d3. claimScript mem_redis (pendingKey ''q'') (leasedKey ''q'') 1 10 demo_pending = (Inr out1, d1)
    \<and> claimScript mem_redis (pendingKey ''q'') (leasedKey ''q'') 1 10 d1 = (Inr out2, d2)
    \<and> claimScript mem_redis (pendingKey ''q'') (leasedKey ''q'') (1 + 1) 10 demo_pending = (Inr (out1 @ out2), d3)
    \<and> view mem_redis d3 = view mem_redis d2"
  by (rule claim_batch_is_sequence [OF redis_db_mem]) simp_all

section \<open>Refinement\<close>

text \<open>
  C12. The scripts implement the abstract job store: over any Redis that satisfies the laws, every
  history of the program's writes on the database is, step by step, a history of the abstract
  operations on its view.
\<close>

theorem scripts_refine_job_store:
  assumes "redis_db R" and "config_ok c" and "job_inv (MaxRetries c) (view R d)"
    and "runs (cogs_step R c) d xs d'"
  shows "runs (astep c (r_lua_number R)) (view R d) xs (view R d')"
  by (rule redis_db.runs_refine [OF assms(1,4,3,2)])

theorem scripts_refine_job_store_witness:
  "runs (astep demo_config (r_lua_number mem_redis)) (view mem_redis mem_empty) [demo_enqueue] (view mem_redis demo_pending)"
  by (rule scripts_refine_job_store [OF redis_db_mem demo_config_ok demo_inv_empty demo_pending_run])



text \<open>
  C14. A backlog of expired leases drains: with k drains of a queue and k * DRAIN_LIMIT at least the
  number of its expired leases, none is left.
\<close>

theorem reaper_backlog_drains:
  assumes "redis_db R" and "config_ok c" and "job_inv (MaxRetries c) (view R d)"
    and "0 \<le> DrainLimit c" and "int (card (expired now q (view R d))) \<le> int k * DrainLimit c"
  shows "expired now q (view R (drain_times R c now q k d)) = {}"
  by (rule redis_db.drain_times_all [OF assms(1,3,2,4,5)])

theorem reaper_backlog_drains_witness:
  "expired 11 ''q'' (view mem_redis (drain_times mem_redis demo_config 11 ''q'' 1 demo_leased)) = {}"
proof -
  have "card (expired 11 ''q'' (view mem_redis demo_leased)) \<le> card {''j1''}"
    by (rule card_mono [OF _ demo_expired]) simp
  then show ?thesis
    by (intro reaper_backlog_drains [OF redis_db_mem demo_config_ok demo_leased_inv]) simp_all
qed

section \<open>The outcome of each operation\<close>

text \<open>
  C15. The retry time: with exponential backoff and jitter the next attempt is due between half of
  the nominal delay and the nominal delay after the report, in exact float64 arithmetic, for
  every delay below 2^53 ns (which the default configuration never exceeds).
\<close>

theorem retry_delay_bounds:
  assumes "0 \<le> BackoffBase c" and "BackoffBase c * 2 ^ backoff_exponent attempt < 2 ^ 53"
    and "rnd < 2 ^ 53" and "0 \<le> now" and "now < 2 ^ 62"
  shows "now + milliseconds (BackoffBase c * 2 ^ backoff_exponent attempt div 2) \<le> retry_at c now attempt rnd oor
    \<and> retry_at c now attempt rnd oor \<le> now + milliseconds (BackoffBase c * 2 ^ backoff_exponent attempt)"
  using retry_at_bounds [OF assms, of oor] by blast

theorem retry_delay_bounds_witness:
  "1000 + milliseconds (BackoffBase demo_config * 2 ^ backoff_exponent 30 div 2) \<le> retry_at demo_config 1000 30 7 0
    \<and> retry_at demo_config 1000 30 7 0 \<le> 1000 + milliseconds (BackoffBase demo_config * 2 ^ backoff_exponent 30)"
  by (rule retry_delay_bounds) (simp_all add: backoff_exponent_def)

text \<open>
  C16. Reading a job back: after an enqueue that creates a job, reading it returns what was enqueued,
  with zero attempts and the time of the enqueue, and the JSON null for an absent payload.
\<close>

theorem enqueue_read_roundtrip:
  assumes "redis_db R" and "NewID rnd = Inr jid" and "jid \<notin> live (view R d)"
    and "idem = '''' \<or> 0 < window_seconds c"
    and "idem = '''' \<or> string_at (view R d) (idemKey idem) = None"
    and "- (2 ^ 63) \<le> now" and "now < 2 ^ 63"
  shows "\<exists>d'. Enqueue R c rnd now Delivered q p idem d = (Inr (jid, True), d')
    \<and> Job R Delivered jid d' = Inr \<lparr>Job_ID = jid, Job_Queue = q,
        Job_Payload = (if p = '''' then ''null'' else p), Job_Attempts = 0, Job_IdempotencyKey = idem,
        Job_CreatedAt = now, Job_LeaseDeadline = 0\<rparr>"
  by (rule redis_db.Enqueue_then_Job [OF assms])

theorem enqueue_read_roundtrip_witness:
  "\<exists>d'. Enqueue mem_redis demo_config (Some [1, 2]) 1700 Delivered ''q'' '''' ''k'' mem_empty
      = (Inr (hex_encode [1, 2], True), d')
    \<and> Job mem_redis Delivered (hex_encode [1, 2]) d' = Inr \<lparr>Job_ID = hex_encode [1, 2], Job_Queue = ''q'',
        Job_Payload = ''null'', Job_Attempts = 0, Job_IdempotencyKey = ''k'',
        Job_CreatedAt = 1700, Job_LeaseDeadline = 0\<rparr>"
  using enqueue_read_roundtrip [OF redis_db_mem, of "Some [1, 2]" "hex_encode [1, 2]" mem_empty "''k''"
      demo_config 1700 "''q''" "''''"]
  by (simp add: NewID_def demo_window mem_empty_view live_empty) (simp add: view_empty_def)

text \<open>
  C17. What a read of a job can return: for a job that exists the fields always parse, with the
  job's own identifier and queue and attempts between 0 and MaxRetries, or MaxRetries + 1 for a
  dead job.
\<close>

theorem job_reads_are_well_typed:
  assumes "redis_db R" and "config_ok c" and "job_inv (MaxRetries c) (view R d)" and "j \<in> live (view R d)"
  shows "\<exists>job. Job R Delivered j d = Inr job \<and> Job_ID job = j
    \<and> job_queue (view R d) j = Some (Job_Queue job) \<and> 0 \<le> Job_Attempts job
    \<and> Job_Attempts job \<le> max 0 (MaxRetries c) + (if job_state (view R d) j = Some StateDead then 1 else 0)"
  using redis_db.Job_well_typed [OF assms(1,3) _ assms(4)] config_ok_limits [OF assms(2)] by blast

theorem job_reads_are_well_typed_witness:
  "\<exists>job. Job mem_redis Delivered ''j1'' demo_pending = Inr job \<and> Job_ID job = ''j1''
    \<and> job_queue (view mem_redis demo_pending) ''j1'' = Some (Job_Queue job) \<and> 0 \<le> Job_Attempts job
    \<and> Job_Attempts job \<le> max 0 (MaxRetries demo_config)
        + (if job_state (view mem_redis demo_pending) ''j1'' = Some StateDead then 1 else 0)"
  by (rule job_reads_are_well_typed [OF redis_db_mem demo_config_ok demo_pending_inv demo_pending_live])

text \<open>
  C18. The four depths of a queue, read with nothing in between, add up to the number of its jobs.
\<close>

theorem stats_count_every_job:
  assumes "redis_db R" and "job_inv mr (view R d)"
  shows "\<exists>s. Stats R Delivered q d d d d = Inr s \<and>
    Stats_Pending s + Stats_Leased s + Stats_Retry s + Stats_Dead s = int (card {j. job_queue (view R d) j = Some q})"
  by (rule redis_db.Stats_sum [OF assms])

theorem stats_count_every_job_witness:
  "\<exists>s. Stats mem_redis Delivered ''q'' demo_leased demo_leased demo_leased demo_leased = Inr s \<and>
    Stats_Pending s + Stats_Leased s + Stats_Retry s + Stats_Dead s
      = int (card {j. job_queue (view mem_redis demo_leased) j = Some ''q''})"
  by (rule stats_count_every_job [OF redis_db_mem demo_leased_inv])

text \<open>
  C19. KnownQueues ends and is exact: with enough fuel for the scans of an unchanging database, it
  returns each queue with a pending, leased or waiting job once, and no other.
\<close>

theorem known_queues_exact:
  assumes "redis_db R" and "\<And>qs. mset (order qs) = mset qs"
  shows "\<exists>n. \<forall>fuel \<ge> n. \<exists>qs. KnownQueues R order (\<lambda>_. quiet) fuel d = Some (Inr qs, d)
    \<and> distinct qs \<and> set qs = {q. active_queue (view R d) q}"
  by (rule redis_db.KnownQueues_quiet [OF assms])

theorem known_queues_exact_witness:
  "\<exists>n. \<forall>fuel \<ge> n. KnownQueues mem_redis (\<lambda>qs. qs) (\<lambda>_. quiet) fuel demo_pending = Some (Inr [''q''], demo_pending)"
proof -
  obtain n where n: "\<forall>fuel \<ge> n. \<exists>qs. KnownQueues mem_redis (\<lambda>qs. qs) (\<lambda>_. quiet) fuel demo_pending = Some (Inr qs, demo_pending)
    \<and> distinct qs \<and> set qs = {q. active_queue (view mem_redis demo_pending) q}"
    using known_queues_exact [OF redis_db_mem, of "\<lambda>qs. qs" demo_pending] by auto
  have "qs = [''q'']" if "distinct qs" "set qs = {q. active_queue (view mem_redis demo_pending) q}" for qs
    using that by (intro distinct_singleton) (auto simp: demo_active)
  then show ?thesis using n by blast
qed

section \<open>Leader election and schedules\<close>



text \<open>
  C21. Failover: when the process whose identifier is in the lock stops renewing, the next delivered
  attempt of any other process after the lock's remaining time-to-live makes it the leader.
\<close>

theorem leader_failover:
  assumes "redis_db R" and "config_ok c" and "string_at (view R d) leaderKey = Some (x, Some ttl)"
    and "ttl \<le> t" and "0 \<le> t" and "\<not> held l"
  shows "held (fst (tryAcquire R c Delivered l (r_elapse R t d)))"
  by (rule redis_db.failover [OF assms])

theorem leader_failover_witness:
  "held (fst (tryAcquire mem_redis demo_config Delivered \<lparr>leader_id = ''b'', held = False\<rparr>
     (r_elapse mem_redis 10000
        (snd (tryAcquire mem_redis demo_config Delivered \<lparr>leader_id = ''a'', held = False\<rparr> mem_empty)))))"
  by (rule leader_failover [OF redis_db_mem demo_config_ok, where x = "''a''" and ttl = 10000])
    (simp_all add: mem.tryAcquire_view [OF demo_config_ok] mem_empty_view a_acquire_def view_empty_def
      milliseconds_nonneg)

text \<open>
  C22. A schedule fires once per due time: two batches of the scheduler, also of two processes that
  both believe they lead, never both fire a schedule, as long as the second runs before the next
  run the first has set.
\<close>

theorem schedules_fire_once:
  assumes "redis_db R" and "distinct (map (fst \<circ> snd) (xs @ ys))"
    and "(fst \<circ> snd) ` set (xs @ ys) \<inter> live (view R d) = {}"
    and "\<forall>(sid, j, p, nx) \<in> set xs. now2 < nx"
  shows "\<exists>fired d1 fired2 d2. scheduleDrainScript R schedulesKey now xs d = (Inr fired, d1)
    \<and> scheduleDrainScript R schedulesKey now2 ys d1 = (Inr fired2, d2)
    \<and> set (fired_ids fired) \<inter> set (fired_ids fired2) = {}"
  by (rule redis_db.scheduleDrain_twice [OF assms])

theorem schedules_fire_once_witness:
  "\<exists>fired d1 fired2 d2.
      scheduleDrainScript mem_redis schedulesKey 10 [(''s1'', ''a'', ''p'', 60)] demo_sched = (Inr fired, d1)
    \<and> scheduleDrainScript mem_redis schedulesKey 20 [(''s1'', ''b'', ''p'', 60)] d1 = (Inr fired2, d2)
    \<and> set (fired_ids fired) \<inter> set (fired_ids fired2) = {}"
  by (rule schedules_fire_once [OF redis_db_mem]) (simp_all add: demo_sched_live)



section \<open>The HTTP interface\<close>

text \<open>
  C24. The claim long poll ends: whatever Redis and the network do, the handler has answered by the
  first round whose clock has passed the start by MaxClaimWait, whatever wait_ms the client sent.
\<close>

theorem claim_poll_ends:
  assumes "p \<in> set polls" and "start + MaxClaimWait c \<le> poll_time p"
  shows "\<exists>r us d'. handleClaim R c start polls decoded d = Some (r, us, d')"
  by (rule handleClaim_answers [OF assms])

theorem claim_poll_ends_witness:
  "\<exists>r us d'. handleClaim mem_redis demo_config 0
      [\<lparr>poll_now = 0, poll_turns = quiet, poll_time = 100, poll_gone = False\<rparr>,
       \<lparr>poll_now = 0, poll_turns = quiet, poll_time = 6000000000, poll_gone = False\<rparr>]
      (Inr \<lparr>Claim_Queues = [''q''], Claim_Batch = 1, Claim_WaitMS = 60000, Claim_WorkerID = ''w''\<rparr>) mem_empty = Some (r, us, d')"
  by (rule claim_poll_ends
      [where p = "\<lparr>poll_now = 0, poll_turns = quiet, poll_time = 6000000000, poll_gone = False\<rparr>"]) simp_all

text \<open>
  C25. POST /v1/jobs: a new job is answered 201 with created true, is counted once and is pending;
  a request that hits an idempotency key is answered 200 with the identifier the key holds, is not
  counted and changes nothing.
\<close>

theorem enqueue_endpoint:
  assumes "redis_db R" and "ValidQueueName (Enq_Queue req)" and "NewID rnd = Inr jid" and "jid \<notin> live (view R d)"
    and "Enq_IdempotencyKey req = '''' \<or> 0 < window_seconds c"
  shows "\<exists>d'. handleEnqueue R c rnd now Delivered (Inr req) d =
    (case (Enq_IdempotencyKey req = '''', string_at (view R d) (idemKey (Enq_IdempotencyKey req))) of
       (False, Some (old, _)) \<Rightarrow> (Response 200 (EnqueueBody old (Enq_Queue req) False), [], d')
     | _ \<Rightarrow> (Response 201 (EnqueueBody jid (Enq_Queue req) True), [(JobsEnqueued (Enq_Queue req), 1)], d'))
    \<and> (case (Enq_IdempotencyKey req = '''', string_at (view R d) (idemKey (Enq_IdempotencyKey req))) of
       (False, Some _) \<Rightarrow> view R d' = view R d
     | _ \<Rightarrow> job_state (view R d') jid = Some StatePending)"
  by (rule redis_db.handleEnqueue_status [OF assms])

theorem enqueue_endpoint_witness:
  "\<exists>d'. handleEnqueue mem_redis demo_config (Some [1]) 5 Delivered
      (Inr \<lparr>Enq_Queue = ''q'', Enq_Payload = ''p'', Enq_IdempotencyKey = ''k''\<rparr>) mem_empty
    = (Response 201 (EnqueueBody (hex_encode [1]) ''q'' True), [(JobsEnqueued ''q'', 1)], d')
    \<and> job_state (view mem_redis d') (hex_encode [1]) = Some StatePending"
  using enqueue_endpoint [OF redis_db_mem,
      of "\<lparr>Enq_Queue = ''q'', Enq_Payload = ''p'', Enq_IdempotencyKey = ''k''\<rparr>" "Some [1]" "hex_encode [1]"
         mem_empty demo_config 5]
  by (simp add: NewID_def ValidQueueName_def contains_any_def demo_window mem_empty_view live_empty)
    (simp add: view_empty_def)

text \<open>
  C26. POST /v1/jobs/{id}/ack: a leased job is answered 200, counted, and is gone; a job with no
  lease in that queue is answered 409 and nothing changes, so a late ack cannot delete a job that
  has been requeued.
\<close>

theorem ack_endpoint:
  assumes "redis_db R" and "ValidQueueName (request_queue qq bq)"
  shows "\<exists>d'. handleAck R Delivered jid qq bq d =
    (if zset_at (view R d) (leasedKey (request_queue qq bq)) jid = None
     then (Response 409 (ErrBody ''lease_gone''
             ''lease had already expired; this job may have been re-run elsewhere''),
           [(JobsAcked (request_queue qq bq), 0)], d')
     else (Response 200 (AckedBody 1), [(JobsAcked (request_queue qq bq), 1)], d'))
    \<and> view R d' = a_ack1 (request_queue qq bq) jid (view R d)"
  by (rule redis_db.handleAck_status [OF assms])

theorem ack_endpoint_witness:
  "\<exists>d'. handleAck mem_redis Delivered ''j1'' '''' ''q'' demo_leased = (Response 200 (AckedBody 1), [(JobsAcked ''q'', 1)], d')
    \<and> view mem_redis d' = a_ack1 ''q'' ''j1'' (view mem_redis demo_leased)"
  using ack_endpoint [OF redis_db_mem, of "''''" "''q''" "''j1''" demo_leased]
  by (simp add: request_queue_def ValidQueueName_def contains_any_def demo_leased_zset)

text \<open>
  C27. POST /v1/jobs/{id}/fail: 409 and no change without a lease; otherwise 200 with the state the
  job moved to, dead when its attempts exceed MaxRetries and retry before, with the matching
  counters.
\<close>

theorem fail_endpoint:
  assumes "redis_db R" and "ValidQueueName (Fail_Queue req)" and "job_inv (MaxRetries c) (view R d)" and "config_ok c"
  shows "\<exists>d'. handleFail R c now rnd oor Delivered jid (Inr req) d =
    (if zset_at (view R d) (leasedKey (Fail_Queue req)) jid = None
     then (Response 409 (ErrBody ''lease_gone'' ''lease had already expired''), [(LeaseRenewRejected, 1)], d')
     else if dead_dest (MaxRetries c) (view R d) jid
     then (Response 200 (StateBody jid ''dead''),
           [(JobsFailed (Fail_Queue req), 1), (JobsDead (Fail_Queue req) ''max_attempts'', 1)], d')
     else (Response 200 (StateBody jid ''retry''), [(JobsFailed (Fail_Queue req), 1)], d'))
    \<and> view R d' = a_fail (MaxRetries c) (Fail_Queue req) jid (retry_at c now (Fail_Attempt req) rnd oor) (view R d)"
  by (rule redis_db.handleFail_status [OF assms])

theorem fail_endpoint_witness:
  "\<exists>d'. handleFail mem_redis demo_config 5 0 0 Delivered ''j1''
      (Inr \<lparr>Fail_Queue = ''q'', Fail_Error = ''x'', Fail_Attempt = 0\<rparr>) demo_leased
    = (Response 200 (StateBody ''j1'' ''retry''), [(JobsFailed ''q'', 1)], d')"
  using fail_endpoint [OF redis_db_mem _ demo_leased_inv demo_config_ok,
      of "\<lparr>Fail_Queue = ''q'', Fail_Error = ''x'', Fail_Attempt = 0\<rparr>" 5 0 0 "''j1''"]
  by (auto simp: ValidQueueName_def contains_any_def demo_leased_zset dead_dest_def demo_leased_attempts)

text \<open>
  C28. Authorization guards every wrapped endpoint: with a token configured the handler runs only
  for the header Bearer and that token, else the answer is 401 and nothing changes; the header the
  Go client sends is accepted.
\<close>

theorem auth_guards_endpoints:
  "wrap c ep h header d =
     (if AuthToken c = '''' \<or> header = ''Bearer '' @ AuthToken c
      then (case h d of
          (Panic e, us, d') \<Rightarrow> (Panic e, us, d')
        | (Return r, us, d') \<Rightarrow> (Return r, us @ [(RequestDuration ep (itoa (status_of r)), 1)], d'))
      else (Return (Response 401 (ErrBody ''unauthorized'' ''missing or invalid bearer token'')),
            [(RequestDuration ep ''401'', 1)], d))
   \<and> authorized c (case client_auth (AuthToken c) of None \<Rightarrow> '''' | Some sent \<Rightarrow> sent)"
  by (simp add: wrap_def authorized_iff client_auth_def)

section \<open>The wire\<close>

text \<open>
  C29. From one SDK to another: a payload that the Go client enqueues is the payload the next claim
  of the Go client gives its worker, through both requests as JSON, the routes, the token check,
  the decoders, the handlers, the scripts, and both responses as JSON.
\<close>

theorem sdk_enqueue_then_claim:
  assumes "redis_db R" and "ValidQueueName q" and "utf8 q" and "sdk_payload p"
    and "NewID (sv_random sv) = Inr jid" and "jid \<notin> live (view R d)" and "sv_net sv = Delivered"
    and "int (length (client_enqueue_body q p '''')) \<le> MaxBodyBytes c"
    and "Claim_Queues r = [q]" and "utf8 (Claim_WorkerID r)"
    and "- (2 ^ 63) \<le> Claim_Batch r" and "Claim_Batch r < 2 ^ 63"
    and "- (2 ^ 63) \<le> Claim_WaitMS r" and "Claim_WaitMS r < 2 ^ 63"
    and "int (length (client_claim_body r)) \<le> MaxBodyBytes c"
    and "0 < MaxClaimBatch c" and "heartbeat_every c = Some hb" and "0 \<le> LeaseTTL c" and "LeaseTTL c < 2 ^ 63"
    and "sv_polls sw = poll # polls" and "poll_turns poll = quiet" and "list_at (view R d) (pendingKey q) = []"
  shows "\<exists>us d1 us' b d2.
      serve R c sv (sdk_request (AuthToken c) [''v1'', ''jobs''] (client_enqueue_body q p '''')) d
        = Some (Served (Return (Response 201 (EnqueueBody jid q True))), us, d1)
      \<and> client_Enqueue (enqueue_exchange et 201 (writeJSON (EnqueueBody jid q True))) = Inr (Some (jid, q, True))
      \<and> serve R c sw (sdk_request (AuthToken c) [''v1'', ''jobs'', ''claim''] (client_claim_body r)) d1
        = Some (Served (Return (Response 200 b)), us', d2)
      \<and> client_Claim (claim_exchange et 200 (writeJSON b)) = Inr (Some
          \<lparr>CR_Jobs = [\<lparr>Job_ID = jid, Job_Queue = q, Job_Payload = p, Job_Attempts = 0, Job_IdempotencyKey = '''',
                        Job_CreatedAt = 0, Job_LeaseDeadline = lease_deadline c (poll_now poll)\<rparr>],
           CR_LeaseTTLMS = milliseconds (LeaseTTL c), CR_HeartbeatEveryMS = hb\<rparr>)"
  by (rule redis_db.sdk_enqueue_claim [OF assms])

theorem sdk_enqueue_then_claim_witness:
  "\<exists>us d1 us' b d2.
      serve mem_redis demo_config demo_serving demo_enqueue_request mem_empty
        = Some (Served (Return (Response 201 (EnqueueBody ''01'' ''q'' True))), us, d1)
      \<and> serve mem_redis demo_config demo_serving
          (sdk_request (AuthToken demo_config) [''v1'', ''jobs'', ''claim''] (client_claim_body demo_claim_request)) d1
        = Some (Served (Return (Response 200 b)), us', d2)
      \<and> client_Claim (claim_exchange (\<lambda>_. '''') 200 (writeJSON b)) = Inr (Some
          \<lparr>CR_Jobs = [\<lparr>Job_ID = ''01'', Job_Queue = ''q'', Job_Payload = ''[[]]'', Job_Attempts = 0,
                        Job_IdempotencyKey = '''', Job_CreatedAt = 0, Job_LeaseDeadline = 4000\<rparr>],
           CR_LeaseTTLMS = 3000, CR_HeartbeatEveryMS = 1000\<rparr>)"
proof -
  have d: "deep 2 = ''[[]]''" by (simp add: deep_def numeral_2_eq_2)
  have ttl: "milliseconds (LeaseTTL demo_config) = 3000" by (simp add: milliseconds_def signed_divide_int_def)
  have poll: "lease_deadline demo_config (poll_now demo_poll) = 4000" by (simp add: demo_poll_def demo_deadline)
  have fresh: "''01'' \<notin> live (view mem_redis mem_empty)" "list_at (view mem_redis mem_empty) (pendingKey ''q'') = []"
    by (simp_all add: mem_empty_view live_empty) (simp add: view_empty_def)
  have claim: "Claim_Queues demo_claim_request = [''q'']" "utf8 (Claim_WorkerID demo_claim_request)"
    "Claim_Batch demo_claim_request = 1" "Claim_WaitMS demo_claim_request = 0"
    by (simp_all add: demo_claim_request_def)
  have sv: "sv_net demo_serving = Delivered" "sv_polls demo_serving = demo_poll # []" "poll_turns demo_poll = quiet"
    by (simp_all add: demo_serving_def demo_poll_def)
  have "\<exists>us d1 us' b d2.
      serve mem_redis demo_config demo_serving (sdk_request (AuthToken demo_config) [''v1'', ''jobs''] (client_enqueue_body ''q'' (deep 2) '''')) mem_empty
        = Some (Served (Return (Response 201 (EnqueueBody ''01'' ''q'' True))), us, d1)
      \<and> client_Enqueue (enqueue_exchange (\<lambda>_. '''') 201 (writeJSON (EnqueueBody ''01'' ''q'' True))) = Inr (Some (''01'', ''q'', True))
      \<and> serve mem_redis demo_config demo_serving
          (sdk_request (AuthToken demo_config) [''v1'', ''jobs'', ''claim''] (client_claim_body demo_claim_request)) d1
        = Some (Served (Return (Response 200 b)), us', d2)
      \<and> client_Claim (claim_exchange (\<lambda>_. '''') 200 (writeJSON b)) = Inr (Some
          \<lparr>CR_Jobs = [\<lparr>Job_ID = ''01'', Job_Queue = ''q'', Job_Payload = deep 2, Job_Attempts = 0, Job_IdempotencyKey = '''',
                        Job_CreatedAt = 0, Job_LeaseDeadline = lease_deadline demo_config (poll_now demo_poll)\<rparr>],
           CR_LeaseTTLMS = milliseconds (LeaseTTL demo_config), CR_HeartbeatEveryMS = 1000\<rparr>)"
    by (rule sdk_enqueue_then_claim [OF redis_db_mem demo_queue_ok demo_payload demo_new_id fresh(1) sv(1)
        demo_enqueue_length claim(1,2) _ _ _ _ demo_claim_length _ demo_heartbeat _ _ sv(2,3) fresh(2)])
      (simp_all add: claim)
  then show ?thesis unfolding demo_enqueue_request_def poll ttl d by blast
qed

text \<open>
  C30. The SDK's requests cross the wire: the server decodes the body of each call of the Go client
  (enqueue, claim, renew, ack, fail) to exactly what the client sent, for texts in UTF-8, numbers
  of 64 bits and bodies within MAX_BODY_BYTES.
\<close>

theorem sdk_requests_decode:
  assumes "utf8 q" and "utf8 key" and "sdk_payload p" and "utf8 reason" and "\<forall>j \<in> set ids. utf8 j"
    and "\<forall>q \<in> set (Claim_Queues r). utf8 q" and "utf8 (Claim_WorkerID r)"
    and "\<forall>n \<in> {Claim_Batch r, Claim_WaitMS r, attempt}. - (2 ^ 63) \<le> n \<and> n < 2 ^ 63"
    and "\<forall>s \<in> {client_enqueue_body q p key, client_claim_body r, client_renew_body q, client_ack_body q ids,
               client_fail_body q attempt reason}. int (length s) \<le> MaxBodyBytes c"
  shows "decode c enqueueRequest_fields zero_enqueue (client_enqueue_body q p key)
      = (None, \<lparr>Enq_Queue = q, Enq_Payload = p, Enq_IdempotencyKey = key\<rparr>)
    \<and> decode c claimRequest_fields zero_claim (client_claim_body r) = (None, r)
    \<and> decode c queue_body_fields '''' (client_renew_body q) = (None, q)
    \<and> decode c ackBatchRequest_fields zero_ackBatch (client_ack_body q ids) = (None, \<lparr>Ack_Queue = q, Ack_IDs = ids\<rparr>)
    \<and> decode c failRequest_fields zero_fail (client_fail_body q attempt reason)
      = (None, \<lparr>Fail_Queue = q, Fail_Error = reason, Fail_Attempt = attempt\<rparr>)"
proof (intro conjI)
  show "decode c enqueueRequest_fields zero_enqueue (client_enqueue_body q p key)
      = (None, \<lparr>Enq_Queue = q, Enq_Payload = p, Enq_IdempotencyKey = key\<rparr>)"
    using assms by (intro enqueue_body_decodes sdk_payloadD) simp_all
qed (use assms in \<open>auto intro!: claim_body_decodes renew_body_decodes ack_body_decodes fail_body_decodes\<close>)

theorem sdk_requests_decode_witness:
  "decode demo_config claimRequest_fields zero_claim (client_claim_body demo_claim_request) = (None, demo_claim_request)
    \<and> decode demo_config failRequest_fields zero_fail (client_fail_body ''q'' 1 ''boom'')
      = (None, \<lparr>Fail_Queue = ''q'', Fail_Error = ''boom'', Fail_Attempt = 1\<rparr>)"
proof -
  have "length (client_renew_body ''q'') \<le> 100 \<and> length (client_ack_body ''q'' [''j1'']) \<le> 100
      \<and> length (client_fail_body ''q'' 1 ''boom'') \<le> 100" by code_simp
  then show ?thesis
    using sdk_requests_decode [OF demo_queue_ok(2) utf8_Nil demo_payload, of "''boom''" "[''j1'']" demo_claim_request 1 demo_config]
      demo_enqueue_length demo_claim_length
    by (simp add: demo_claim_request_def)
qed

text \<open>
  C31. Every response is written: along any path of the system on which the other processes' writes
  bring JSON payloads, whatever request comes in keeps to such a path (what \<open>decode\<close> takes as a
  payload is the text of one JSON value), and its response always has a body, since every payload
  that a claim, a job or a schedule carries can be marshalled again. \<open>writeJSON\<close> drops the encoder's
  error, so a payload that is not JSON would answer a claim with nothing and its jobs be lost to
  their leases.
\<close>

theorem responses_are_written:
  assumes "redis_db R" and "config_ok c" and "view R d0 = view_empty" and "reaches_by json_text R c d0 d"
    and "lawful_serving_by json_text R c sv d"
    and "serve R c sv rq d = Some (Served (Return (Response st b)), us, d')"
  shows "reaches_by json_text R c d0 d' \<and> (b \<noteq> NoBody \<longrightarrow> writeJSON b \<noteq> '''')"
  using redis_db.request_writes_json [OF assms] by (auto simp: writable_def writeJSON_def)

theorem responses_are_written_witness:
  "\<exists>us d1 us' b d2.
      serve mem_redis demo_config demo_serving demo_enqueue_request mem_empty
        = Some (Served (Return (Response 201 (EnqueueBody ''01'' ''q'' True))), us, d1)
      \<and> serve mem_redis demo_config (demo_serving\<lparr>sv_random := None\<rparr>)
          (sdk_request (AuthToken demo_config) [''v1'', ''jobs'', ''claim''] (client_claim_body demo_claim_request)) d1
        = Some (Served (Return (Response 200 b)), us', d2)
      \<and> reaches_by json_text mem_redis demo_config mem_empty d2 \<and> (b \<noteq> NoBody \<longrightarrow> writeJSON b \<noteq> '''')"
proof -
  obtain us d1 us' b d2 where
    enq: "serve mem_redis demo_config demo_serving demo_enqueue_request mem_empty
        = Some (Served (Return (Response 201 (EnqueueBody ''01'' ''q'' True))), us, d1)"
    and claim: "serve mem_redis demo_config (demo_serving\<lparr>sv_random := None\<rparr>)
          (sdk_request (AuthToken demo_config) [''v1'', ''jobs'', ''claim''] (client_claim_body demo_claim_request)) d1
        = Some (Served (Return (Response 200 b)), us', d2)"
    using demo_enqueue_claim_served by blast
  have "reaches_by json_text mem_redis demo_config mem_empty d1"
    by (rule responses_are_written [OF redis_db_mem demo_config_ok mem_empty_view reaches_refl
        demo_lawful_serving_empty enq, THEN conjunct1])
  from responses_are_written [OF redis_db_mem demo_config_ok mem_empty_view this demo_lawful_no_random claim]
  show ?thesis using enq claim by blast
qed

text \<open>
  C32. A payload the SDK cannot read back: the server accepts a payload nested 9998 deep, and no
  claim response with such a job can be decoded by the Go client, whatever other jobs it holds:
  the claim fails, and every job of the response waits out its lease.
\<close>

theorem deep_payload_breaks_claims:
  assumes "utf8 q" and "int (length (client_enqueue_body q (deep 9998) '''')) \<le> MaxBodyBytes c"
    and "\<forall>x \<in> set (pre @ post). job_on_wire (maxNestingDepth - 3) x"
    and "utf8 (Job_ID j)" and "Job_Queue j = q" and "Job_Payload j = deep 9998"
  shows "decode c enqueueRequest_fields zero_enqueue (client_enqueue_body q (deep 9998) '''')
      = (None, \<lparr>Enq_Queue = q, Enq_Payload = deep 9998, Enq_IdempotencyKey = ''''\<rparr>)
    \<and> client_Claim (claim_exchange et 200 (writeJSON (ClaimBody (pre @ j # post) ttl every)))
      = Inl (ClientErr (et JsonSyntax))"
proof -
  have n: "9998 = maxNestingDepth - 2" by (simp add: maxNestingDepth_def)
  show ?thesis using assms unfolding n by (intro conjI deep_payload_enqueues deep_job_unreadable) auto
qed

theorem deep_payload_breaks_claims_witness:
  "client_Claim (claim_exchange (\<lambda>_. ''exceeded max depth'') 200 (writeJSON (ClaimBody
      [zero_job\<lparr>Job_ID := ''01'', Job_Queue := ''q'', Job_Payload := deep 9998\<rparr>] 3000 1000)))
    = Inl (ClientErr ''exceeded max depth'')"
proof -
  have "length (client_enqueue_body ''q'' (deep 9998) '''')
      = length (client_enqueue_body ''q'' '''' '''') + 2 * 9998"
    by (simp add: client_enqueue_body_def enc_object_def enc_member_def compact_deep compact_Nil) (simp add: deep_def)
  moreover have "length (client_enqueue_body ''q'' '''' '''') \<le> 100" by code_simp
  ultimately show ?thesis
    using deep_payload_breaks_claims [OF demo_queue_ok(2), of demo_config "[]" "[]"
        "zero_job\<lparr>Job_ID := ''01'', Job_Queue := ''q'', Job_Payload := deep 9998\<rparr>" "\<lambda>_. ''exceeded max depth''" 3000 1000]
    by simp
qed

section \<open>Keys\<close>

text \<open>
  C33. The key layout: the keys of two different queues never meet, whatever characters the names
  have, the four keys of a queue are distinct, and KnownQueues' queueFromKey recovers the queue
  from each key it scans.
\<close>

theorem queue_keys:
  "({pendingKey q, leasedKey q, retryKey q, deadKey q} \<inter> {pendingKey r, leasedKey r, retryKey r, deadKey r} = {}
      \<longleftrightarrow> q \<noteq> r)
   \<and> distinct [pendingKey q, leasedKey q, retryKey q, deadKey q]
   \<and> map queueFromKey [pendingKey q, leasedKey q, retryKey q] = [q, q, q]"
  by auto

section \<open>The worker and the server\<close>

text \<open>
  C34. The heartbeat learns exactly that a lease is gone: through the server's handler and the
  client, a renewal gives ErrLeaseLost when the job has no lease in its queue, and no error
  otherwise.
\<close>

theorem renewal_end_to_end:
  assumes "redis_db R" and "ValidQueueName q"
  shows "client_Renew (exchange_of (fst (handleRenew R c now Delivered j '''' q d))) =
    (if zset_at (view R d) (leasedKey q) j = None then Some ErrLeaseLost else None)"
  by (rule redis_db.renew_end_to_end [OF assms])

theorem renewal_end_to_end_witness:
  "client_Renew (exchange_of (fst (handleRenew mem_redis demo_config 5 Delivered ''j1'' '''' ''q'' demo_pending)))
    = Some ErrLeaseLost"
  using renewal_end_to_end [OF redis_db_mem, of "''q''" demo_config 5 "''j1''" demo_pending]
  by (simp add: ValidQueueName_def contains_any_def demo_pending_reads)

text \<open>
  C35. A worker that has learned before its handler returned that the lease is lost reports nothing
  for the job, over any interleaving of the heartbeat and the handler.
\<close>

theorem lost_lease_reports_nothing:
  assumes "runs process_step proc_start es s" and "p_lost s" and "process_step s EvCheck t"
    and "runs process_step t fs u"
  shows "p_sent u = []"
  by (rule lost_before_check [OF assms])

theorem lost_lease_reports_nothing_witness:
  "p_sent (proc_start\<lparr>p_lost := True, p_cancelled := True, p_beating := False, p_phase := Over\<rparr>) = []"
proof -
  let ?s1 = "proc_start\<lparr>p_lost := True, p_cancelled := True, p_beating := False\<rparr>"
  let ?s2 = "?s1\<lparr>p_phase := Returned None\<rparr>"
  have "process_step proc_start (EvRenew (Some ErrLeaseLost)) ?s1" by (rule ps_lost) (simp add: proc_start_def)
  moreover have "process_step ?s1 (EvHandler None) ?s2" by (rule ps_handler) (simp add: proc_start_def)
  ultimately have "runs process_step proc_start [EvRenew (Some ErrLeaseLost), EvHandler None] ?s2"
    by (meson runs.intros)
  moreover have "process_step ?s2 EvCheck (?s2\<lparr>p_phase := Over\<rparr>)" using ps_check [of ?s2 None] by simp
  ultimately have "p_sent (?s2\<lparr>p_phase := Over\<rparr>) = []"
    by (intro lost_lease_reports_nothing [where es = "[EvRenew (Some ErrLeaseLost), EvHandler None]" and fs = "[]"])
      (simp_all add: runs.intros)
  then show ?thesis by simp
qed



section \<open>Behaviours the code does not intend\<close>

text \<open>
  C37. HEARTBEAT_DIVISOR = 0: a claim that finds jobs leases them and counts them, and then divides
  by zero, so no response is written and no worker has the jobs.
\<close>

theorem zero_divisor_loses_claims:
  assumes "redis_db R" and "HeartbeatDivisor c = 0" and "\<forall>q \<in> set qs. ValidQueueName q" and "qs \<noteq> []"
    and "distinct qs" and "0 < MaxClaimBatch c" and "offered (view R d) qs \<noteq> []" and "poll_turns p = quiet"
  shows "\<exists>us d'. handleClaim R c start (p # polls) (Inr \<lparr>Claim_Queues = qs, Claim_Batch = b, Claim_WaitMS = w, Claim_WorkerID = wid\<rparr>) d
      = Some (Panic ''integer divide by zero'', us, d')
    \<and> view R d' = a_claims (lease_deadline c (poll_now p)) (clamp_batch c b) qs (view R d)
    \<and> 0 < added ClaimBatchSize us"
  by (rule redis_db.claim_panics [OF assms])

theorem zero_divisor_loses_claims_witness:
  "\<exists>us d'. handleClaim mem_redis (LoadConfig (\<lambda>k. if k = ''HEARTBEAT_DIVISOR'' then ''0'' else '''')) 0
      [\<lparr>poll_now = 0, poll_turns = quiet, poll_time = 0, poll_gone = False\<rparr>]
      (Inr \<lparr>Claim_Queues = [''q''], Claim_Batch = 1, Claim_WaitMS = 0, Claim_WorkerID = ''w''\<rparr>) demo_pending
      = Some (Panic ''integer divide by zero'', us, d')"
  using zero_divisor_loses_claims [OF redis_db_mem,
      of "LoadConfig (\<lambda>k. if k = ''HEARTBEAT_DIVISOR'' then ''0'' else '''')" "[''q'']" demo_pending
         "\<lparr>poll_now = 0, poll_turns = quiet, poll_time = 0, poll_gone = False\<rparr>" 0 "[]" 1 0 "''w''"]
  by (auto simp: LoadConfig_def envInt_def env_def i64_def parse_int_def ValidQueueName_def contains_any_def
      offered_def demo_pending_reads)

text \<open>
  C38. A cron expression that parses and never matches makes a schedule that is due at once and
  stays due: Create returns success, the next pass enqueues its job, and the next run it sets is
  again in the past of every clock.
\<close>

theorem never_matching_schedule_always_due:
  assumes "redis_db R" and "cron spec = Inr nxt" and "\<And>t. nxt t = zero_time" and "NewID rnd = Inr sid"
    and "zset_at (view R d) schedulesKey = Map.empty" and "hash_at (view R d) (scheduleKey sid) = Map.empty"
    and "hex_encode (bytes 0) \<notin> live (view R d)" and "- 62135596800000 \<le> now2"
  shows "\<exists>s d1 reports d2. Create R cron rnd now created Delivered q spec p d = (Inr s, d1)
    \<and> Pass R c cron now2 Delivered (quiet_input bytes t) (Delivered, \<lambda>d. d) d1 = (None, reports, d2)
    \<and> hex_encode (bytes 0) \<in> set (list_at (view R d2) (pendingKey q))
    \<and> zset_at (view R d2) schedulesKey sid = Some (- 62135596800000)"
  by (rule redis_db.never_fires_again [where cron = cron and spec = spec and nxt = nxt and bytes = bytes, OF assms])

theorem never_matching_schedule_always_due_witness:
  "\<exists>s d1 reports d2. Create mem_redis demo_cron (Some [1]) 0 0 Delivered ''q'' ''never'' ''p'' mem_empty = (Inr s, d1)
    \<and> Pass mem_redis demo_config demo_cron 5 Delivered (quiet_input (\<lambda>i. [2]) 5000000) (Delivered, \<lambda>d. d) d1
        = (None, reports, d2)
    \<and> hex_encode [2] \<in> set (list_at (view mem_redis d2) (pendingKey ''q''))
    \<and> zset_at (view mem_redis d2) schedulesKey (hex_encode [1]) = Some (- 62135596800000)"
  by (rule never_matching_schedule_always_due [OF redis_db_mem, where nxt = "\<lambda>t. zero_time" and bytes = "\<lambda>i. [2]"])
    (simp_all add: demo_cron_def NewID_def mem_empty_view live_empty, simp_all add: view_empty_def)

text \<open>
  C39. The scheduler drops a live schedule on any failed read of its hash, also on a lost message:
  the pass removes it from the sorted set, its hash stays, and it never fires again.
\<close>

theorem failed_read_drops_schedule:
  assumes "redis_db R" and "limited (due_limit c) (due_members (zset_at (view R d) schedulesKey) now) = [sid]"
    and "fst (fi_read (inp 0)) = LostRequest e" and "fi_drop (inp 0) = (Delivered, \<lambda>d. d)"
    and "snd (fi_read (inp 0)) = (\<lambda>d. d)"
  shows "\<exists>d'. Pass R c cron now Delivered inp turn d = (None, [], d')
    \<and> zset_at (view R d') schedulesKey sid = None
    \<and> hash_at (view R d') (scheduleKey sid) = hash_at (view R d) (scheduleKey sid)"
  by (rule redis_db.Pass_lost_read [where inp = inp and e = e, OF assms])

theorem failed_read_drops_schedule_witness:
  "\<exists>d'. Pass mem_redis demo_config demo_cron 10 Delivered
      (\<lambda>i. \<lparr>fi_read = (LostRequest ''i/o timeout'', \<lambda>d. d), fi_drop = (Delivered, \<lambda>d. d), fi_rnd = None, fi_now = 0\<rparr>)
      (Delivered, \<lambda>d. d) demo_sched = (None, [], d')
    \<and> zset_at (view mem_redis d') schedulesKey ''s1'' = None
    \<and> hash_at (view mem_redis d') (scheduleKey ''s1'') = hash_at (view mem_redis demo_sched) (scheduleKey ''s1'')"
  by (rule failed_read_drops_schedule [OF redis_db_mem demo_sched_due]) simp_all


end
